(* ===== verification/Prelude.thy ===== *)
theory Prelude
  imports Main "HOL-Library.Word"
begin

text \<open>
  The prelude of the development: bytes, Go's two ways of failing, big-endian
  encodings and the cutting of a byte string into blocks. Everything here is generic;
  nothing models one particular file of the repository except where the text says so.
\<close>

unbundle bit_operations_syntax

named_theorems len_simps \<open>lengths of the byte strings the code builds\<close>
named_theorems out_simps \<open>unfolding of the outcome operators\<close>

type_synonym byte = "8 word"
type_synonym bytes = "byte list"

text \<open>A Go string constant, as the bytes it denotes.\<close>

definition ascii :: "string \<Rightarrow> bytes" where
  "ascii s = map of_char s"

lemma length_ascii [simp]: "length (ascii s) = length s"
  by (simp add: ascii_def)

lemma ascii_append: "ascii (s @ t) = ascii s @ ascii t"
  by (simp add: ascii_def)

section \<open>Failure\<close>

text \<open>
  A Go function that returns \<open>(T, error)\<close> yields a value or an error, and may panic.
  \<open>outcome\<close> is that result. A method that also updates its receiver yields
  \<open>go\<close>: its result (often \<open>err option\<close>, \<open>None\<close> for a nil error) with the
  new state, or a panic.
\<close>

datatype ('e, 'a) outcome = Ok 'a | Err 'e | Panicked

datatype ('r, 's) go = Ret 'r 's | Panic

primrec bind_out :: "('e, 'a) outcome \<Rightarrow> ('a \<Rightarrow> ('e, 'b) outcome) \<Rightarrow> ('e, 'b) outcome" where
  "bind_out (Ok a) f = f a"
| "bind_out (Err e) f = Err e"
| "bind_out Panicked f = Panicked"

primrec go_map :: "('s \<Rightarrow> 't) \<Rightarrow> ('r, 's) go \<Rightarrow> ('r, 't) go" where
  "go_map f (Ret r s) = Ret r (f s)"
| "go_map f Panic = Panic"

declare bind_out.simps [out_simps] go_map.simps [out_simps]

lemma bind_out_eq_Ok [simp]:
  "bind_out m f = Ok b \<longleftrightarrow> (\<exists>a. m = Ok a \<and> f a = Ok b)"
  by (cases m) auto

lemma bind_out_eq_Err: "bind_out m f = Err e \<longleftrightarrow> m = Err e \<or> (\<exists>a. m = Ok a \<and> f a = Err e)"
  by (cases m) auto

lemma bind_out_eq_Panicked:
  "bind_out m f = Panicked \<longleftrightarrow> m = Panicked \<or> (\<exists>a. m = Ok a \<and> f a = Panicked)"
  by (cases m) auto

lemma bind_out_cong [fundef_cong]:
  "m = m' \<Longrightarrow> (\<And>a. m' = Ok a \<Longrightarrow> f a = g a) \<Longrightarrow> bind_out m f = bind_out m' g"
  by (cases m') auto

lemma go_map_eq_Ret [simp]:
  "go_map f m = Ret r t \<longleftrightarrow> (\<exists>s. m = Ret r s \<and> t = f s)"
  by (cases m) auto

lemma go_map_eq_Panic [simp]: "go_map f m = Panic \<longleftrightarrow> m = Panic"
  by (cases m) auto

section \<open>Big-endian encodings\<close>

text \<open>\<open>binary.BigEndian.PutUint64\<close> and \<open>binary.BigEndian.Uint32\<close> of Go's library.\<close>

definition be64 :: "64 word \<Rightarrow> bytes" where
  "be64 w = map (\<lambda>k. ucast (drop_bit (8 * k) w)) [7, 6, 5, 4, 3, 2, 1, 0]"

definition uint32_be :: "byte \<Rightarrow> byte \<Rightarrow> byte \<Rightarrow> byte \<Rightarrow> 32 word" where
  "uint32_be b0 b1 b2 b3 =
     push_bit 24 (ucast b0) OR push_bit 16 (ucast b1) OR push_bit 8 (ucast b2) OR ucast b3"

lemma length_be64 [simp, len_simps]: "length (be64 w) = 8"
  by (simp add: be64_def)

lemma be64_inject [simp]: "be64 v = be64 w \<longleftrightarrow> v = w"
proof
  assume eq: "be64 v = be64 w"
  have k: "(ucast (drop_bit (8 * k) v) :: byte) = ucast (drop_bit (8 * k) w)" if "k < 8" for k :: nat
  proof -
    have "k \<in> {0, 1, 2, 3, 4, 5, 6, 7}" using that by auto
    then show ?thesis using eq by (auto simp: be64_def)
  qed
  show "v = w"
  proof (rule bit_word_eqI)
    fix n assume "n < LENGTH(64)"
    then have n: "n div 8 < 8" by simp
    have "bit (ucast (drop_bit (8 * (n div 8)) u) :: byte) (n mod 8) = bit u n" for u :: "64 word"
      by (simp add: bit_simps)
    then show "bit v n = bit w n" using k [OF n] by metis
  qed
qed simp

text \<open>
  The big-endian value of a byte string (\<open>big.Int.SetBytes\<close>) and the minimal big-endian
  byte string of a value (\<open>big.Int.Bytes\<close>, empty for zero).
\<close>

definition be_nat :: "bytes \<Rightarrow> nat" where
  "be_nat bs = foldl (\<lambda>acc b. acc * 256 + unat b) 0 bs"

fun nat_be :: "nat \<Rightarrow> bytes" where
  "nat_be n = (if n = 0 then [] else nat_be (n div 256) @ [word_of_nat (n mod 256)])"

declare nat_be.simps [simp del]

lemma be_nat_Nil [simp]: "be_nat [] = 0"
  by (simp add: be_nat_def)

lemma be_nat_snoc [simp]: "be_nat (bs @ [b]) = be_nat bs * 256 + unat b"
  by (simp add: be_nat_def)

lemma unat_byte_less [simp]: "unat (b :: byte) < 256"
  using unsigned_less [of b] by simp

lemma radix_less: "a < p \<Longrightarrow> r < b \<Longrightarrow> a * b + r < p * (b :: nat)"
proof -
  assume "a < p" "r < b"
  then have "a * b + r < Suc a * b" by simp
  also have "\<dots> \<le> p * b" using \<open>a < p\<close> by (intro mult_le_mono1) simp
  finally show ?thesis .
qed

lemma radix_inject:
  assumes "r < b" "s < (b :: nat)"
  shows "a * b + r = c * b + s \<longleftrightarrow> a = c \<and> r = s"
proof
  assume eq: "a * b + r = c * b + s"
  have "r = (a * b + r) mod b" "s = (c * b + s) mod b" using assms by simp_all
  with eq have "r = s" by simp
  with eq assms show "a = c \<and> r = s" by simp
qed simp

lemma be_nat_bound: "be_nat bs < 256 ^ length bs"
proof (induction bs rule: rev_induct)
  case (snoc b bs)
  then show ?case using radix_less [of "be_nat bs" "256 ^ length bs" "unat b" 256]
    by (simp add: mult.commute)
qed simp

lemma be_nat_append: "be_nat (as @ bs) = be_nat as * 256 ^ length bs + be_nat bs"
  by (induction bs rule: rev_induct) (simp_all add: algebra_simps flip: append_assoc)

lemma be_nat_replicate_0 [simp]: "be_nat (replicate k 0 @ bs) = be_nat bs"
proof -
  have "be_nat (replicate k 0) = 0"
  proof (induction k)
    case (Suc k)
    have "replicate (Suc k) (0 :: byte) = replicate k 0 @ [0]"
      by (simp add: replicate_append_same)
    then show ?case using Suc by (simp only: be_nat_snoc) simp
  qed simp
  then show ?thesis by (simp add: be_nat_append)
qed

lemma nat_be_0 [simp]: "nat_be 0 = []"
  by (subst nat_be.simps) simp

lemma nat_be_pos: "0 < n \<Longrightarrow> nat_be n = nat_be (n div 256) @ [word_of_nat (n mod 256)]"
  by (subst nat_be.simps) simp

lemma unat_byte_of_nat [simp]: "n < 256 \<Longrightarrow> unat (word_of_nat n :: byte) = n"
  by (simp add: unat_of_nat)

lemma be_nat_nat_be [simp]: "be_nat (nat_be n) = n"
proof (induction n rule: nat_be.induct)
  case (1 n)
  then show ?case by (cases "n = 0") (simp_all add: nat_be_pos)
qed

lemma length_nat_be_le: "n < 256 ^ k \<Longrightarrow> length (nat_be n) \<le> k"
proof (induction n arbitrary: k rule: nat_be.induct)
  case (1 n)
  show ?case
  proof (cases "n = 0")
    case False
    with "1.prems" obtain j where k: "k = Suc j" by (cases k) auto
    have "n div 256 < 256 ^ j"
      using "1.prems" by (simp add: k less_mult_imp_div_less mult.commute)
    with "1.IH" [OF False] False show ?thesis by (simp add: nat_be_pos k)
  qed simp
qed

lemma be_nat_inject:
  "length as = length bs \<Longrightarrow> be_nat as = be_nat bs \<longleftrightarrow> as = bs"
proof (induction as arbitrary: bs rule: rev_induct)
  case (snoc a as)
  then obtain b bs' where bs: "bs = bs' @ [b]" by (cases bs rule: rev_cases) auto
  have "be_nat as * 256 + unat a = be_nat bs' * 256 + unat b \<longleftrightarrow>
      be_nat as = be_nat bs' \<and> unat a = unat b"
    by (rule radix_inject) simp_all
  moreover have "be_nat as = be_nat bs' \<longleftrightarrow> as = bs'" using snoc by (simp add: bs)
  ultimately show ?case by (simp add: bs word_unat_eq_iff)
qed simp

text \<open>
  Zero-padding the minimal bytes of a value to a given width is the inverse of \<open>be_nat\<close> on
  byte strings of that width.
\<close>

lemma pad_nat_be:
  "replicate (length bs - length (nat_be (be_nat bs))) 0 @ nat_be (be_nat bs) = bs"
proof -
  have "length (nat_be (be_nat bs)) \<le> length bs" by (rule length_nat_be_le) (rule be_nat_bound)
  then show ?thesis by (subst be_nat_inject [symmetric]) simp_all
qed

section \<open>Cutting a byte string into blocks\<close>

text \<open>
  Every stream writer of the repository keeps a buffer and emits a block of \<open>B\<close> bytes while
  the buffer holds more than \<open>B\<close>; so the last \<open>1..B\<close> bytes always stay behind.
  \<open>full_blocks B xs\<close> are the blocks such a loop emits and \<open>last_block B xs\<close> what stays.
\<close>

function full_blocks :: "nat \<Rightarrow> 'a list \<Rightarrow> 'a list list" where
  "full_blocks B xs =
     (if 0 < B \<and> B < length xs then take B xs # full_blocks B (drop B xs) else [])"
  by pat_completeness auto
termination by (relation "measure (\<lambda>(B, xs). length xs)") auto

function last_block :: "nat \<Rightarrow> 'a list \<Rightarrow> 'a list" where
  "last_block B xs = (if 0 < B \<and> B < length xs then last_block B (drop B xs) else xs)"
  by pat_completeness auto
termination by (relation "measure (\<lambda>(B, xs). length xs)") auto

declare full_blocks.simps [simp del] last_block.simps [simp del]

lemma full_blocks_short [simp]: "length xs \<le> B \<Longrightarrow> full_blocks B xs = []"
  by (subst full_blocks.simps) auto

lemma full_blocks_long:
  "0 < B \<Longrightarrow> B < length xs \<Longrightarrow> full_blocks B xs = take B xs # full_blocks B (drop B xs)"
  by (subst full_blocks.simps) auto

lemma last_block_short [simp]: "length xs \<le> B \<Longrightarrow> last_block B xs = xs"
  by (subst last_block.simps) auto

lemma last_block_long: "0 < B \<Longrightarrow> B < length xs \<Longrightarrow> last_block B xs = last_block B (drop B xs)"
  by (subst last_block.simps) auto

lemma concat_full_blocks: "concat (full_blocks B xs) @ last_block B xs = xs"
proof (induction B xs rule: full_blocks.induct)
  case (1 B xs)
  then show ?case
    by (cases "0 < B \<and> B < length xs")
      (auto simp: full_blocks_long last_block_long full_blocks.simps [of B xs] last_block.simps [of B xs])
qed

lemma length_last_block: "0 < B \<Longrightarrow> length (last_block B xs) \<le> B"
proof (induction B xs rule: last_block.induct)
  case (1 B xs)
  then show ?case by (cases "B < length xs") (simp_all add: last_block_long)
qed

lemma last_block_nonempty: "xs \<noteq> [] \<Longrightarrow> last_block B xs \<noteq> []"
proof (induction B xs rule: last_block.induct)
  case (1 B xs)
  then show ?case by (subst last_block.simps) auto
qed

lemma full_blocks_length: "xs \<in> set (full_blocks B ys) \<Longrightarrow> length xs = B"
proof (induction B ys rule: full_blocks.induct)
  case (1 B ys)
  then show ?case by (cases "0 < B \<and> B < length ys") (auto simp: full_blocks.simps [of B ys])
qed

text \<open>
  The cut an encoder makes that does not keep a block back: blocks of \<open>B\<close> bytes, the last one
  shorter when the length is no multiple of \<open>B\<close>.
\<close>

function chunks :: "nat \<Rightarrow> 'a list \<Rightarrow> 'a list list" where
  "chunks B xs = (if 0 < B \<and> xs \<noteq> [] then take B xs # chunks B (drop B xs) else [])"
  by pat_completeness auto
termination by (relation "measure (\<lambda>(B, xs). length xs)") auto

declare chunks.simps [simp del]

lemma chunks_Nil [simp]: "chunks B [] = []"
  by (subst chunks.simps) simp

lemma chunks_step: "0 < B \<Longrightarrow> xs \<noteq> [] \<Longrightarrow> chunks B xs = take B xs # chunks B (drop B xs)"
  by (subst chunks.simps) simp

lemma chunks_short: "0 < B \<Longrightarrow> xs \<noteq> [] \<Longrightarrow> length xs \<le> B \<Longrightarrow> chunks B xs = [xs]"
  by (simp add: chunks_step)

lemma chunks_append:
  "0 < B \<Longrightarrow> length xs mod B = 0 \<Longrightarrow> chunks B (xs @ ys) = chunks B xs @ chunks B ys"
proof (induction B xs rule: chunks.induct)
  case (1 B xs)
  show ?case
  proof (cases "xs = []")
    case False
    then have "B \<le> length xs" using "1.prems" by (metis dvd_imp_le length_greater_0_conv mod_0_imp_dvd)
    moreover from this have "(length xs - B) mod B = 0" using "1.prems" by (simp add: le_mod_geq)
    ultimately show ?thesis using 1 False by (simp add: chunks_step)
  qed simp
qed

lemma concat_chunks: "0 < B \<Longrightarrow> concat (chunks B xs) = xs"
proof (induction B xs rule: chunks.induct)
  case (1 B xs)
  then show ?case by (cases "xs = []") (simp_all add: chunks_step)
qed

lemma chunks_length: "c \<in> set (chunks B xs) \<Longrightarrow> 0 < length c \<and> length c \<le> B"
proof (induction B xs rule: chunks.induct)
  case (1 B xs)
  then show ?case by (cases "0 < B \<and> xs \<noteq> []") (auto simp: chunks.simps [of B xs])
qed

end
