(* ===== verification/Types.thy ===== *)
theory Types
  imports Prelude
begin

text \<open>
  The data every component shares: versions and message types (\<open>const.go\<close>,
  \<open>packets.go\<close>), the errors (\<open>errors.go\<close>, with the ones of Go's library and of
  \<open>basex\<close> that the code returns), the packets of the wire format (\<open>packets.go\<close>) and the
  fixed-width arrays the code makes from slices (\<open>common.go\<close>, \<open>key.go\<close>). Go's \<open>int\<close>
  fields of decoded headers are only compared, so they are \<open>int\<close>; the counters that wrap
  (\<open>packetSeqno\<close>, \<open>encryptionBlockNumber\<close>) are 64-bit words.
\<close>

section \<open>Versions and message types\<close>

record version =
  Major :: int
  Minor :: int

definition Version1 :: version where "Version1 = \<lparr>Major = 1, Minor = 0\<rparr>"
definition Version2 :: version where "Version2 = \<lparr>Major = 2, Minor = 0\<rparr>"
definition CurrentVersion :: version where "CurrentVersion = Version2"
definition KnownVersions :: "version list" where "KnownVersions = [Version1, Version2]"

lemma Version1_sel [simp]: "Major Version1 = 1" "Minor Version1 = 0"
  by (simp_all add: Version1_def)

lemma Version2_sel [simp]: "Major Version2 = 2" "Minor Version2 = 0"
  by (simp_all add: Version2_def)

lemma Version1_neq_Version2 [simp]: "Version1 \<noteq> Version2" "Version2 \<noteq> Version1"
  by (simp_all add: Version1_def Version2_def)

type_synonym MessageType = int

definition MessageTypeUnknown :: MessageType where "MessageTypeUnknown = - 1"
definition MessageTypeEncryption :: MessageType where "MessageTypeEncryption = 0"
definition MessageTypeAttachedSignature :: MessageType where "MessageTypeAttachedSignature = 1"
definition MessageTypeDetachedSignature :: MessageType where "MessageTypeDetachedSignature = 2"
definition MessageTypeSigncryption :: MessageType where "MessageTypeSigncryption = 3"

lemmas message_type_defs = MessageTypeUnknown_def MessageTypeEncryption_def
  MessageTypeAttachedSignature_def MessageTypeDetachedSignature_def MessageTypeSigncryption_def

type_synonym packetSeqno = "64 word"
type_synonym encryptionBlockNumber = "64 word"

text \<open>The size of a block and the strings that separate the domains of signatures.\<close>

definition encryptionBlockSize :: nat where "encryptionBlockSize = 1048576"
definition signatureBlockSize :: nat where "signatureBlockSize = 1048576"

definition FormatName :: bytes where "FormatName = ascii ''saltpack''"
definition EncryptionArmorString :: bytes where
  "EncryptionArmorString = ascii ''ENCRYPTED MESSAGE''"
definition SignedArmorString :: bytes where
  "SignedArmorString = ascii ''SIGNED MESSAGE''"
definition DetachedSignatureArmorString :: bytes where
  "DetachedSignatureArmorString = ascii ''DETACHED SIGNATURE''"

definition signatureAttachedString :: bytes where
  "signatureAttachedString = ascii ''saltpack attached signature'' @ [0]"
definition signatureDetachedString :: bytes where
  "signatureDetachedString = ascii ''saltpack detached signature'' @ [0]"
definition signatureEncryptedString :: bytes where
  "signatureEncryptedString = ascii ''saltpack encrypted signature'' @ [0]"
definition signcryptionSymmetricKeyContext :: bytes where
  "signcryptionSymmetricKeyContext = ascii ''saltpack signcryption derived symmetric key''"
definition signcryptionBoxKeyIdentifierContext :: bytes where
  "signcryptionBoxKeyIdentifierContext = ascii ''saltpack signcryption box key identifier''"

lemma block_sizes_pos [simp]: "0 < encryptionBlockSize" "0 < signatureBlockSize"
  by (simp_all add: encryptionBlockSize_def signatureBlockSize_def)

section \<open>Errors\<close>

text \<open>
  What \<open>ErrBadFrame\<close> says, by the place that builds it (the messages of \<open>frame.go\<close>,
  \<open>armor.go\<close> and \<open>armor62.go\<close>).
\<close>

datatype frame_problem =
    FrameTooLong
  | FrameTypeNotFound MessageType
  | FrameWrongWordCount nat
  | FrameBadPrefix bytes bytes
  | FrameWanted bytes bytes
  | FrameBadFormatName bytes
  | FrameBrandTooLong
  | FrameBrandMismatch bytes bytes
  | FrameInvalidASCII

text \<open>
  \<open>EOF\<close> and \<open>ErrUnexpectedEOF\<close> are the errors of Go's \<open>io\<close>; \<open>ErrForeign\<close> stands for an
  error that code outside the repository returns (a key, a keyring, the codec, a writer).
\<close>

datatype err =
    EOF | ErrUnexpectedEOF
  | ErrNoDecryptionKey | ErrTrailingGarbage | ErrFailedToReadHeaderBytes
  | ErrPacketOverflow | ErrInsufficientRandomness | ErrBadEphemeralKey | ErrBadReceivers
  | ErrBadSenderKeySecretbox | ErrBadSymmetricKey | ErrBadBoxKey | ErrBadLookup
  | ErrBadSignature | ErrDecryptionFailed | ErrWrongNumberOfKeys | ErrUnexpectedEmptyBlock
  | ErrShortSliceOrBuffer | ErrNotASaltpackMessage
  | ErrPunctuated | ErrOverflow
  | ErrNoSenderKey bytes
  | ErrBadTag packetSeqno
  | ErrBadCiphertext packetSeqno
  | ErrRepeatedKey bytes
  | ErrWrongMessageType MessageType MessageType
  | ErrBadVersion version
  | ErrBadFrame frame_problem
  | ErrInvalidParameter
  | CorruptInputError nat
  | ErrInvalidEncodingLength
  | ErrForeign nat

type_synonym 'a result = "(err, 'a) outcome"

text \<open>
  An \<open>io.Reader\<close> as far as its reader can tell: the bytes it still delivers and the error
  it returns afterwards. \<open>readFull\<close> is \<open>io.ReadFull\<close> of Go's library for a slice of
  \<open>n\<close> bytes: what was read, the error and the reader afterwards.
\<close>

record input =
  pending :: bytes
  ends :: err

definition bytes_input :: "bytes \<Rightarrow> input" where
  "bytes_input bs = \<lparr>pending = bs, ends = EOF\<rparr>"

definition readFull :: "nat \<Rightarrow> input \<Rightarrow> bytes \<times> err option \<times> input" where
  "readFull n r =
     (if n \<le> length (pending r)
      then (take n (pending r), None, r\<lparr>pending := drop n (pending r)\<rparr>)
      else (pending r,
            Some (if pending r \<noteq> [] \<and> ends r = EOF then ErrUnexpectedEOF else ends r),
            r\<lparr>pending := []\<rparr>))"

lemma readFull_enough:
  "n \<le> length (pending r) \<Longrightarrow>
     readFull n r = (take n (pending r), None, r\<lparr>pending := drop n (pending r)\<rparr>)"
  by (simp add: readFull_def)

section \<open>Packets\<close>

record receiverKeys =
  ReceiverKID :: bytes
  PayloadKeyBox :: bytes

text \<open>\<open>SigncryptionHeader\<close> is declared in the source as \<open>EncryptionHeader\<close>.\<close>

record EncryptionHeader =
  HFormatName :: bytes
  HVersion :: version
  HType :: MessageType
  Ephemeral :: bytes
  SenderSecretbox :: bytes
  Receivers :: "receiverKeys list"

type_synonym SigncryptionHeader = EncryptionHeader

record encryptionBlockV1 =
  HashAuthenticators :: "bytes list"
  PayloadCiphertext :: bytes

record encryptionBlockV2 = encryptionBlockV1 +
  EIsFinal :: bool

record signcryptionBlock =
  SCPayloadCiphertext :: bytes
  SCIsFinal :: bool

record SignatureHeader =
  SFormatName :: bytes
  SVersion :: version
  SType :: MessageType
  SenderPublic :: bytes
  SNonce :: bytes

record signatureBlockV1 =
  Signature :: bytes
  PayloadChunk :: bytes

record signatureBlockV2 = signatureBlockV1 +
  SIsFinal :: bool

text \<open>
  The values the code passes to the message-pack encoder. \<open>PBytes\<close> is a plain byte slice:
  the doubly encoded header of every message, and a detached signature.
\<close>

datatype packet =
    PBytes bytes
  | PEncryptionHeader EncryptionHeader
  | PSignatureHeader SignatureHeader
  | PEncryptionV1 encryptionBlockV1
  | PEncryptionV2 encryptionBlockV2
  | PSigncryption signcryptionBlock
  | PSignatureV1 signatureBlockV1
  | PSignatureV2 signatureBlockV2

section \<open>Version checks\<close>

text \<open>
  \<open>CheckKnownMajorVersion\<close> and \<open>SingleVersionValidator\<close> of \<open>common.go\<close>,
  \<open>checkKnownVersion\<close> of \<open>encrypt.go\<close>. A validator returns the error, \<open>None\<close> for nil.
\<close>

type_synonym VersionValidator = "version \<Rightarrow> err option"

definition CheckKnownMajorVersion :: VersionValidator where
  "CheckKnownMajorVersion v =
     (if list_ex (\<lambda>k. Major v = Major k) KnownVersions then None else Some (ErrBadVersion v))"

definition SingleVersionValidator :: "version \<Rightarrow> VersionValidator" where
  "SingleVersionValidator desired v = (if v = desired then None else Some (ErrBadVersion v))"

definition checkKnownVersion :: "version \<Rightarrow> err option" where
  "checkKnownVersion v =
     (if List.member KnownVersions v then None else Some (ErrBadVersion v))"

lemma CheckKnownMajorVersion_None:
  "CheckKnownMajorVersion v = None \<longleftrightarrow> Major v = 1 \<or> Major v = 2"
  by (auto simp: CheckKnownMajorVersion_def KnownVersions_def)

lemma checkKnownVersion_None:
  "checkKnownVersion v = None \<longleftrightarrow> v = Version1 \<or> v = Version2"
  by (auto simp: checkKnownVersion_def KnownVersions_def)

lemma checkKnownVersion_Major: "checkKnownVersion v = None \<Longrightarrow> CheckKnownMajorVersion v = None"
  by (auto simp: checkKnownVersion_None CheckKnownMajorVersion_None)

section \<open>Header validation\<close>

definition EncryptionHeader_validate :: "VersionValidator \<Rightarrow> EncryptionHeader \<Rightarrow> err option" where
  "EncryptionHeader_validate validator h =
     (if HType h \<noteq> MessageTypeEncryption
      then Some (ErrWrongMessageType MessageTypeEncryption (HType h))
      else validator (HVersion h))"

definition SigncryptionHeader_validate :: "SigncryptionHeader \<Rightarrow> err option" where
  "SigncryptionHeader_validate h =
     (if HType h \<noteq> MessageTypeSigncryption
      then Some (ErrWrongMessageType MessageTypeSigncryption (HType h))
      else if Major (HVersion h) \<noteq> Major Version2 then Some (ErrBadVersion (HVersion h))
      else None)"

definition SignatureHeader_validate ::
  "VersionValidator \<Rightarrow> MessageType \<Rightarrow> SignatureHeader \<Rightarrow> err option" where
  "SignatureHeader_validate validator msgType h =
     (case validator (SVersion h) of
        Some e \<Rightarrow> Some e
      | None \<Rightarrow>
          if SType h \<noteq> msgType then Some (ErrWrongMessageType msgType (SType h))
          else if msgType \<noteq> MessageTypeAttachedSignature \<and> msgType \<noteq> MessageTypeDetachedSignature
          then Some ErrInvalidParameter
          else None)"

section \<open>Slices and arrays\<close>

text \<open>
  \<open>copyEqualSize\<close> panics when the lengths differ; the \<open>sliceToByteN\<close> functions are its uses
  with an array of \<open>N\<close> bytes as the target.
\<close>

definition sliceToByte :: "nat \<Rightarrow> bytes \<Rightarrow> bytes result" where
  "sliceToByte n bs = (if length bs = n then Ok bs else Panicked)"

definition rawBoxKeyFromSlice :: "bytes \<Rightarrow> bytes result" where
  "rawBoxKeyFromSlice bs =
     (if length bs \<noteq> 32 then Err ErrBadBoxKey else sliceToByte 32 bs)"

definition symmetricKeyFromSlice :: "bytes \<Rightarrow> bytes result" where
  "symmetricKeyFromSlice bs =
     (if length bs \<noteq> 32 then Err ErrBadSymmetricKey else sliceToByte 32 bs)"

lemma symmetricKeyFromSlice_Ok [simp]:
  "symmetricKeyFromSlice s = Ok k \<longleftrightarrow> length s = 32 \<and> k = s"
  by (auto simp: symmetricKeyFromSlice_def sliceToByte_def)

lemma rawBoxKeyFromSlice_Ok [simp]:
  "rawBoxKeyFromSlice s = Ok k \<longleftrightarrow> length s = 32 \<and> k = s"
  by (auto simp: rawBoxKeyFromSlice_def sliceToByte_def)

lemma key_from_slice_no_panic [simp]:
  "symmetricKeyFromSlice s \<noteq> Panicked" "rawBoxKeyFromSlice s \<noteq> Panicked"
  by (simp_all add: symmetricKeyFromSlice_def rawBoxKeyFromSlice_def sliceToByte_def)

end
