(* ===== verification/Nonce.thy ===== *)
theory Nonce
  imports Types
begin

text \<open>
  \<open>nonce.go\<close>: the 24-byte nonces of every box the code seals. A nonce is a fixed
  string, or 16 bytes of a fixed string or of the header hash followed by a 64-bit counter in
  big-endian order. The lemmas show the widths, that no step can panic on a 64-byte header
  hash, that different blocks of one message never share a nonce, and for which header hashes
  boxes of different kinds under one key do.
\<close>

unbundle bit_operations_syntax

definition nonceBytes :: nat where "nonceBytes = 24"

definition nonceForSenderKeySecretBox :: "bytes result" where
  "nonceForSenderKeySecretBox = sliceToByte 24 (ascii ''saltpack_sender_key_sbox'')"

definition nonceForPayloadKeyBoxV2 :: "64 word \<Rightarrow> bytes" where
  "nonceForPayloadKeyBoxV2 recip = ascii ''saltpack_recipsb'' @ be64 recip"

definition nonceForPayloadKeyBox :: "version \<Rightarrow> 64 word \<Rightarrow> bytes result" where
  "nonceForPayloadKeyBox v recip =
     (if Major v = 1 then sliceToByte 24 (ascii ''saltpack_payload_key_box'')
      else if Major v = 2 then Ok (nonceForPayloadKeyBoxV2 recip)
      else Panicked)"

definition nonceForDerivedSharedKey :: "bytes result" where
  "nonceForDerivedSharedKey = sliceToByte 24 (ascii ''saltpack_derived_sboxkey'')"

definition nonceForMACKeyBoxV1 :: "bytes \<Rightarrow> bytes result" where
  "nonceForMACKeyBoxV1 headerHash =
     (if nonceBytes \<le> length headerHash then sliceToByte 24 (take nonceBytes headerHash)
      else Panicked)"

text \<open>
  The first 16 bytes of the header hash, the lowest bit of the last one overwritten by a
  flag: \<open>n[off-1] &^= 1\<close> and then \<open>n[off-1] |= 1\<close> when the flag is set.
\<close>

definition flagged_prefix :: "bytes \<Rightarrow> bool \<Rightarrow> bytes" where
  "flagged_prefix headerHash flag =
     (let n = take 16 headerHash;
          n' = n[15 := (n ! 15) AND NOT 1]
      in if flag then n'[15 := (n' ! 15) OR 1] else n')"

definition nonceForMACKeyBoxV2 :: "bytes \<Rightarrow> bool \<Rightarrow> 64 word \<Rightarrow> bytes result" where
  "nonceForMACKeyBoxV2 headerHash ephemeral recip =
     (if 16 \<le> length headerHash then Ok (flagged_prefix headerHash ephemeral @ be64 recip)
      else Panicked)"

definition nonceForChunkSecretBox :: "encryptionBlockNumber \<Rightarrow> bytes" where
  "nonceForChunkSecretBox i = ascii ''saltpack_ploadsb'' @ be64 i"

definition nonceForChunkSigncryption :: "bytes \<Rightarrow> bool \<Rightarrow> encryptionBlockNumber \<Rightarrow> bytes result" where
  "nonceForChunkSigncryption headerHash isFinal i =
     (if 16 \<le> length headerHash then Ok (flagged_prefix headerHash isFinal @ be64 i)
      else Panicked)"

section \<open>Widths\<close>

lemma length_flagged_prefix [simp]:
  "16 \<le> length h \<Longrightarrow> length (flagged_prefix h b) = 16"
  by (simp add: flagged_prefix_def Let_def)

lemma length_nonce_counter [simp, len_simps]:
  "length (nonceForPayloadKeyBoxV2 r) = 24" "length (nonceForChunkSecretBox i) = 24"
  by (simp_all add: nonceForPayloadKeyBoxV2_def nonceForChunkSecretBox_def)

lemma nonceForSenderKeySecretBox_Ok:
  "nonceForSenderKeySecretBox = Ok (ascii ''saltpack_sender_key_sbox'')"
  by (simp add: nonceForSenderKeySecretBox_def sliceToByte_def)

lemma nonceForDerivedSharedKey_Ok:
  "nonceForDerivedSharedKey = Ok (ascii ''saltpack_derived_sboxkey'')"
  by (simp add: nonceForDerivedSharedKey_def sliceToByte_def)

lemma nonceForPayloadKeyBox_V1:
  "Major v = 1 \<Longrightarrow> nonceForPayloadKeyBox v r = Ok (ascii ''saltpack_payload_key_box'')"
  by (simp add: nonceForPayloadKeyBox_def sliceToByte_def)

lemma nonceForPayloadKeyBox_V2:
  "Major v = 2 \<Longrightarrow> nonceForPayloadKeyBox v r = Ok (nonceForPayloadKeyBoxV2 r)"
  by (simp add: nonceForPayloadKeyBox_def)

lemma nonceForPayloadKeyBox_known:
  "Major v = 1 \<or> Major v = 2 \<Longrightarrow> \<exists>n. nonceForPayloadKeyBox v r = Ok n \<and> length n = 24"
  by (auto simp: nonceForPayloadKeyBox_V1 nonceForPayloadKeyBox_V2)

lemma nonceForMACKeyBoxV1_Ok:
  "24 \<le> length h \<Longrightarrow> nonceForMACKeyBoxV1 h = Ok (take 24 h)"
  by (simp add: nonceForMACKeyBoxV1_def nonceBytes_def sliceToByte_def)

section \<open>Freshness\<close>

lemma bit0_flag:
  "\<not> bit ((b :: byte) AND - 2) 0" "bit ((b AND - 2) OR 1) 0"
  by (simp_all add: bit_0 even_and_iff even_or_iff)

lemma flagged_prefix_15: "16 \<le> length h \<Longrightarrow> bit (flagged_prefix h b ! 15) 0 = b"
  by (auto simp: flagged_prefix_def Let_def bit0_flag)

lemma flagged_prefix_flag:
  "16 \<le> length h \<Longrightarrow> 16 \<le> length h' \<Longrightarrow> flagged_prefix h a = flagged_prefix h' b \<Longrightarrow> a = b"
  using flagged_prefix_15 by metis

lemma flagged_prefix_nth:
  "16 \<le> length h \<Longrightarrow> i < 15 \<Longrightarrow> flagged_prefix h b ! i = h ! i"
  by (auto simp: flagged_prefix_def Let_def)

lemma nonceForChunkSigncryption_inject:
  assumes "16 \<le> length h"
  shows "nonceForChunkSigncryption h a i = nonceForChunkSigncryption h b j \<longleftrightarrow> a = b \<and> i = j"
  using assms flagged_prefix_flag [OF assms assms]
  by (auto simp: nonceForChunkSigncryption_def)

lemma nonceForChunkSecretBox_inject [simp]:
  "nonceForChunkSecretBox i = nonceForChunkSecretBox j \<longleftrightarrow> i = j"
  by (simp add: nonceForChunkSecretBox_def)

lemma nonceForPayloadKeyBoxV2_inject [simp]:
  "nonceForPayloadKeyBoxV2 i = nonceForPayloadKeyBoxV2 j \<longleftrightarrow> i = j"
  by (simp add: nonceForPayloadKeyBoxV2_def)

text \<open>The counter a nonce ends with, read off a fixed string.\<close>

lemma be64_key_sbox: "be64 0x6b65795f73626f78 = ascii ''key_sbox''"
  by code_simp

lemma append_eq_split:
  "length x = n \<Longrightarrow> x @ y = z \<longleftrightarrow> x = take n z \<and> y = drop n z"
  by (auto simp: append_eq_conv_conj)

lemma sender_box_signcryption:
  assumes "16 \<le> length hh"
  shows "nonceForSenderKeySecretBox = nonceForChunkSigncryption hh a i \<longleftrightarrow>
    a \<and> flagged_prefix hh True = ascii ''saltpack_sender_'' \<and> i = 0x6b65795f73626f78"
proof -
  have a: a if "flagged_prefix hh a = ascii ''saltpack_sender_''"
    using flagged_prefix_15 [OF assms, of a] unfolding that by (simp add: ascii_def bit_0)
  have "nonceForSenderKeySecretBox = nonceForChunkSigncryption hh a i \<longleftrightarrow>
      flagged_prefix hh a @ be64 i = ascii ''saltpack_sender_key_sbox''"
    using assms by (auto simp: nonceForSenderKeySecretBox_Ok nonceForChunkSigncryption_def)
  also have "\<dots> \<longleftrightarrow> flagged_prefix hh a = ascii ''saltpack_sender_'' \<and> be64 i = ascii ''key_sbox''"
    by (subst append_eq_split [OF length_flagged_prefix [OF assms]]) (simp add: ascii_def)
  also have "\<dots> \<longleftrightarrow> flagged_prefix hh a = ascii ''saltpack_sender_'' \<and> i = 0x6b65795f73626f78"
    unfolding be64_key_sbox [symmetric] be64_inject ..
  finally show ?thesis using a by auto
qed

lemma payload_box_MAC_V2:
  assumes "16 \<le> length hh"
  shows "Ok (nonceForPayloadKeyBoxV2 i) = nonceForMACKeyBoxV2 hh a j \<longleftrightarrow>
    \<not> a \<and> flagged_prefix hh False = ascii ''saltpack_recipsb'' \<and> i = j"
proof -
  have a: "\<not> a" if "flagged_prefix hh a = ascii ''saltpack_recipsb''"
    using flagged_prefix_15 [OF assms, of a] unfolding that by (simp add: ascii_def bit_0)
  have "Ok (nonceForPayloadKeyBoxV2 i) = nonceForMACKeyBoxV2 hh a j \<longleftrightarrow>
      flagged_prefix hh a @ be64 j = ascii ''saltpack_recipsb'' @ be64 i"
    using assms by (auto simp: nonceForPayloadKeyBoxV2_def nonceForMACKeyBoxV2_def)
  also have "\<dots> \<longleftrightarrow> flagged_prefix hh a = ascii ''saltpack_recipsb'' \<and> j = i"
    using assms by simp
  finally show ?thesis using a by auto
qed

lemma nonceForMACKeyBoxV2_messages:
  assumes "16 \<le> length hh" "16 \<le> length hh'"
  shows "nonceForMACKeyBoxV2 hh a i = nonceForMACKeyBoxV2 hh' b j \<longleftrightarrow>
    a = b \<and> i = j \<and> flagged_prefix hh a = flagged_prefix hh' a"
  using assms flagged_prefix_flag [OF assms] by (auto simp: nonceForMACKeyBoxV2_def)

text \<open>
  C10: which boxes under one key share a nonce. Under the payload key of an encrypted message the
  sender box and the blocks never do. Under the payload key of a signcrypted message two blocks
  never do, and the sender box shares the nonce of a block only if this is the final block, the
  header hash begins with 127 given bits and the block's number is one given number above \<open>2^62\<close>.
  Under the key of a sender and a receiver, in version 2, payload key boxes of different indices
  never do; boxes for MAC keys do, in one message or in two, only with the same index and kind of
  key and, but for one bit, the same first 16 bytes of the header hash; and a payload key box
  shares the nonce of a MAC key box only with the same index, of the kind that is not ephemeral,
  and if the header hash begins with 127 given bits. The payload key boxes of signcryption, under the
  keys derived for the receivers, have the same nonces; the key of its ephemeral key and a
  receiver seals nothing but the one box of zeros these are derived from. In version 1 every receiver's boxes have the same two
  nonces, which are different unless the header hash begins with a given string.
\<close>

theorem nonces_fresh:
  assumes "24 \<le> length hh" "24 \<le> length hh'"
  shows "(nonceForChunkSecretBox i = nonceForChunkSecretBox j \<longleftrightarrow> i = j) \<and>
    nonceForSenderKeySecretBox \<noteq> Ok (nonceForChunkSecretBox i) \<and>
    (nonceForChunkSigncryption hh a i = nonceForChunkSigncryption hh b j \<longleftrightarrow> a = b \<and> i = j) \<and>
    (nonceForSenderKeySecretBox = nonceForChunkSigncryption hh a i \<longleftrightarrow>
       a \<and> flagged_prefix hh True = ascii ''saltpack_sender_'' \<and> i = 0x6b65795f73626f78) \<and>
    (nonceForPayloadKeyBoxV2 i = nonceForPayloadKeyBoxV2 j \<longleftrightarrow> i = j) \<and>
    (nonceForMACKeyBoxV2 hh a i = nonceForMACKeyBoxV2 hh' b j \<longleftrightarrow>
       a = b \<and> i = j \<and> flagged_prefix hh a = flagged_prefix hh' a) \<and>
    (nonceForPayloadKeyBox Version2 i = nonceForMACKeyBoxV2 hh a j \<longleftrightarrow>
       \<not> a \<and> flagged_prefix hh False = ascii ''saltpack_recipsb'' \<and> i = j) \<and>
    (nonceForPayloadKeyBox Version1 i = nonceForMACKeyBoxV1 hh \<longleftrightarrow>
       take 24 hh = ascii ''saltpack_payload_key_box'') \<and>
    (nonceForMACKeyBoxV1 hh = nonceForMACKeyBoxV1 hh' \<longleftrightarrow> take 24 hh = take 24 hh')"
proof -
  have hh: "16 \<le> length hh" "16 \<le> length hh'" using assms by simp_all
  have "take 16 (ascii ''saltpack_sender_key_sbox'') \<noteq> take 16 (nonceForChunkSecretBox i)"
    by (simp add: nonceForChunkSecretBox_def ascii_def)
  then have sender: "nonceForSenderKeySecretBox \<noteq> Ok (nonceForChunkSecretBox i)"
    by (auto simp: nonceForSenderKeySecretBox_Ok)
  have V2: "nonceForPayloadKeyBox Version2 i = Ok (nonceForPayloadKeyBoxV2 i)"
    by (simp add: nonceForPayloadKeyBox_V2)
  have V1: "nonceForPayloadKeyBox Version1 i = Ok (ascii ''saltpack_payload_key_box'')"
    by (simp add: nonceForPayloadKeyBox_V1)
  show ?thesis
    unfolding V1 V2 payload_box_MAC_V2 [OF hh(1)] sender_box_signcryption [OF hh(1)]
      nonceForMACKeyBoxV2_messages [OF hh] nonceForChunkSigncryption_inject [OF hh(1)]
    using sender by (auto simp: nonceForMACKeyBoxV1_Ok [OF assms(1)] nonceForMACKeyBoxV1_Ok [OF assms(2)])
qed

theorem nonces_fresh_witness:
  "nonceForChunkSigncryption (replicate 64 255) True 0 \<noteq> nonceForChunkSigncryption (replicate 64 255) False 0 \<and>
   nonceForSenderKeySecretBox \<noteq> nonceForChunkSigncryption (replicate 64 255) True 0"
  using nonces_fresh [of "replicate 64 255" "replicate 64 255" 0 0 True False] by simp

end
