(* ===== verification/Rand.thy ===== *)
theory Rand
  imports Types "HOL-Library.Multiset"
begin

text \<open>
  \<open>rand.go\<close>: uniform random numbers below a bound by Lemire's method, and the
  Fisher-Yates shuffle built on them. The CSPRNG is an \<open>input\<close>: a tape of bytes that may
  end with an error, so the rejection loop consumes four bytes of the tape per round and
  terminates. The lemmas show that every result is below the bound, that the accepted
  words are spread evenly over the results, that rejected words are simply skipped, and that
  the shuffle permutes its list and can produce every permutation of it.
\<close>

definition csprngReadFull :: "input \<Rightarrow> nat \<Rightarrow> (err + bytes) \<times> input" where
  "csprngReadFull csprng n =
     (case readFull n csprng of (b, e, csprng') \<Rightarrow>
        (case e of
           Some err \<Rightarrow> (Inl err, csprng')
         | None \<Rightarrow>
             if length b \<noteq> n then (Inl ErrInsufficientRandomness, csprng') else (Inr b, csprng')))"

definition csprngUint32 :: "input \<Rightarrow> (err + 32 word) \<times> input" where
  "csprngUint32 csprng =
     (case csprngReadFull csprng 4 of
        (Inl e, csprng') \<Rightarrow> (Inl e, csprng')
      | (Inr b, csprng') \<Rightarrow> (Inr (uint32_be (b ! 0) (b ! 1) (b ! 2) (b ! 3)), csprng'))"

lemma csprngReadFull_enough:
  "n \<le> length (pending r) \<Longrightarrow>
     csprngReadFull r n = (Inr (take n (pending r)), r\<lparr>pending := drop n (pending r)\<rparr>)"
  by (simp add: csprngReadFull_def readFull_enough)

lemma csprngReadFull_short:
  "\<not> n \<le> length (pending r) \<Longrightarrow> \<exists>e. csprngReadFull r n = (Inl e, r\<lparr>pending := []\<rparr>)"
  by (auto simp: csprngReadFull_def readFull_def)

lemma csprngUint32_Inr_shrinks:
  assumes "csprngUint32 r = (Inr v, r')"
  shows "length (pending r') < length (pending r)"
proof (cases "4 \<le> length (pending r)")
  case True
  with assms show ?thesis by (auto simp: csprngUint32_def csprngReadFull_enough)
next
  case False
  with assms csprngReadFull_short [OF False] show ?thesis by (auto simp: csprngUint32_def)
qed

text \<open>The high and the low half of the 64-bit product of a random word and the bound.\<close>

definition prod64 :: "32 word \<Rightarrow> 32 word \<Rightarrow> 64 word" where
  "prod64 v n = ucast v * ucast n"

definition low32 :: "64 word \<Rightarrow> 32 word" where "low32 p = ucast p"
definition high32 :: "64 word \<Rightarrow> 32 word" where "high32 p = ucast (drop_bit 32 p)"

text \<open>The inner loop of \<open>csprngUint32n\<close>: draw again while the low half is below the threshold.\<close>

function csprngUint32n_loop ::
  "32 word \<Rightarrow> 32 word \<Rightarrow> 64 word \<Rightarrow> input \<Rightarrow> (err + 32 word) \<times> input" where
  "csprngUint32n_loop thresh n p csprng =
     (if low32 p < thresh
      then (case csprngUint32 csprng of
              (Inl e, csprng') \<Rightarrow> (Inl e, csprng')
            | (Inr v, csprng') \<Rightarrow> csprngUint32n_loop thresh n (prod64 v n) csprng')
      else (Inr (high32 p), csprng))"
  by pat_completeness auto
termination
  by (relation "measure (\<lambda>(thresh, n, p, csprng). length (pending csprng))")
    (auto dest!: sym [of "(_, _)" "csprngUint32 _"] csprngUint32_Inr_shrinks)

declare csprngUint32n_loop.simps [simp del]

definition csprngUint32n :: "input \<Rightarrow> 32 word \<Rightarrow> (err + 32 word) \<times> input" where
  "csprngUint32n csprng n =
     (case csprngUint32 csprng of
        (Inl e, csprng') \<Rightarrow> (Inl e, csprng')
      | (Inr v, csprng') \<Rightarrow>
          (let p = prod64 v n
           in if low32 p < n then csprngUint32n_loop ((- n) mod n) n p csprng'
              else (Inr (high32 p), csprng')))"

text \<open>
  The shuffle. \<open>swap\<close> is the caller's callback on the caller's state; \<open>None\<close> is a panic
  of the callback (an index out of range).
\<close>

fun csprngShuffle_loop ::
  "(nat \<Rightarrow> nat \<Rightarrow> 's \<Rightarrow> 's option) \<Rightarrow> nat \<Rightarrow> input \<Rightarrow> 's \<Rightarrow> (err option, input \<times> 's) go" where
  "csprngShuffle_loop swap 0 csprng s = Ret None (csprng, s)"
| "csprngShuffle_loop swap (Suc i) csprng s =
     (case csprngUint32n csprng (word_of_nat (Suc i + 1)) of
        (Inl e, csprng') \<Rightarrow> Ret (Some e) (csprng', s)
      | (Inr j, csprng') \<Rightarrow>
          (case swap (Suc i) (unat j) s of
             None \<Rightarrow> Panic
           | Some s' \<Rightarrow> csprngShuffle_loop swap i csprng' s'))"

definition csprngShuffle ::
  "input \<Rightarrow> int \<Rightarrow> (nat \<Rightarrow> nat \<Rightarrow> 's \<Rightarrow> 's option) \<Rightarrow> 's \<Rightarrow> (err option, input \<times> 's) go" where
  "csprngShuffle csprng n swap s =
     (if n < 0 then Panic
      else if n > 2 ^ 31 - 1 then Panic
      else csprngShuffle_loop swap (nat (n - 1)) csprng s)"

text \<open>The callback of the receiver shuffles: \<open>xs[i], xs[j] = xs[j], xs[i]\<close>.\<close>

definition swap_elems :: "nat \<Rightarrow> nat \<Rightarrow> 'a list \<Rightarrow> 'a list option" where
  "swap_elems i j xs =
     (if i < length xs \<and> j < length xs then Some (xs[i := xs ! j, j := xs ! i]) else None)"

definition shuffle_list :: "input \<Rightarrow> 'a list \<Rightarrow> (err option, input \<times> 'a list) go" where
  "shuffle_list csprng xs = csprngShuffle csprng (int (length xs)) swap_elems xs"

section \<open>Lemire's method\<close>

lemma unat_word32_less [simp]: "unat (v :: 32 word) < 4294967296"
  using unsigned_less [of v] by simp

lemma unat_word64_less [simp]: "unat (v :: 64 word) < 18446744073709551616"
  using unsigned_less [of v] by simp

lemma unat_prod64: "unat (prod64 v n) = unat v * unat n"
proof -
  have small: "unat u mod 18446744073709551616 = unat u" for u :: "32 word"
    by (rule mod_less) (rule less_trans [OF unat_word32_less], simp)
  have "unat v * unat n < 2 ^ 32 * 2 ^ 32"
    using unsigned_less [of v] unsigned_less [of n]
    by (intro mult_strict_mono) simp_all
  then show ?thesis
    by (simp add: prod64_def unat_word_ariths unsigned_ucast_eq take_bit_eq_mod small)
qed

lemma unat_low32: "unat (low32 p) = unat p mod 2 ^ 32"
  by (simp add: low32_def unsigned_ucast_eq take_bit_eq_mod)

lemma unat_high32: "unat (high32 p) = unat p div 2 ^ 32"
proof -
  have "unat p div 2 ^ 32 < 2 ^ 32"
    by (rule less_mult_imp_div_less) simp
  then show ?thesis
    by (simp add: high32_def unsigned_ucast_eq take_bit_eq_mod drop_bit_eq_div unat_div)
qed

lemma unat_threshold:
  assumes "n \<noteq> 0"
  shows "unat ((- n) mod n :: 32 word) = 2 ^ 32 mod unat n"
proof -
  have n: "0 < unat n" "unat n < 2 ^ 32"
    using assms unsigned_less [of n] by (simp_all add: unat_gt_0)
  have "word_of_nat (2 ^ 32 - unat n) = (word_of_nat (2 ^ 32) - word_of_nat (unat n) :: 32 word)"
    by (rule of_nat_diff) (simp add: less_imp_le)
  then have "- n = word_of_nat (2 ^ 32 - unat n)" by (simp flip: word_exp_length_eq_0)
  then have "unat (- n) = unat (word_of_nat (2 ^ 32 - unat n) :: 32 word)" by (simp only:)
  then have "unat (- n) = 2 ^ 32 - unat n" using n by (simp only: unat_of_nat) simp
  then have "unat ((- n) mod n) = (2 ^ 32 - unat n) mod unat n"
    by (simp add: unat_mod)
  also have "\<dots> = 2 ^ 32 mod unat n"
    using n by (metis le_mod_geq less_imp_le)
  finally show ?thesis .
qed

text \<open>A word is accepted when the low half of its product reaches the threshold.\<close>

definition accepts :: "32 word \<Rightarrow> 32 word \<Rightarrow> bool" where
  "accepts n v \<longleftrightarrow> \<not> low32 (prod64 v n) < (- n) mod n"

lemma accepts_nat:
  "n \<noteq> 0 \<Longrightarrow> accepts n v \<longleftrightarrow> 2 ^ 32 mod unat n \<le> (unat v * unat n) mod 2 ^ 32"
  by (simp add: accepts_def word_less_nat_alt unat_low32 unat_prod64 unat_threshold not_less)

lemma high_below:
  assumes "n \<noteq> 0"
  shows "unat (high32 (prod64 v n)) < unat n"
proof -
  have "unat v * unat n < 2 ^ 32 * unat n"
    using assms unsigned_less [of v] by (simp add: unat_gt_0)
  then show ?thesis
    by (simp add: unat_high32 unat_prod64 less_mult_imp_div_less mult.commute)
qed

lemma csprngUint32n_loop_below:
  "csprngUint32n_loop t n (prod64 v n) r = (Inr j, r') \<Longrightarrow> n \<noteq> 0 \<Longrightarrow> unat j < unat n"
proof (induction t n "prod64 v n" r arbitrary: v rule: csprngUint32n_loop.induct)
  case (1 t n r)
  from "1.prems" show ?case
    by (auto simp: csprngUint32n_loop.simps [of t n "prod64 v n" r] high_below
        split: if_splits prod.splits sum.splits dest: "1.hyps" [OF _ _ _ refl])
qed

lemma multiples_in_interval:
  fixes a n q :: nat
  assumes "0 < n"
  shows "card {v. a \<le> v * n \<and> v * n < a + n * q} = q"
proof -
  let ?c = "(a + n - 1) div n"
  have ge: "x \<le> v * n \<longleftrightarrow> (x + n - 1) div n \<le> v" for x v
  proof
    assume "x \<le> v * n"
    then have "x + n - 1 < Suc v * n" using assms by simp
    then show "(x + n - 1) div n \<le> v" by (simp add: less_mult_imp_div_less less_Suc_eq_le [symmetric])
  next
    assume "(x + n - 1) div n \<le> v"
    then have "x + n - 1 < Suc v * n"
      using assms by (metis div_less_iff_less_mult less_Suc_eq_le)
    then show "x \<le> v * n" by simp
  qed
  have "(a + n * q + n - 1) div n = ?c + q"
  proof -
    have "a + n * q + n - 1 = (a + n - 1) + q * n" using assms by (simp add: mult.commute)
    then show ?thesis using assms by (simp only: div_mult_self1)
  qed
  then have "v * n < a + n * q \<longleftrightarrow> v < ?c + q" for v
    using ge [of "a + n * q" v] by (simp add: not_le [symmetric])
  with ge [of a] have "{v. a \<le> v * n \<and> v * n < a + n * q} = {?c ..< ?c + q}" by auto
  then show ?thesis by simp
qed

lemma div_mod_interval:
  fixes p m t j :: nat
  assumes "0 < m"
  shows "t \<le> p mod m \<and> p div m = j \<longleftrightarrow> j * m + t \<le> p \<and> p < j * m + m"
proof
  assume "t \<le> p mod m \<and> p div m = j"
  then have "p = j * m + p mod m" "t \<le> p mod m" "p mod m < m"
    using div_mult_mod_eq [of p m] assms by auto
  then show "j * m + t \<le> p \<and> p < j * m + m" by linarith
next
  assume h: "j * m + t \<le> p \<and> p < j * m + m"
  then have "p div m = j" by (intro div_nat_eqI) (simp_all add: mult.commute)
  moreover have "p = p div m * m + p mod m" by simp
  ultimately show "t \<le> p mod m \<and> p div m = j" using h by auto
qed

lemma accepted_iff:
  assumes "n \<noteq> 0"
  shows "accepts n v \<and> high32 (prod64 v n) = j \<longleftrightarrow>
    unat j * 2 ^ 32 + 2 ^ 32 mod unat n \<le> unat v * unat n \<and>
    unat v * unat n < unat j * 2 ^ 32 + 2 ^ 32"
  unfolding accepts_nat [OF assms] word_unat_eq_iff [of "high32 _"] unat_high32 unat_prod64
  by (rule div_mod_interval) simp

text \<open>
  Among the \<open>2^32\<close> words, exactly \<open>2^32 div n\<close> are accepted with a given result below \<open>n\<close>.
\<close>

lemma accepted_count:
  assumes "n \<noteq> 0" and "unat j < unat n"
  shows "card {v :: 32 word. accepts n v \<and> high32 (prod64 v n) = j} = 2 ^ 32 div unat n"
proof -
  let ?n = "unat n" and ?q = "2 ^ 32 div unat n :: nat"
  let ?a = "unat j * 2 ^ 32 + 2 ^ 32 mod unat n"
  let ?S = "{k. ?a \<le> k * ?n \<and> k * ?n < ?a + ?n * ?q}"
  have n: "0 < ?n" using assms by simp
  have end_eq: "?a + ?n * ?q = unat j * 2 ^ 32 + 2 ^ 32"
    using mod_mult_div_eq [of "2 ^ 32" "unat n"] by simp
  have bound: "k < 2 ^ 32" if "k \<in> ?S" for k
  proof -
    have "k * ?n < Suc (unat j) * 2 ^ 32" using that end_eq by simp
    also have "\<dots> \<le> ?n * 2 ^ 32" using assms(2) by (intro mult_le_mono1) simp
    finally show ?thesis by (simp add: mult.commute)
  qed
  have "?S = unat ` {v :: 32 word. accepts n v \<and> high32 (prod64 v n) = j}"
  proof (intro set_eqI iffI)
    fix k assume k: "k \<in> ?S"
    then have "k = unat (word_of_nat k :: 32 word)" using bound [OF k] by (simp add: unat_of_nat)
    then show "k \<in> unat ` {v :: 32 word. accepts n v \<and> high32 (prod64 v n) = j}"
      using k end_eq by (intro image_eqI [of _ _ "word_of_nat k"]) (simp_all add: accepted_iff [OF assms(1)])
  next
    fix k assume "k \<in> unat ` {v :: 32 word. accepts n v \<and> high32 (prod64 v n) = j}"
    then show "k \<in> ?S" using end_eq by (auto simp: accepted_iff [OF assms(1)])
  qed
  then have "card {v :: 32 word. accepts n v \<and> high32 (prod64 v n) = j} = card ?S"
    by (simp add: card_image inj_on_def word_unat_eq_iff)
  then show ?thesis using multiples_in_interval [OF n, of ?a ?q] by simp
qed

section \<open>The generator on its tape\<close>

text \<open>The four bytes of the tape that make up a word.\<close>

definition be32 :: "32 word \<Rightarrow> bytes" where
  "be32 w = [ucast (drop_bit 24 w), ucast (drop_bit 16 w), ucast (drop_bit 8 w), ucast w]"

lemma uint32_be_be32:
  "uint32_be (ucast (drop_bit 24 w)) (ucast (drop_bit 16 w)) (ucast (drop_bit 8 w)) (ucast w) = w"
proof (rule bit_word_eqI)
  fix n assume "n < LENGTH(32)"
  then consider "n < 8" | "8 \<le> n" "n < 16" | "16 \<le> n" "n < 24" | "24 \<le> n" "n < 32"
    by (simp, linarith)
  then show "bit (uint32_be (ucast (drop_bit 24 w)) (ucast (drop_bit 16 w))
      (ucast (drop_bit 8 w)) (ucast w)) n = bit w n"
    by cases (auto simp: uint32_be_def bit_simps)
qed

lemma csprngUint32_be32:
  "csprngUint32 \<lparr>pending = be32 w @ rest, ends = e\<rparr> = (Inr w, \<lparr>pending = rest, ends = e\<rparr>)"
  by (simp add: csprngUint32_def csprngReadFull_enough be32_def uint32_be_be32)

lemma csprngUint32_empty: "csprngUint32 \<lparr>pending = [], ends = e\<rparr> = (Inl e, \<lparr>pending = [], ends = e\<rparr>)"
  by (simp add: csprngUint32_def csprngReadFull_def readFull_def)

lemma threshold_below: "n \<noteq> 0 \<Longrightarrow> (- n) mod n < (n :: 32 word)"
  by (simp add: word_less_nat_alt unat_threshold unat_gt_0)

text \<open>
  The inner loop and a fresh start agree: the loop accepts its word or starts again. So the
  generator skips rejected words of the tape and answers from the first accepted one.
\<close>

lemma csprngUint32n_loop_eq:
  assumes "n \<noteq> 0"
  shows "csprngUint32n_loop ((- n) mod n) n (prod64 v n) r =
    (if accepts n v then (Inr (high32 (prod64 v n)), r) else csprngUint32n r n)"
proof (cases "accepts n v")
  case True
  then show ?thesis by (simp add: csprngUint32n_loop.simps [of _ n "prod64 v n"] accepts_def)
next
  case False
  have "csprngUint32n_loop ((- n) mod n) n (prod64 u n) q = (Inr (high32 (prod64 u n)), q)"
    if "\<not> low32 (prod64 u n) < n" for u q
    using that threshold_below [OF assms]
    by (simp add: csprngUint32n_loop.simps [of _ n "prod64 u n"]) (meson less_trans)
  with False show ?thesis
    by (simp add: csprngUint32n_loop.simps [of _ n "prod64 v n"] accepts_def csprngUint32n_def Let_def
        split: prod.splits sum.splits)
qed

lemma csprngUint32n_be32:
  assumes "n \<noteq> 0"
  shows "csprngUint32n \<lparr>pending = be32 v @ rest, ends = e\<rparr> n =
    (if accepts n v then (Inr (high32 (prod64 v n)), \<lparr>pending = rest, ends = e\<rparr>)
     else csprngUint32n \<lparr>pending = rest, ends = e\<rparr> n)"
proof (cases "low32 (prod64 v n) < n")
  case True
  then show ?thesis
    by (simp add: csprngUint32n_def csprngUint32_be32 csprngUint32n_loop_eq [OF assms] Let_def)
next
  case False
  then have "accepts n v"
    using threshold_below [OF assms] by (auto simp: accepts_def dest: less_trans)
  with False show ?thesis by (simp add: csprngUint32n_def csprngUint32_be32 Let_def)
qed

lemma csprngUint32n_empty: "csprngUint32n \<lparr>pending = [], ends = e\<rparr> n = (Inl e, \<lparr>pending = [], ends = e\<rparr>)"
  by (simp add: csprngUint32n_def csprngUint32_empty)

lemma csprngUint32n_below:
  assumes "csprngUint32n r n = (Inr j, r')" and "n \<noteq> 0"
  shows "unat j < unat n"
  using assms csprngUint32n_loop_below high_below
  by (fastforce simp: csprngUint32n_def Let_def split: prod.splits sum.splits if_splits)

lemma csprngUint32n_reaches:
  assumes "j < unat n"
  obtains v where "\<And>rest e. csprngUint32n \<lparr>pending = be32 v @ rest, ends = e\<rparr> n =
    (Inr (word_of_nat j), \<lparr>pending = rest, ends = e\<rparr>)"
proof -
  have n: "n \<noteq> 0" using assms by auto
  have j: "unat (word_of_nat j :: 32 word) = j"
    using less_trans [OF assms unat_word32_less] by (simp add: unat_of_nat)
  have "unat n < 2 ^ 32" by simp
  then have "0 < 2 ^ 32 div unat n" using assms by (simp add: div_greater_zero_iff less_imp_le)
  then have "card {v. accepts n v \<and> high32 (prod64 v n) = word_of_nat j} \<noteq> 0"
    using accepted_count [OF n, of "word_of_nat j"] assms j by simp
  then have "{v. accepts n v \<and> high32 (prod64 v n) = word_of_nat j} \<noteq> {}"
    by (metis card.empty)
  then obtain v where "accepts n v" "high32 (prod64 v n) = word_of_nat j" by auto
  then show thesis by (intro that [of v]) (simp add: csprngUint32n_be32 [OF n])
qed

section \<open>The shuffle\<close>

lemma swap_elems_in_range:
  assumes "i < length xs" "j < length xs"
  obtains zs where "swap_elems i j xs = Some zs" "mset zs = mset xs" "length zs = length xs"
    "zs ! i = xs ! j" "\<And>k. k \<noteq> i \<Longrightarrow> k \<noteq> j \<Longrightarrow> zs ! k = xs ! k"
proof
  show "swap_elems i j xs = Some (xs[i := xs ! j, j := xs ! i])"
    using assms by (simp add: swap_elems_def)
  show "mset (xs[i := xs ! j, j := xs ! i]) = mset xs"
    using assms by (subst mset_swap [symmetric, of j _ i]) (simp_all add: list_update_swap)
qed (use assms in \<open>auto simp: nth_list_update\<close>)

lemma unat_bound_of_nat: "Suc i < 2 ^ 31 \<Longrightarrow> unat (word_of_nat (Suc i + 1) :: 32 word) = Suc i + 1"
  by (simp only: unat_of_nat) simp

lemma csprngShuffle_loop_perm:
  assumes "i < length xs" "i < 2 ^ 31"
  shows "\<exists>e r' zs. csprngShuffle_loop swap_elems i r xs = Ret e (r', zs) \<and> mset zs = mset xs"
  using assms
proof (induction i arbitrary: r xs)
  case (Suc i)
  let ?n = "word_of_nat (Suc i + 1) :: 32 word"
  have n: "unat ?n = Suc i + 1" using Suc.prems by (intro unat_bound_of_nat)
  then have "?n \<noteq> 0" by auto
  show ?case
  proof (cases "csprngUint32n r ?n")
    case (Pair res r')
    show ?thesis
    proof (cases res)
      case (Inl e)
      with Pair show ?thesis by simp
    next
      case (Inr j)
      have "unat j < length xs"
        using csprngUint32n_below [OF Pair [unfolded Inr] \<open>?n \<noteq> 0\<close>] n Suc.prems by simp
      then obtain zs where zs: "swap_elems (Suc i) (unat j) xs = Some zs" "mset zs = mset xs"
          "length zs = length xs"
        using swap_elems_in_range [OF Suc.prems(1)] by metis
      have "\<exists>e q ys. csprngShuffle_loop swap_elems i r' zs = Ret e (q, ys) \<and> mset ys = mset zs"
        by (rule Suc.IH) (use Suc.prems zs in simp_all)
      with Pair Inr zs show ?thesis by auto
    qed
  qed
qed simp

lemma mset_agree_prefix:
  assumes m: "mset ys = mset xs" and beyond: "\<And>k. k < length xs \<Longrightarrow> i < k \<Longrightarrow> ys ! k = xs ! k"
    and i: "i < length xs"
  obtains j where "j \<le> i" "xs ! j = ys ! i"
proof -
  have len: "length ys = length xs" using m by (metis size_mset)
  have "drop (Suc i) ys = drop (Suc i) xs"
    using beyond len by (intro nth_equalityI) simp_all
  moreover have "mset (take (Suc i) ys) + mset (drop (Suc i) ys) =
      mset (take (Suc i) xs) + mset (drop (Suc i) xs)"
    using m by (metis append_take_drop_id mset_append)
  ultimately have "mset (take (Suc i) ys) = mset (take (Suc i) xs)" by simp
  then have "set (take (Suc i) ys) = set (take (Suc i) xs)" by (rule mset_eq_setD)
  moreover have "ys ! i \<in> set (take (Suc i) ys)"
    using i len by (auto simp: in_set_conv_nth intro!: exI [of _ i])
  ultimately have "ys ! i \<in> set (take (Suc i) xs)" by simp
  then obtain j where "j < Suc i" "xs ! j = ys ! i" by (auto simp: in_set_conv_nth)
  then show thesis by (intro that [of j]) simp_all
qed

lemma csprngShuffle_loop_reaches:
  assumes "i < length xs" "i < 2 ^ 31" "mset ys = mset xs"
    and "\<And>k. k < length xs \<Longrightarrow> i < k \<Longrightarrow> ys ! k = xs ! k"
  shows "\<exists>tape. csprngShuffle_loop swap_elems i \<lparr>pending = tape, ends = e\<rparr> xs =
    Ret None (\<lparr>pending = [], ends = e\<rparr>, ys)"
  using assms
proof (induction i arbitrary: xs)
  case 0
  have "length ys = length xs" using 0(3) by (metis size_mset)
  obtain j where "j \<le> 0" "xs ! j = ys ! 0"
    by (rule mset_agree_prefix [OF 0(3) 0(4) 0(1)])
  then have "ys ! k = xs ! k" if "k < length xs" for k using 0(4) that by (cases k) auto
  then have "ys = xs" using \<open>length ys = length xs\<close> by (intro nth_equalityI) simp_all
  then show ?case by (intro exI [of _ "[]"]) simp
next
  case (Suc i)
  let ?n = "word_of_nat (Suc i + 1) :: 32 word"
  have n: "unat ?n = Suc i + 1" using Suc.prems by (intro unat_bound_of_nat)
  obtain j where j: "j \<le> Suc i" "xs ! j = ys ! Suc i"
    by (rule mset_agree_prefix [OF Suc.prems(3,4,1)])
  then have "j < unat ?n" using n by simp
  then obtain v where v: "\<And>rest e. csprngUint32n \<lparr>pending = be32 v @ rest, ends = e\<rparr> ?n =
      (Inr (word_of_nat j), \<lparr>pending = rest, ends = e\<rparr>)"
    by (rule csprngUint32n_reaches) blast
  have uj: "unat (word_of_nat j :: 32 word) = j"
    using j(1) Suc.prems(2) by (simp add: unat_of_nat)
  have "j < length xs" using j(1) Suc.prems(1) by simp
  with Suc.prems(1) obtain zs where zs: "swap_elems (Suc i) j xs = Some zs" "mset zs = mset xs"
      "length zs = length xs" "zs ! Suc i = xs ! j"
      "\<And>k. k \<noteq> Suc i \<Longrightarrow> k \<noteq> j \<Longrightarrow> zs ! k = xs ! k"
    by (rule swap_elems_in_range) blast
  have "\<exists>tape. csprngShuffle_loop swap_elems i \<lparr>pending = tape, ends = e\<rparr> zs =
      Ret None (\<lparr>pending = [], ends = e\<rparr>, ys)"
  proof (rule Suc.IH)
    fix k assume k: "k < length zs" "i < k"
    show "ys ! k = zs ! k"
    proof (cases "k = Suc i")
      case True
      then show ?thesis using zs j by simp
    next
      case False
      then show ?thesis using k j zs Suc.prems(4) [of k] by simp
    qed
  qed (use Suc.prems zs in simp_all)
  then obtain tape where "csprngShuffle_loop swap_elems i \<lparr>pending = tape, ends = e\<rparr> zs =
      Ret None (\<lparr>pending = [], ends = e\<rparr>, ys)" ..
  then show ?case using v uj zs by (intro exI [of _ "be32 v @ tape"]) simp
qed

section \<open>Properties\<close>

text \<open>
  C16: \<open>csprngUint32n\<close> is unbiased. Of the \<open>2^32\<close> tapes of one word, exactly
  \<open>2^32 div n\<close> make it return \<open>j\<close>, whatever \<open>j < n\<close> is; the other words are rejected and
  the loop draws again (here from an empty tape, so it returns the tape's error).
\<close>

theorem csprngUint32n_uniform:
  assumes "n \<noteq> 0" and "unat j < unat n"
  shows "card {v. fst (csprngUint32n \<lparr>pending = be32 v, ends = e\<rparr> n) = Inr j} = 2 ^ 32 div unat n"
proof -
  have "fst (csprngUint32n \<lparr>pending = be32 v, ends = e\<rparr> n) = Inr j \<longleftrightarrow>
      accepts n v \<and> high32 (prod64 v n) = j" for v
    using csprngUint32n_be32 [OF assms(1), of v "[]"] by (simp add: csprngUint32n_empty)
  then show ?thesis using accepted_count [OF assms] by simp
qed

theorem csprngUint32n_uniform_witness:
  "card {v. fst (csprngUint32n \<lparr>pending = be32 v, ends = EOF\<rparr> 6) = Inr 5} = 2 ^ 32 div 6"
  using csprngUint32n_uniform [of 6 5 EOF] by simp

text \<open>
  C17: whatever the tape holds, the shuffle of a list of fewer than \<open>2^31\<close> elements neither
  panics nor indexes out of range, and it leaves a permutation of the list, also when the tape
  runs out in the middle.
\<close>

theorem shuffle_list_permutes:
  assumes "length xs < 2 ^ 31"
  shows "\<exists>e r' zs. shuffle_list r xs = Ret e (r', zs) \<and> mset zs = mset xs"
proof (cases xs)
  case (Cons x xs')
  have "length xs' < 2 ^ 31" using assms Cons by simp
  moreover have "nat (int (length xs) - 1) = length xs'" using Cons by simp
  ultimately show ?thesis
    using csprngShuffle_loop_perm [of "length xs'" xs r] assms Cons
    by (simp add: shuffle_list_def csprngShuffle_def)
qed (simp add: shuffle_list_def csprngShuffle_def)

theorem shuffle_list_permutes_witness:
  "\<exists>e r' zs. shuffle_list \<lparr>pending = be32 7, ends = EOF\<rparr> [10, 20, 30 :: nat] = Ret e (r', zs) \<and>
     mset zs = mset [10, 20, 30]"
  by (rule shuffle_list_permutes) simp

text \<open>
  C18: the shuffle can produce every permutation of its list: for each of them there is a
  tape on which the shuffle ends without error, the tape consumed, with exactly that list.
\<close>

theorem shuffle_list_reaches:
  assumes "length xs < 2 ^ 31" and "mset ys = mset xs"
  shows "\<exists>tape. shuffle_list \<lparr>pending = tape, ends = e\<rparr> xs =
    Ret None (\<lparr>pending = [], ends = e\<rparr>, ys)"
proof (cases xs)
  case Nil
  then show ?thesis
    using assms(2) by (intro exI [of _ "[]"]) (simp add: shuffle_list_def csprngShuffle_def)
next
  case (Cons x xs')
  have "\<exists>tape. csprngShuffle_loop swap_elems (length xs') \<lparr>pending = tape, ends = e\<rparr> xs =
      Ret None (\<lparr>pending = [], ends = e\<rparr>, ys)"
    by (rule csprngShuffle_loop_reaches) (use assms Cons in simp_all)
  moreover have "nat (int (length xs) - 1) = length xs'" using Cons by simp
  ultimately show ?thesis
    using assms(1) by (simp add: shuffle_list_def csprngShuffle_def)
qed

theorem shuffle_list_reaches_witness:
  "\<exists>tape. shuffle_list \<lparr>pending = tape, ends = EOF\<rparr> [10, 20, 30 :: nat] =
     Ret None (\<lparr>pending = [], ends = EOF\<rparr>, [20, 30, 10])"
  by (rule shuffle_list_reaches) (simp_all add: add_mset_commute)

end
