(* ===== verification/Basex_Correct.thy ===== *)
theory Basex_Correct
  imports Basex
begin

text \<open>
  The radix encoding of \<open>Basex\<close> is correct: reference definitions by digits, the
  bounds that keep every index of \<open>encodeBlock\<close> inside its slice, the equality of \<open>Encode\<close>
  with the block-wise reference, and decoding as its inverse.
\<close>

section \<open>Integer logarithms\<close>

lemma least_exp_small [simp]: "v \<le> 1 \<Longrightarrow> least_exp b v = 0"
  by (subst least_exp.simps) simp

lemma least_exp_step:
  "2 \<le> b \<Longrightarrow> 2 \<le> v \<Longrightarrow> least_exp b v = Suc (least_exp b ((v + b - 1) div b))"
  by (subst least_exp.simps) simp

lemma ceil_div_le_iff: "0 < b \<Longrightarrow> (v + b - 1) div b \<le> m \<longleftrightarrow> v \<le> b * (m :: nat)"
proof -
  assume b: "0 < b"
  have "(v + b - 1) div b \<le> m \<longleftrightarrow> (v + b - 1) div b < Suc m" by (rule less_Suc_eq_le [symmetric])
  also have "\<dots> \<longleftrightarrow> v + b - 1 < Suc m * b" using b by (rule div_less_iff_less_mult)
  also have "\<dots> \<longleftrightarrow> v \<le> b * m" using b by (simp add: mult.commute) linarith
  finally show ?thesis .
qed

lemma least_exp_le_iff: "2 \<le> b \<Longrightarrow> least_exp b v \<le> m \<longleftrightarrow> v \<le> b ^ m"
proof (induction b v arbitrary: m rule: least_exp.induct)
  case (1 b v)
  show ?case
  proof (cases "v \<le> 1")
    case True
    then have "v \<le> b ^ m" using "1.prems" one_le_power [of b m] by linarith
    with True show ?thesis by simp
  next
    case False
    note step = least_exp_step [of b v]
    show ?thesis
    proof (cases m)
      case 0
      with step False "1.prems" show ?thesis by simp
    next
      case (Suc k)
      have "least_exp b v \<le> m \<longleftrightarrow> least_exp b ((v + b - 1) div b) \<le> k"
        using step False "1.prems" Suc by simp
      also have "\<dots> \<longleftrightarrow> (v + b - 1) div b \<le> b ^ k" using 1 False by simp
      also have "\<dots> \<longleftrightarrow> v \<le> b ^ m"
        using "1.prems" ceil_div_le_iff [of b v "b ^ k"] Suc by simp
      finally show ?thesis .
    qed
  qed
qed

lemma least_exp_upper: "2 \<le> b \<Longrightarrow> v \<le> b ^ least_exp b v"
  by (simp flip: least_exp_le_iff)

lemma less_least_exp_iff: "2 \<le> b \<Longrightarrow> m < least_exp b v \<longleftrightarrow> b ^ m < v"
  using least_exp_le_iff [of b v m] by linarith

lemma le_floor_log256_iff: "0 < v \<Longrightarrow> k \<le> floor_log256 v \<longleftrightarrow> 256 ^ k \<le> v"
proof (induction v arbitrary: k rule: floor_log256.induct)
  case (1 v)
  show ?case
  proof (cases k)
    case (Suc j)
    show ?thesis
    proof (cases "v < 256")
      case True
      then have "v < 256 ^ k" using Suc by (simp add: order_less_le_trans)
      with True Suc show ?thesis by (simp add: floor_log256.simps [of v])
    next
      case False
      have "k \<le> floor_log256 v \<longleftrightarrow> j \<le> floor_log256 (v div 256)"
        using False Suc by (simp add: floor_log256.simps [of v])
      also have "\<dots> \<longleftrightarrow> 256 ^ j \<le> v div 256" using 1 False by (simp add: div_greater_zero_iff)
      also have "\<dots> \<longleftrightarrow> 256 ^ k \<le> v" using Suc by (simp add: less_eq_div_iff_mult_less_eq mult.commute)
      finally show ?thesis .
    qed
  qed (use "1.prems" in simp)
qed

lemma floor_log256_lower: "0 < v \<Longrightarrow> 256 ^ floor_log256 v \<le> v"
  by (simp flip: le_floor_log256_iff)

lemma floor_log256_eqI: "256 ^ k \<le> v \<Longrightarrow> v < 256 ^ Suc k \<Longrightarrow> floor_log256 v = k"
proof -
  assume *: "256 ^ k \<le> v" "v < 256 ^ Suc k"
  have "0 < v" using * by (metis gr0I not_le zero_less_numeral zero_less_power)
  with * have "k \<le> floor_log256 v" "\<not> Suc k \<le> floor_log256 v"
    by (simp_all only: le_floor_log256_iff not_le)
  then show ?thesis by simp
qed

section \<open>Well-formed encodings\<close>

text \<open>What \<open>NewEncoding\<close> establishes for an alphabet of at least two distinct bytes.\<close>

definition wf_enc :: "Encoding \<Rightarrow> bool" where
  "wf_enc enc \<longleftrightarrow>
     2 \<le> base enc \<and> base enc \<le> 256 \<and> 0 < base256BlockLen enc \<and>
     length (encode enc) = base enc \<and> distinct (encode enc) \<and>
     baseXBlockLen enc = least_exp (base enc) (256 ^ base256BlockLen enc) \<and>
     (\<forall>b. decodeMap enc b =
        (if b \<in> set (encode enc) then Some (THE i. i < base enc \<and> encode enc ! i = b) else None))"

lemma decode_table_fold:
  "fold (\<lambda>i m. m(xs ! i \<mapsto> i)) [0..<n] Map.empty b =
    (if \<exists>i<n. xs ! i = b then Some (GREATEST i. i < n \<and> xs ! i = b) else None)"
proof (induction n)
  case (Suc n)
  show ?case
  proof (cases "xs ! n = b")
    case True
    have "(GREATEST i. i < Suc n \<and> xs ! i = b) = n"
      by (rule Greatest_equality) (use True in auto)
    with True show ?thesis by auto
  next
    case False
    then have "(\<lambda>i. i < Suc n \<and> xs ! i = b) = (\<lambda>i. i < n \<and> xs ! i = b)"
      by (auto simp: less_Suc_eq)
    then have "(\<exists>i<Suc n. xs ! i = b) = (\<exists>i<n. xs ! i = b)"
      "(GREATEST i. i < Suc n \<and> xs ! i = b) = (GREATEST i. i < n \<and> xs ! i = b)"
      by metis+
    with False Suc show ?thesis by simp
  qed
qed simp

lemma decode_table_nth:
  assumes "distinct xs" "i < length xs"
  shows "decode_table xs (xs ! i) = Some i"
proof -
  have "(GREATEST k. k < length xs \<and> xs ! k = xs ! i) = i"
    by (rule Greatest_equality) (use assms in \<open>auto simp: nth_eq_iff_index_eq\<close>)
  then show ?thesis using assms by (auto simp: decode_table_def decode_table_fold)
qed

lemma decode_table_None: "b \<notin> set xs \<Longrightarrow> decode_table xs b = None"
  by (auto simp: decode_table_def decode_table_fold)

lemma length_distinct_bytes: "distinct (xs :: bytes) \<Longrightarrow> length xs \<le> 256"
proof -
  assume "distinct xs"
  then have "length xs = card (set xs)" by (simp add: distinct_card)
  also have "\<dots> \<le> card (UNIV :: byte set)" by (intro card_mono) simp_all
  also have "\<dots> = 256" by (simp add: card_word)
  finally show ?thesis .
qed

lemma NewEncoding_wf:
  assumes "distinct xs" "2 \<le> length xs" "0 < n"
  shows "wf_enc (NewEncoding xs n skip)"
proof -
  have "decode_table xs b =
      (if b \<in> set xs then Some (THE i. i < length xs \<and> xs ! i = b) else None)" for b
  proof (cases "b \<in> set xs")
    case True
    then obtain i where i: "i < length xs" "xs ! i = b" by (auto simp: in_set_conv_nth)
    then have "(THE i. i < length xs \<and> xs ! i = b) = i"
      using assms(1) by (intro the_equality) (auto simp: nth_eq_iff_index_eq)
    with True i assms(1) show ?thesis using decode_table_nth [of xs i] by simp
  qed (simp add: decode_table_None)
  then show ?thesis
    using assms length_distinct_bytes [OF assms(1)] by (simp add: wf_enc_def NewEncoding_def)
qed

lemma wf_encD:
  assumes "wf_enc enc"
  shows "2 \<le> base enc" "base enc \<le> 256" "0 < base256BlockLen enc" "length (encode enc) = base enc"
    "baseXBlockLen enc = least_exp (base enc) (256 ^ base256BlockLen enc)" "encode enc \<noteq> []"
  using assms by (auto simp: wf_enc_def)

lemma wf_enc_base_pos: "wf_enc enc \<Longrightarrow> 0 < base enc"
  using wf_encD(1) by fastforce

lemma wf_enc_decode:
  "wf_enc enc \<Longrightarrow> i < base enc \<Longrightarrow> decodeMap enc (encode enc ! i) = Some i"
proof -
  assume wf: "wf_enc enc" and i: "i < base enc"
  then have "(THE k. k < base enc \<and> encode enc ! k = encode enc ! i) = i"
    by (intro the_equality) (auto simp: wf_enc_def nth_eq_iff_index_eq)
  with wf i show ?thesis by (simp add: wf_enc_def)
qed

lemma wf_enc_decode_lt: "wf_enc enc \<Longrightarrow> decodeMap enc b = Some v \<Longrightarrow> v < base enc \<and> encode enc ! v = b"
proof -
  assume wf: "wf_enc enc" and "decodeMap enc b = Some v"
  moreover from this have "b \<in> set (encode enc)" by (auto simp: wf_enc_def split: if_splits)
  then obtain i where "i < base enc" "encode enc ! i = b"
    using wf by (auto simp: wf_enc_def in_set_conv_nth)
  ultimately show ?thesis using wf_enc_decode [OF wf, of i] by auto
qed

lemma baseXBlockLen_pos: "wf_enc enc \<Longrightarrow> 0 < baseXBlockLen enc"
  using one_less_power [of "256 :: nat" "base256BlockLen enc"]
  by (simp add: wf_encD less_least_exp_iff)

lemma EncodedLen_block:
  "wf_enc enc \<Longrightarrow> n \<le> base256BlockLen enc \<Longrightarrow> EncodedLen enc n = least_exp (base enc) (256 ^ n)"
  by (cases "n = base256BlockLen enc") (auto simp: EncodedLen_def wf_encD Let_def)

lemma EncodedLen_fits:
  "wf_enc enc \<Longrightarrow> n \<le> base256BlockLen enc \<Longrightarrow> 256 ^ n \<le> base enc ^ EncodedLen enc n"
  by (simp add: EncodedLen_block least_exp_upper wf_encD)

lemma EncodedLen_mono_block:
  assumes "wf_enc enc" "n \<le> base256BlockLen enc"
  shows "EncodedLen enc n \<le> baseXBlockLen enc"
proof -
  have "(256 :: nat) ^ n \<le> 256 ^ base256BlockLen enc" using assms(2) by (intro power_increasing) simp_all
  also have "\<dots> \<le> base enc ^ baseXBlockLen enc" using assms(1) by (simp add: wf_encD least_exp_upper)
  finally show ?thesis using assms by (simp add: EncodedLen_block least_exp_le_iff wf_encD)
qed

text \<open>The decoded length of an encoded length is the length it came from.\<close>

lemma floor_log_EncodedLen:
  assumes "wf_enc enc" "n \<le> base256BlockLen enc"
  shows "floor_log256 (base enc ^ EncodedLen enc n) = n"
proof (rule floor_log256_eqI)
  show "256 ^ n \<le> base enc ^ EncodedLen enc n" by (rule EncodedLen_fits [OF assms])
  show "base enc ^ EncodedLen enc n < 256 ^ Suc n"
  proof (cases "EncodedLen enc n")
    case (Suc m)
    then have "base enc ^ m < 256 ^ n"
      using assms by (simp add: EncodedLen_block wf_encD flip: less_least_exp_iff)
    then have "base enc * base enc ^ m < 256 * 256 ^ n"
      using assms(1) by (intro mult_le_less_imp_less) (simp_all add: wf_encD wf_enc_base_pos)
    with Suc show ?thesis by simp
  next
    case 0
    then show ?thesis using one_less_power [of "256 :: nat" "Suc n"] by simp
  qed
qed

lemma DecodedLen_EncodedLen:
  assumes "wf_enc enc" "n \<le> base256BlockLen enc"
  shows "DecodedLen enc (EncodedLen enc n) = n"
proof (cases "EncodedLen enc n = baseXBlockLen enc")
  case True
  have "n = base256BlockLen enc"
    using floor_log_EncodedLen [OF assms] floor_log_EncodedLen [OF assms(1) order_refl] True
    by (metis EncodedLen_def)
  with True show ?thesis by (simp add: DecodedLen_def)
next
  case False
  then have lt: "EncodedLen enc n < baseXBlockLen enc"
    using EncodedLen_mono_block [OF assms] by simp
  show ?thesis
  proof (cases "EncodedLen enc n = 0")
    case True
    then have "(256 :: nat) ^ n \<le> 1" using EncodedLen_fits [OF assms] by simp
    then have "n = 0" using one_less_power [of "256 :: nat" n] by (cases "n = 0") simp_all
    with True False show ?thesis by (simp add: DecodedLen_def)
  next
    case nz: False
    then show ?thesis using lt floor_log_EncodedLen [OF assms] by (simp add: DecodedLen_def Let_def)
  qed
qed

lemma IsValid_EncodedLen:
  assumes "wf_enc enc" "n \<le> base256BlockLen enc"
  shows "IsValidEncodingLength enc (EncodedLen enc n)"
proof (cases "EncodedLen enc n")
  case (Suc m)
  then have "base enc ^ m < 256 ^ n"
    using assms by (simp add: EncodedLen_block wf_encD flip: less_least_exp_iff)
  then have "\<not> n \<le> floor_log256 (base enc ^ m)"
    using assms(1) by (subst le_floor_log256_iff) (simp_all add: wf_enc_base_pos not_le)
  moreover have "floor_log256 (base enc ^ Suc m) = n"
    using floor_log_EncodedLen [OF assms] Suc by simp
  ultimately show ?thesis by (simp add: Suc IsValidEncodingLength_def floorLen_def nat_add_distrib)
qed (simp add: IsValidEncodingLength_def floorLen_def)

section \<open>Digits\<close>

text \<open>The \<open>w\<close> digits of a value in base \<open>b\<close>, most significant first, and their value.\<close>

primrec digits :: "nat \<Rightarrow> nat \<Rightarrow> nat \<Rightarrow> nat list" where
  "digits b 0 v = []"
| "digits b (Suc w) v = digits b w (v div b) @ [v mod b]"

definition digits_val :: "nat \<Rightarrow> nat list \<Rightarrow> nat" where
  "digits_val b ds = foldl (\<lambda>acc d. acc * b + d) 0 ds"

lemma length_digits [simp]: "length (digits b w v) = w"
  by (induction w arbitrary: v) simp_all

lemma digits_less: "0 < b \<Longrightarrow> d \<in> set (digits b w v) \<Longrightarrow> d < b"
  by (induction w arbitrary: v) auto

lemma digits_val_snoc [simp]: "digits_val b (ds @ [d]) = digits_val b ds * b + d"
  by (simp add: digits_val_def)

lemma digits_val_digits: "v < b ^ w \<Longrightarrow> digits_val b (digits b w v) = v"
proof (induction w arbitrary: v)
  case (Suc w)
  then have "v div b < b ^ w" by (simp add: less_mult_imp_div_less mult.commute)
  with Suc.IH show ?case by simp
qed (simp add: digits_val_def)

lemma digits_0: "0 < b \<Longrightarrow> digits b w 0 = replicate w 0"
  by (induction w) (simp_all add: replicate_append_same)

section \<open>Encoding one block\<close>

definition enc_block :: "Encoding \<Rightarrow> bytes \<Rightarrow> bytes" where
  "enc_block enc src =
     map (\<lambda>d. encode enc ! d) (digits (base enc) (EncodedLen enc (length src)) (be_nat src))"

lemma length_enc_block [simp]: "length (enc_block enc src) = EncodedLen enc (length src)"
  by (simp add: enc_block_def)

lemma encode_pad_fills:
  assumes "w \<le> length dst" "encode enc \<noteq> []"
  shows "encode_pad enc (int w - 1) dst = Ok (replicate w (encode enc ! 0) @ drop w dst)"
  using assms
proof (induction w arbitrary: dst)
  case 0
  then show ?case by (subst encode_pad.simps) simp
next
  case (Suc w)
  have "encode_pad enc (int (Suc w) - 1) dst = encode_pad enc (int w - 1) (dst[w := encode enc ! 0])"
    using Suc.prems by (subst encode_pad.simps) auto
  also have "\<dots> = Ok (replicate w (encode enc ! 0) @ drop w (dst[w := encode enc ! 0]))"
    using Suc by simp
  also have "drop w (dst[w := encode enc ! 0]) = encode enc ! 0 # drop (Suc w) dst"
    using Suc.prems by (simp add: drop_update_swap Cons_nth_drop_Suc [symmetric])
  finally show ?case by (simp add: replicate_append_same flip: append_Cons replicate_Suc)
qed

lemma encode_digits_0: "encode_digits enc 0 p dst = Ok (p, dst)"
  by (subst encode_digits.simps) simp

text \<open>
  The two loops of \<open>encodeBlock\<close> together write the \<open>w\<close> digits of the value in front of what
  was there, provided the value fits; no index leaves the slice.
\<close>

lemma encode_loops:
  assumes "0 < base enc" "length (encode enc) = base enc" "v < base enc ^ w" "w \<le> length dst"
  shows "bind_out (encode_digits enc v (int w - 1) dst) (\<lambda>(p, dst'). encode_pad enc p dst') =
    Ok (map (\<lambda>d. encode enc ! d) (digits (base enc) w v) @ drop w dst)"
  using assms
proof (induction w arbitrary: v dst)
  case 0
  then show ?case by (simp add: encode_digits_0 encode_pad.simps [of enc "- 1"])
next
  case (Suc w)
  show ?case
  proof (cases "v = 0")
    case True
    have "encode enc \<noteq> []" using Suc.prems(1,2) by auto
    then have "encode_pad enc (int (Suc w) - 1) dst =
        Ok (map (\<lambda>d. encode enc ! d) (digits (base enc) (Suc w) 0) @ drop (Suc w) dst)"
      unfolding digits_0 [OF Suc.prems(1)] map_replicate using Suc.prems(4) by (intro encode_pad_fills)
    then show ?thesis
      using True by (simp only: encode_digits_0 bind_out.simps prod.case)
  next
    case False
    let ?dst = "dst[w := encode enc ! (v mod base enc)]"
    have "v div base enc < base enc ^ w"
      using Suc.prems by (simp add: less_mult_imp_div_less mult.commute)
    then have "bind_out (encode_digits enc (v div base enc) (int w - 1) ?dst)
        (\<lambda>(p, dst'). encode_pad enc p dst') =
      Ok (map (\<lambda>d. encode enc ! d) (digits (base enc) w (v div base enc)) @ drop w ?dst)"
      using Suc by simp
    moreover have "encode_digits enc v (int (Suc w) - 1) dst =
        encode_digits enc (v div base enc) (int w - 1) ?dst"
      using False Suc.prems by (subst encode_digits.simps) auto
    moreover have "drop w ?dst = encode enc ! (v mod base enc) # drop (Suc w) dst"
      using Suc.prems by (simp add: Cons_nth_drop_Suc [symmetric])
    ultimately show ?thesis by simp
  qed
qed

lemma encodeBlock_correct:
  assumes wf: "wf_enc enc" and "length src \<le> base256BlockLen enc"
    and "EncodedLen enc (length src) \<le> length dst"
  shows "encodeBlock enc dst src = Ok (enc_block enc src @ drop (EncodedLen enc (length src)) dst)"
proof -
  have "be_nat src < base enc ^ EncodedLen enc (length src)"
    using be_nat_bound EncodedLen_fits [OF assms(1,2)] by (rule order_less_le_trans)
  then show ?thesis
    using assms wf_enc_base_pos [OF wf]
    by (simp add: encodeBlock_def Let_def enc_block_def encode_loops wf_encD)
qed

section \<open>Encoding a byte string\<close>

definition encode_spec :: "Encoding \<Rightarrow> bytes \<Rightarrow> bytes" where
  "encode_spec enc src = concat (map (enc_block enc) (chunks (base256BlockLen enc) src))"

lemma encode_spec_Nil [simp]: "encode_spec enc [] = []"
  by (simp add: encode_spec_def)

lemma encode_spec_step:
  "wf_enc enc \<Longrightarrow> src \<noteq> [] \<Longrightarrow> encode_spec enc src =
     enc_block enc (take (base256BlockLen enc) src) @ encode_spec enc (drop (base256BlockLen enc) src)"
  by (simp add: encode_spec_def chunks_step wf_encD)

lemma EncodedLen_full: "EncodedLen enc (base256BlockLen enc) = baseXBlockLen enc"
  by (simp add: EncodedLen_def)

lemma EncodedLen_add_block:
  assumes "wf_enc enc" "base256BlockLen enc \<le> n"
  shows "EncodedLen enc n = baseXBlockLen enc + EncodedLen enc (n - base256BlockLen enc)"
proof -
  let ?B = "base256BlockLen enc" and ?X = "baseXBlockLen enc"
  have gen: "EncodedLen enc k = k div ?B * ?X + least_exp (base enc) (256 ^ (k mod ?B))" for k
    using wf_encD(3) [OF assms(1)] by (auto simp: EncodedLen_def Let_def)
  have "n div ?B = Suc ((n - ?B) div ?B)" "n mod ?B = (n - ?B) mod ?B"
    using assms wf_encD(3) [OF assms(1)] by (simp_all add: le_div_geq le_mod_geq)
  then show ?thesis by (simp add: gen)
qed

lemma EncodedLen_0 [simp]: "wf_enc enc \<Longrightarrow> EncodedLen enc 0 = 0"
  by (simp add: EncodedLen_block)

lemma length_encode_spec: "wf_enc enc \<Longrightarrow> length (encode_spec enc src) = EncodedLen enc (length src)"
proof (induction "base256BlockLen enc" src rule: chunks.induct)
  case (1 src)
  show ?case
  proof (cases "src = []")
    case False
    show ?thesis
    proof (cases "base256BlockLen enc \<le> length src")
      case True
      with False 1 show ?thesis
        by (simp add: encode_spec_step EncodedLen_add_block [of enc "length src"] EncodedLen_full
            min_absorb1 wf_encD)
    next
      case short: False
      with False 1 show ?thesis by (simp add: encode_spec_step)
    qed
  qed (use 1 in simp)
qed

text \<open>One round of the loop, with its slices named.\<close>

lemma Encode_loop_step:
  fixes enc dst src sp dp
  defines "sLim \<equiv> min (sp + base256BlockLen enc) (length src)"
    and "dLim \<equiv> min (dp + baseXBlockLen enc) (length dst)"
  assumes wf: "wf_enc enc" and lt: "sp < length src"
    and room: "dp + EncodedLen enc (length src - sp) \<le> length dst"
  obtains e where "e = EncodedLen enc (sLim - sp)"
    "EncodedLen enc (length src - sp) = e + EncodedLen enc (length src - sLim)"
    "dp + e \<le> dLim" "dLim \<le> length dst" "dLim = dp + e \<or> sLim = length src"
    "encode_spec enc (drop sp src) =
       enc_block enc (take (sLim - sp) (drop sp src)) @ encode_spec enc (drop sLim src)"
    "Encode_loop enc dst src sp dp =
       Encode_loop enc (take dp dst @ (enc_block enc (take (sLim - sp) (drop sp src)) @
         drop e (take (dLim - dp) (drop dp dst))) @ drop dLim dst) src sLim dLim"
proof -
  define S where "S = take (sLim - sp) (drop sp src)"
  define e where "e = EncodedLen enc (length S)"
  let ?B = "base256BlockLen enc" and ?n = "length src - sp"
  have B: "0 < ?B" using wf by (rule wf_encD)
  have sLim: "sp < sLim" "sLim \<le> length src" using lt B by (auto simp: sLim_def)
  have S: "length S = sLim - sp" "length S \<le> ?B" "S = take ?B (drop sp src)"
    by (auto simp: S_def sLim_def min_def)
  have e: "e \<le> baseXBlockLen enc" unfolding e_def using wf S(2) by (rule EncodedLen_mono_block)
  have cases: "sLim = length src \<and> ?n \<le> ?B \<or> sLim = sp + ?B \<and> e = baseXBlockLen enc \<and> ?B \<le> ?n"
  proof (cases "?n \<le> ?B")
    case True
    then show ?thesis using lt by (auto simp: sLim_def)
  next
    case False
    then have "sLim = sp + ?B" by (auto simp: sLim_def)
    with False S(1) show ?thesis by (simp add: e_def EncodedLen_full)
  qed
  then have split: "EncodedLen enc ?n = e + EncodedLen enc (length src - sLim)"
    using wf S(1) by (auto simp: e_def EncodedLen_add_block [of enc ?n] EncodedLen_full diff_diff_add)
  then have dp: "dp + e \<le> dLim" "dLim \<le> length dst" using e room by (auto simp: dLim_def)
  have last: "dLim = dp + e \<or> sLim = length src" using cases dp split room by (auto simp: dLim_def)
  have step: "encode_spec enc (drop sp src) = enc_block enc S @ encode_spec enc (drop sLim src)"
    using cases lt wf S(3) by (auto simp: encode_spec_step add.commute)
  have fit: "e \<le> length (take (dLim - dp) (drop dp dst))" using dp by simp
  have "Encode_loop enc dst src sp dp =
      Encode_loop enc (take dp dst @ (enc_block enc S @ drop e (take (dLim - dp) (drop dp dst))) @
        drop dLim dst) src sLim dLim"
    using lt B encodeBlock_correct [OF wf S(2) fit [unfolded e_def]]
    by (subst Encode_loop.simps) (simp add: Let_def e_def S_def sLim_def dLim_def)
  then show thesis using that [of e] split dp last step S(1) by (simp add: S_def e_def)
qed

lemma Encode_loop_correct:
  assumes "wf_enc enc" "sp \<le> length src" "dp + EncodedLen enc (length src - sp) \<le> length dst"
  shows "Encode_loop enc dst src sp dp =
    Ok (take dp dst @ encode_spec enc (drop sp src) @ drop (dp + EncodedLen enc (length src - sp)) dst)"
  using assms
proof (induction "length src - sp" arbitrary: sp dp dst rule: less_induct)
  case less
  note wf = less.prems(1)
  show ?case
  proof (cases "sp < length src")
    case False
    then show ?thesis using less.prems by (subst Encode_loop.simps) simp
  next
    case True
    define sLim where "sLim = min (sp + base256BlockLen enc) (length src)"
    define dLim where "dLim = min (dp + baseXBlockLen enc) (length dst)"
    define blk where "blk = enc_block enc (take (sLim - sp) (drop sp src))"
    obtain e where e: "e = EncodedLen enc (sLim - sp)"
        "EncodedLen enc (length src - sp) = e + EncodedLen enc (length src - sLim)"
      and dp: "dp + e \<le> dLim" "dLim \<le> length dst" and last: "dLim = dp + e \<or> sLim = length src"
      and step: "encode_spec enc (drop sp src) = blk @ encode_spec enc (drop sLim src)"
      and loop: "Encode_loop enc dst src sp dp = Encode_loop enc (take dp dst @ (blk @
         drop e (take (dLim - dp) (drop dp dst))) @ drop dLim dst) src sLim dLim"
      unfolding sLim_def dLim_def blk_def by (rule Encode_loop_step [OF wf True less.prems(3)]) blast
    define dst' where "dst' = take dp dst @ (blk @ drop e (take (dLim - dp) (drop dp dst))) @ drop dLim dst"
    have sLim: "sp < sLim" "sLim \<le> length src" using True wf_encD(3) [OF wf] by (auto simp: sLim_def)
    then have blk: "length blk = e" by (simp add: blk_def e(1) min_absorb2)
    have len: "length dst' = length dst" using dp blk by (simp add: dst'_def)
    have "Encode_loop enc dst' src sLim dLim = Ok (take dLim dst' @ encode_spec enc (drop sLim src) @
        drop (dLim + EncodedLen enc (length src - sLim)) dst')"
      by (rule less.hyps) (use sLim wf dp last e(2) less.prems(3) len in auto)
    moreover have "take dLim dst' @ encode_spec enc (drop sLim src) @
        drop (dLim + EncodedLen enc (length src - sLim)) dst' =
      take dp dst @ (blk @ encode_spec enc (drop sLim src)) @ drop (dp + EncodedLen enc (length src - sp)) dst"
    proof (cases "sLim = length src")
      case True
      have "drop (dp + e) dst = drop e (take (dLim - dp) (drop dp dst) @ drop (dLim - dp) (drop dp dst))"
        by (metis append_take_drop_id drop_drop add.commute)
      also have "\<dots> = drop e (take (dLim - dp) (drop dp dst)) @ drop dLim dst"
        using dp by (simp add: min_absorb2)
      finally have dst': "dst' = take dp dst @ blk @ drop (dp + e) dst"
        by (simp add: dst'_def)
      have "take dLim dst' @ encode_spec enc (drop sLim src) @
          drop (dLim + EncodedLen enc (length src - sLim)) dst' = dst'"
        using True wf by simp
      then show ?thesis using True wf e(2) by (simp add: dst')
    next
      case False
      then have dLim: "dLim = dp + e" using last by blast
      then show ?thesis using blk dp e(2) by (simp add: dst'_def ac_simps)
    qed
    ultimately show ?thesis using loop step by (simp add: dst'_def)
  qed
qed

lemma Encode_correct:
  assumes "wf_enc enc" "EncodedLen enc (length src) \<le> length dst"
  shows "Encode enc dst src = Ok (encode_spec enc src @ drop (EncodedLen enc (length src)) dst)"
  using Encode_loop_correct [of enc 0 src 0 dst] assms by (simp add: Encode_def)

lemma EncodeToString_correct: "wf_enc enc \<Longrightarrow> EncodeToString enc src = Ok (encode_spec enc src)"
  by (simp add: EncodeToString_def Encode_correct)

section \<open>Decoding\<close>

text \<open>The digits of the good characters of a string, and the reference decoder on digits.\<close>

primrec goods :: "Encoding \<Rightarrow> bytes \<Rightarrow> nat list" where
  "goods enc [] = []"
| "goods enc (b # s) = (case decodeMap enc b of None \<Rightarrow> goods enc s | Some v \<Rightarrow> v # goods enc s)"

definition dec_block :: "Encoding \<Rightarrow> nat list \<Rightarrow> bytes" where
  "dec_block enc ds =
     (let n = DecodedLen enc (length ds); raw = nat_be (digits_val (base enc) ds); p = n - length raw
      in replicate p 0 @ take (n - p) raw)"

fun dec_chunks :: "Encoding \<Rightarrow> nat list list \<Rightarrow> bytes \<times> err option" where
  "dec_chunks enc [] = ([], None)"
| "dec_chunks enc (c # cs) =
     (if \<not> IsValidEncodingLength enc (length c) then ([], Some ErrInvalidEncodingLength)
      else (case dec_chunks enc cs of (out, e) \<Rightarrow> (dec_block enc c @ out, e)))"

definition decode_spec :: "Encoding \<Rightarrow> nat list \<Rightarrow> bytes \<times> err option" where
  "decode_spec enc ds = dec_chunks enc (chunks (baseXBlockLen enc) ds)"

lemma goods_append [simp]: "goods enc (s @ t) = goods enc s @ goods enc t"
  by (induction s) (auto split: option.splits)

lemma length_goods: "length (goods enc s) \<le> length s"
  by (induction s) (auto split: option.splits)

lemma goods_alphabet: "wf_enc enc \<Longrightarrow> \<forall>d\<in>set ds. d < base enc \<Longrightarrow> goods enc (map (\<lambda>d. encode enc ! d) ds) = ds"
  by (induction ds) (auto simp: wf_enc_decode)

lemma length_dec_block [simp]: "length (dec_block enc ds) = DecodedLen enc (length ds)"
  by (simp add: dec_block_def Let_def)

lemma floor_log256_1 [simp]: "floor_log256 (Suc 0) = 0"
  by (subst floor_log256.simps) simp

lemma DecodedLen_gen:
  "wf_enc enc \<Longrightarrow> DecodedLen enc k =
     k div baseXBlockLen enc * base256BlockLen enc + floor_log256 (base enc ^ (k mod baseXBlockLen enc))"
  using baseXBlockLen_pos [of enc] by (auto simp: DecodedLen_def Let_def)

lemma dec_block_Nil: "wf_enc enc \<Longrightarrow> dec_block enc [] = []"
  by (simp add: dec_block_def Let_def DecodedLen_gen)

lemma floor_log256_mono: "0 < u \<Longrightarrow> u \<le> v \<Longrightarrow> floor_log256 u \<le> floor_log256 v"
  by (subst le_floor_log256_iff) (use floor_log256_lower [of u] in auto)

lemma floor_log_partial:
  assumes "wf_enc enc" "r \<le> baseXBlockLen enc"
  shows "floor_log256 (base enc ^ r) \<le> base256BlockLen enc"
proof -
  have "floor_log256 (base enc ^ r) \<le> floor_log256 (base enc ^ baseXBlockLen enc)"
    using assms wf_enc_base_pos [OF assms(1)] by (intro floor_log256_mono power_increasing) auto
  also have "\<dots> = base256BlockLen enc"
    using floor_log_EncodedLen [OF assms(1) order_refl] by (simp add: EncodedLen_full)
  finally show ?thesis .
qed

lemma DecodedLen_mono:
  assumes wf: "wf_enc enc" and "m \<le> n"
  shows "DecodedLen enc m \<le> DecodedLen enc n"
proof -
  let ?X = "baseXBlockLen enc" and ?B = "base256BlockLen enc"
  let ?f = "\<lambda>k. floor_log256 (base enc ^ (k mod ?X))"
  have X: "0 < ?X" using wf by (rule baseXBlockLen_pos)
  have "m div ?X \<le> n div ?X" using assms(2) by (rule div_le_mono)
  then consider "m div ?X = n div ?X" | "Suc (m div ?X) \<le> n div ?X" by linarith
  then show ?thesis
  proof cases
    case 1
    then have "m mod ?X \<le> n mod ?X"
      using assms(2) by (metis add_le_cancel_left div_mult_mod_eq)
    then have "?f m \<le> ?f n"
      using wf_enc_base_pos [OF wf] by (intro floor_log256_mono power_increasing) auto
    with 1 wf show ?thesis by (simp add: DecodedLen_gen)
  next
    case 2
    have "?f m \<le> ?B" using X by (intro floor_log_partial [OF wf]) simp
    then have "m div ?X * ?B + ?f m \<le> Suc (m div ?X) * ?B" by simp
    also have "\<dots> \<le> n div ?X * ?B" using 2 by (rule mult_le_mono1)
    finally show ?thesis using wf by (simp add: DecodedLen_gen)
  qed
qed

lemma DecodedLen_add_block:
  "wf_enc enc \<Longrightarrow> DecodedLen enc (baseXBlockLen enc + k) = base256BlockLen enc + DecodedLen enc k"
  using baseXBlockLen_pos [of enc] by (simp add: DecodedLen_gen div_add_self1)

lemma DecodedLen_0 [simp]: "wf_enc enc \<Longrightarrow> DecodedLen enc 0 = 0"
  by (simp add: DecodedLen_gen)

text \<open>
  The scan over valid characters takes exactly what completes the block, skipped characters
  included.
\<close>

lemma decode_scan_valid:
  assumes "\<forall>b\<in>set s. IsValidByte enc b" "g < baseXBlockLen enc"
  shows "\<exists>s1 s2. s = s1 @ s2 \<and> goods enc s1 = take (baseXBlockLen enc - g) (goods enc s) \<and>
    goods enc s2 = drop (baseXBlockLen enc - g) (goods enc s) \<and>
    decode_scan enc s bo si g res = Ok (si + length s1, g + length (goods enc s1),
      foldl (\<lambda>acc d. acc * base enc + d) res (goods enc s1))"
  using assms
proof (induction s arbitrary: si g res)
  case Nil
  then show ?case by simp
next
  case (Cons b s)
  show ?case
  proof (cases "decodeMap enc b")
    case None
    then have skip: "skipMap enc b" using Cons.prems by (simp add: IsValidByte_def)
    obtain s1 s2 where s: "s = s1 @ s2" "goods enc s1 = take (baseXBlockLen enc - g) (goods enc s)"
      "goods enc s2 = drop (baseXBlockLen enc - g) (goods enc s)"
      "decode_scan enc s bo (Suc si) g res = Ok (Suc si + length s1, g + length (goods enc s1),
        foldl (\<lambda>acc d. acc * base enc + d) res (goods enc s1))"
      using Cons.IH [of g "Suc si" res] Cons.prems by (metis list.set_intros(2))
    show ?thesis
    proof (intro exI conjI)
      show "b # s = (b # s1) @ s2" using s(1) by simp
    qed (use None skip s(2-) in simp_all)
  next
    case (Some v)
    show ?thesis
    proof (cases "Suc g = baseXBlockLen enc")
      case True
      then have "baseXBlockLen enc - g = 1" by simp
      with True Some show ?thesis by (intro exI [of _ "[b]"] exI [of _ s]) simp
    next
      case False
      then have lt: "Suc g < baseXBlockLen enc" using Cons.prems by simp
      then have step: "baseXBlockLen enc - g = Suc (baseXBlockLen enc - Suc g)" by simp
      obtain s1 s2 where s: "s = s1 @ s2" "goods enc s1 = take (baseXBlockLen enc - Suc g) (goods enc s)"
        "goods enc s2 = drop (baseXBlockLen enc - Suc g) (goods enc s)"
        "decode_scan enc s bo (Suc si) (Suc g) (res * base enc + v) =
          Ok (Suc si + length s1, Suc g + length (goods enc s1),
            foldl (\<lambda>acc d. acc * base enc + d) (res * base enc + v) (goods enc s1))"
        using Cons.IH [of "Suc g" "Suc si" "res * base enc + v"] Cons.prems lt
        by (metis list.set_intros(2))
      show ?thesis
      proof (intro exI conjI)
        show "b # s = (b # s1) @ s2" using s(1) by simp
      qed (use Some False step s(2-) in simp_all)
    qed
  qed
qed

lemma decodeBlock_valid:
  assumes wf: "wf_enc enc" and valid: "\<forall>b\<in>set s. IsValidByte enc b"
    and room: "DecodedLen enc (length (goods enc s)) \<le> length dst"
  shows "\<exists>s1 s2. s = s1 @ s2 \<and> goods enc s1 = take (baseXBlockLen enc) (goods enc s) \<and>
    goods enc s2 = drop (baseXBlockLen enc) (goods enc s) \<and>
    decodeBlock enc dst s bo =
      (if IsValidEncodingLength enc (length (goods enc s1))
       then Ok (dec_block enc (goods enc s1) @ drop (DecodedLen enc (length (goods enc s1))) dst,
                DecodedLen enc (length (goods enc s1)), length s1)
       else Err ErrInvalidEncodingLength)"
proof -
  obtain s1 s2 where s: "s = s1 @ s2" "goods enc s1 = take (baseXBlockLen enc) (goods enc s)"
    "goods enc s2 = drop (baseXBlockLen enc) (goods enc s)"
    "decode_scan enc s bo 0 0 0 = Ok (length s1, length (goods enc s1),
      foldl (\<lambda>acc d. acc * base enc + d) 0 (goods enc s1))"
    using decode_scan_valid [OF valid baseXBlockLen_pos [OF wf], of bo 0 0]
    unfolding minus_nat.diff_0 add_0 by blast
  have "length (goods enc s1) \<le> length (goods enc s)" using s(2) by simp
  then have "DecodedLen enc (length (goods enc s1)) \<le> length dst"
    using DecodedLen_mono [OF wf] room le_trans by blast
  then have "decodeBlock enc dst s bo =
      (if IsValidEncodingLength enc (length (goods enc s1))
       then Ok (dec_block enc (goods enc s1) @ drop (DecodedLen enc (length (goods enc s1))) dst,
                DecodedLen enc (length (goods enc s1)), length s1)
       else Err ErrInvalidEncodingLength)"
    using s(4) by (simp add: decodeBlock_def Let_def dec_block_def digits_val_def)
  with s(1-3) show ?thesis by blast
qed

lemma decode_loop_valid:
  assumes wf: "wf_enc enc" and "sp \<le> length src" "dp \<le> length dst"
    and "\<forall>b\<in>set (drop sp src). IsValidByte enc b"
    and "dp + DecodedLen enc (length (goods enc (drop sp src))) \<le> length dst"
    and "decode_spec enc (goods enc (drop sp src)) = (out, e)"
  shows "\<exists>rest. decode_loop enc dst src sp dp = Ok (take dp dst @ out @ rest, dp + length out, e)"
  using assms(2-)
proof (induction "length src - sp" arbitrary: sp dp dst out rule: less_induct)
  case less
  show ?case
  proof (cases "sp < length src")
    case False
    then have "out = [] \<and> e = None" using less.prems by (simp add: decode_spec_def)
    with False show ?thesis
      by (subst decode_loop.simps) (auto intro!: exI [of _ "drop dp dst"])
  next
    case True
    let ?s = "drop sp src" and ?X = "baseXBlockLen enc"
    have X: "0 < ?X" using wf by (rule baseXBlockLen_pos)
    obtain s1 s2 where s: "?s = s1 @ s2" "goods enc s1 = take ?X (goods enc ?s)"
      "goods enc s2 = drop ?X (goods enc ?s)"
      and blk: "decodeBlock enc (drop dp dst) ?s sp =
        (if IsValidEncodingLength enc (length (goods enc s1))
         then Ok (dec_block enc (goods enc s1) @ drop (DecodedLen enc (length (goods enc s1))) (drop dp dst),
                  DecodedLen enc (length (goods enc s1)), length s1)
         else Err ErrInvalidEncodingLength)"
    proof -
      have "DecodedLen enc (length (goods enc ?s)) \<le> length (drop dp dst)" using less.prems(4) by simp
      from decodeBlock_valid [OF wf less.prems(3) this, of sp] show thesis using that by blast
    qed
    let ?g = "goods enc s1" and ?n = "DecodedLen enc (length (goods enc s1))"
    have ch: "dec_chunks enc (chunks ?X (goods enc ?s)) = (out, e)"
      using less.prems(5) by (simp add: decode_spec_def)
    show ?thesis
    proof (cases "IsValidEncodingLength enc (length ?g)")
      case False
      then have "goods enc ?s \<noteq> []"
        using s(2) by (auto simp: IsValidEncodingLength_def floorLen_def)
      then have "out = [] \<and> e = Some ErrInvalidEncodingLength"
        using ch False s(2) X by (simp add: chunks_step)
      with True False blk show ?thesis
        by (subst decode_loop.simps) (auto intro!: exI [of _ "drop dp dst"])
    next
      case valid: True
      let ?dst = "take dp dst @ dec_block enc ?g @ drop ?n (drop dp dst)"
      have blk_Ok: "decodeBlock enc (drop dp dst) ?s sp =
          Ok (dec_block enc ?g @ drop ?n (drop dp dst), ?n, length s1)"
        using blk valid by simp
      have s1: "0 < length s1" by (rule decodeBlock_progress [OF blk_Ok]) (use True in simp)
      have s2: "drop (sp + length s1) src = s2"
        using arg_cong [OF s(1), of "drop (length s1)"] by (simp add: add.commute)
      have len1: "sp + length s1 \<le> length src"
        using arg_cong [OF s(1), of length] True by simp
      have shrinks: "length src - (sp + length s1) < length src - sp" using s1 len1 by linarith
      have room: "?n + DecodedLen enc (length (goods enc s2)) = DecodedLen enc (length (goods enc ?s))"
      proof (cases "?X \<le> length (goods enc ?s)")
        case True
        then have "length ?g = ?X" "length (goods enc ?s) = ?X + length (goods enc s2)"
          using s(2,3) by simp_all
        then show ?thesis using wf DecodedLen_add_block [OF wf, of 0] by (simp add: DecodedLen_add_block)
      qed (use s(2,3) wf in simp)
      obtain out' where out: "out = dec_block enc ?g @ out'" "decode_spec enc (goods enc s2) = (out', e)"
      proof (cases "goods enc ?s = []")
        case True
        then have "?g = []" "goods enc s2 = []" using s(2,3) by simp_all
        then show thesis
          using that [of out] ch True dec_block_Nil [OF wf] by (simp add: decode_spec_def)
      next
        case False
        then show thesis using that ch valid s(2,3) X
          by (auto simp: chunks_step decode_spec_def split: prod.splits)
      qed
      have "\<exists>rest. decode_loop enc ?dst src (sp + length s1) (dp + ?n) =
          Ok (take (dp + ?n) ?dst @ out' @ rest, dp + ?n + length out', e)"
      proof (rule less.hyps)
        show "\<forall>b\<in>set (drop (sp + length s1) src). IsValidByte enc b"
          using less.prems(3) s(1) s2 by simp
      qed (use s1 s2 len1 room less.prems(1,2,4) out(2) shrinks in auto)
      moreover have "take (dp + ?n) ?dst = take dp dst @ dec_block enc ?g"
        using less.prems(2) by simp
      ultimately show ?thesis
        using True blk_Ok out(1) less.prems(2) by (subst decode_loop.simps) (simp add: add.assoc)
    qed
  qed
qed

lemma Decode_valid:
  assumes "wf_enc enc" "\<forall>b\<in>set src. IsValidByte enc b"
    and "DecodedLen enc (length (goods enc src)) \<le> length dst"
    and "decode_spec enc (goods enc src) = (out, e)"
  obtains rest where "Decode enc dst src = Ok (out @ rest, length out, e)"
  using decode_loop_valid [of enc 0 src 0 dst out e] assms by (auto simp: Decode_def)

lemma DecodeString_valid:
  assumes wf: "wf_enc enc" and "\<forall>b\<in>set s. IsValidByte enc b"
  shows "DecodeString enc s = Ok (decode_spec enc (goods enc s))"
proof (cases "decode_spec enc (goods enc s)")
  case (Pair out e)
  have "DecodedLen enc (length (goods enc s)) \<le> length (replicate (DecodedLen enc (length s)) (0 :: byte))"
    using DecodedLen_mono [OF wf length_goods] by simp
  then obtain rest where "Decode enc (replicate (DecodedLen enc (length s)) 0) s = Ok (out @ rest, length out, e)"
    by (rule Decode_valid [OF assms _ Pair])
  with Pair show ?thesis by (simp add: DecodeString_def)
qed

section \<open>Decoding inverts encoding\<close>

lemma goods_enc_block:
  "wf_enc enc \<Longrightarrow> goods enc (enc_block enc src) =
     digits (base enc) (EncodedLen enc (length src)) (be_nat src)"
  unfolding enc_block_def
  by (rule goods_alphabet) (use digits_less wf_enc_base_pos in blast)+

lemma enc_block_valid: "wf_enc enc \<Longrightarrow> b \<in> set (enc_block enc src) \<Longrightarrow> IsValidByte enc b"
proof -
  assume wf: "wf_enc enc" and "b \<in> set (enc_block enc src)"
  then obtain d where "d < base enc" "b = encode enc ! d"
    using digits_less [OF wf_enc_base_pos [OF wf]] by (auto simp: enc_block_def)
  then show ?thesis by (simp add: IsValidByte_def wf_enc_decode [OF wf])
qed

lemma encode_spec_valid: "wf_enc enc \<Longrightarrow> b \<in> set (encode_spec enc src) \<Longrightarrow> IsValidByte enc b"
  by (auto simp: encode_spec_def enc_block_valid)

lemma dec_block_enc_block:
  assumes wf: "wf_enc enc" and "length src \<le> base256BlockLen enc"
  shows "dec_block enc (goods enc (enc_block enc src)) = src"
proof -
  have "be_nat src < base enc ^ EncodedLen enc (length src)"
    using be_nat_bound EncodedLen_fits [OF assms] by (rule order_less_le_trans)
  moreover have "length (nat_be (be_nat src)) \<le> length src" by (rule length_nat_be_le) (rule be_nat_bound)
  ultimately show ?thesis
    using assms by (simp add: dec_block_def Let_def goods_enc_block digits_val_digits DecodedLen_EncodedLen
        pad_nat_be)
qed

lemma decode_spec_encode_spec:
  assumes wf: "wf_enc enc"
  shows "decode_spec enc (goods enc (encode_spec enc src)) = (src, None)"
proof (induction "base256BlockLen enc" src rule: chunks.induct)
  case (1 src)
  show ?case
  proof (cases "src = []")
    case False
    let ?B = "base256BlockLen enc" and ?X = "baseXBlockLen enc"
    let ?c = "take ?B src" and ?r = "drop ?B src"
    let ?gc = "goods enc (enc_block enc ?c)"
    have c: "length ?c \<le> ?B" by simp
    have B: "0 < ?B" using wf by (rule wf_encD)
    have IH: "decode_spec enc (goods enc (encode_spec enc ?r)) = (?r, None)" using 1 B False by simp
    have lc: "length ?gc = EncodedLen enc (length ?c)" using wf by (simp add: goods_enc_block)
    have gc: "?gc \<noteq> []"
      using dec_block_enc_block [OF wf c] dec_block_Nil [OF wf] False B by fastforce
    have "chunks ?X (?gc @ goods enc (encode_spec enc ?r)) =
        ?gc # chunks ?X (goods enc (encode_spec enc ?r))"
    proof (cases "?B \<le> length src")
      case True
      then have "length ?gc = ?X" using lc by (simp add: min_absorb2 EncodedLen_full)
      then show ?thesis using gc baseXBlockLen_pos [OF wf] by (simp add: chunks_step)
    next
      case short: False
      moreover have "length ?gc \<le> ?X" using EncodedLen_mono_block [OF wf c] lc by simp
      ultimately show ?thesis using gc baseXBlockLen_pos [OF wf] by (simp add: chunks_short)
    qed
    moreover have "IsValidEncodingLength enc (length ?gc)"
      unfolding lc by (rule IsValid_EncodedLen [OF wf c])
    ultimately show ?thesis
      using IH False by (simp add: encode_spec_step [OF wf] decode_spec_def dec_block_enc_block [OF wf c])
  qed (simp add: decode_spec_def)
qed

end
