(* ===== verification/Basex_Props.thy ===== *)
theory Basex_Props
  imports Basex_Correct
begin

text \<open>
  What users of \<open>encoding/basex\<close> rely on: the round trip, the transparency of skipped
  characters, the position a corrupt character is reported at, and what happens to a block whose
  value does not fit (the armor specification calls such a block illegal).
\<close>

section \<open>The repository's alphabets\<close>

lemma base62_distinct: "distinct base62EncodeStd" "length base62EncodeStd = 62"
  by (code_simp, simp add: base62EncodeStd_def)

lemma base58_distinct: "distinct base58EncodeStd" "length base58EncodeStd = 58"
  by (code_simp, simp add: base58EncodeStd_def)

lemma Base62_wf [simp]: "wf_enc Base62StdEncoding" "wf_enc Base62StdEncodingStrict"
  by (simp_all add: Base62StdEncoding_def Base62StdEncodingStrict_def NewEncoding_wf base62_distinct)

lemma Base58_wf [simp]: "wf_enc Base58StdEncoding" "wf_enc Base58StdEncodingStrict"
  by (simp_all add: Base58StdEncoding_def Base58StdEncodingStrict_def NewEncoding_wf base58_distinct)

text \<open>The alphabet as bytes, so that membership and indexing evaluate by rewriting.\<close>

lemma base62_bytes: "base62EncodeStd =
    [48, 49, 50, 51, 52, 53, 54, 55, 56, 57,
     65, 66, 67, 68, 69, 70, 71, 72, 73, 74, 75, 76, 77, 78, 79, 80, 81, 82, 83, 84, 85, 86, 87, 88, 89, 90,
     97, 98, 99, 100, 101, 102, 103, 104, 105, 106, 107, 108, 109, 110, 111, 112, 113, 114, 115, 116, 117, 118, 119, 120, 121, 122]"
  by (simp add: base62EncodeStd_def ascii_def)

lemma NewEncoding_sel [simp]:
  "encode (NewEncoding xs n skip) = xs" "base256BlockLen (NewEncoding xs n skip) = n"
  "baseXBlockLen (NewEncoding xs n skip) = least_exp (length xs) (256 ^ n)"
  "base (NewEncoding xs n skip) = length xs"
  by (simp_all add: NewEncoding_def)

lemma Base62_sel [simp]:
  "base Base62StdEncoding = 62" "base256BlockLen Base62StdEncoding = 32"
  by (simp_all only: Base62StdEncoding_def NewEncoding_sel base62_distinct)

lemma least_exp_base62: "least_exp 62 (256 ^ 32) = 43"
proof (rule antisym)
  show "least_exp 62 (256 ^ 32) \<le> 43" by (subst least_exp_le_iff) simp_all
  have "42 < least_exp 62 (256 ^ 32)" by (subst less_least_exp_iff) simp_all
  then show "43 \<le> least_exp 62 (256 ^ 32)" by simp
qed

lemma Base62_blockX [simp]: "baseXBlockLen Base62StdEncoding = 43"
  by (simp only: Base62StdEncoding_def NewEncoding_sel base62_distinct least_exp_base62)

lemma IsValidByte_NewEncoding:
  "IsValidByte (NewEncoding xs n skip) b \<longleftrightarrow> b \<in> set xs \<or> b \<in> set skip"
  using decode_table_None [of b xs]
  by (auto simp: IsValidByte_def NewEncoding_def decode_table_def decode_table_fold in_set_conv_nth)

lemma IsValidByte_Base62:
  "IsValidByte Base62StdEncoding b \<longleftrightarrow> b \<in> set base62EncodeStd \<or> b \<in> {9, 10, 13, 32, 62}"
  by (simp add: Base62StdEncoding_def IsValidByte_NewEncoding ascii_def)

section \<open>Corrupt characters\<close>

lemma decode_scan_corrupt:
  assumes "\<forall>c\<in>set s1. IsValidByte enc c" "\<not> IsValidByte enc b" "g < baseXBlockLen enc"
  shows "decode_scan enc (s1 @ b # s2) bo si g res =
    (if baseXBlockLen enc - g \<le> length (goods enc s1) then decode_scan enc s1 bo si g res
     else Err (CorruptInputError (si + length s1 + bo)))"
  using assms
proof (induction s1 arbitrary: si g res)
  case Nil
  then show ?case by (simp add: IsValidByte_def)
next
  case (Cons c s1)
  show ?case
  proof (cases "decodeMap enc c")
    case None
    then show ?thesis using Cons.IH [of g "Suc si" res] Cons.prems by (simp add: IsValidByte_def)
  next
    case (Some v)
    show ?thesis
    proof (cases "Suc g = baseXBlockLen enc")
      case True
      then show ?thesis using Some by simp
    next
      case False
      then have "Suc g < baseXBlockLen enc" using Cons.prems by simp
      then show ?thesis
        using Some False Cons.IH [of "Suc g" "Suc si" "res * base enc + v"] Cons.prems
        by (simp add: Suc_diff_Suc [symmetric])
    qed
  qed
qed

lemma decodeBlock_corrupt:
  assumes wf: "wf_enc enc" and "\<forall>c\<in>set s1. IsValidByte enc c" "\<not> IsValidByte enc b"
  shows "decodeBlock enc dst (s1 @ b # s2) bo =
    (if baseXBlockLen enc \<le> length (goods enc s1) then decodeBlock enc dst s1 bo
     else Err (CorruptInputError (length s1 + bo)))"
  using decode_scan_corrupt [OF assms(2,3) baseXBlockLen_pos [OF wf], of s2 bo 0 0]
  by (simp add: decodeBlock_def)

lemma decode_loop_corrupt:
  assumes wf: "wf_enc enc" and bad: "\<not> IsValidByte enc b"
    and "sp \<le> length src" "drop sp src = s1 @ b # s2" "\<forall>c\<in>set s1. IsValidByte enc c"
    and "dp + DecodedLen enc (length (goods enc s1)) \<le> length dst"
  shows "\<exists>dst' n. decode_loop enc dst src sp dp = Ok (dst', n, Some (CorruptInputError (sp + length s1)))"
  using assms(3-)
proof (induction "length src - sp" arbitrary: sp dp dst s1 rule: less_induct)
  case less
  let ?X = "baseXBlockLen enc"
  have lt: "sp < length src" using less.prems(2) by (cases "sp < length src") simp_all
  show ?case
  proof (cases "?X \<le> length (goods enc s1)")
    case False
    then have "decodeBlock enc (drop dp dst) (drop sp src) sp = Err (CorruptInputError (length s1 + sp))"
      using decodeBlock_corrupt [OF wf less.prems(3) bad] less.prems(2) by simp
    with lt show ?thesis by (subst decode_loop.simps) (simp add: add.commute)
  next
    case True
    have "DecodedLen enc (length (goods enc s1)) \<le> length (drop dp dst)" using less.prems(4) by simp
    from decodeBlock_valid [OF wf less.prems(3) this, of sp]
    obtain t1 t2 where t: "s1 = t1 @ t2" "goods enc t1 = take ?X (goods enc s1)"
        "goods enc t2 = drop ?X (goods enc s1)"
      and blk: "decodeBlock enc (drop dp dst) s1 sp =
        (if IsValidEncodingLength enc (length (goods enc t1))
         then Ok (dec_block enc (goods enc t1) @ drop (DecodedLen enc (length (goods enc t1))) (drop dp dst),
                DecodedLen enc (length (goods enc t1)), length t1)
         else Err ErrInvalidEncodingLength)" by blast
    have X: "length (goods enc t1) = ?X" using t(2) True by simp
    let ?B = "base256BlockLen enc"
    let ?dst = "take dp dst @ dec_block enc (goods enc t1) @ drop ?B (drop dp dst)"
    have B: "DecodedLen enc ?X = ?B" using wf DecodedLen_add_block [OF wf, of 0] by simp
    have blk_Ok: "decodeBlock enc (drop dp dst) (drop sp src) sp =
        Ok (dec_block enc (goods enc t1) @ drop ?B (drop dp dst), ?B, length t1)"
      using decodeBlock_corrupt [OF wf less.prems(3) bad] less.prems(2) True blk X B
      by (simp add: IsValidEncodingLength_def)
    have t1: "0 < length t1" by (rule decodeBlock_progress [OF blk_Ok]) (use lt in simp)
    have next_s: "drop (sp + length t1) src = t2 @ b # s2"
      using arg_cong [OF less.prems(2), of "drop (length t1)"] t(1) by (simp add: add.commute)
    have room: "?B + DecodedLen enc (length (goods enc t2)) = DecodedLen enc (length (goods enc s1))"
      using t(3) True DecodedLen_add_block [OF wf, of "length (goods enc s1) - ?X"] by simp
    have len: "sp + length t1 < length src"
    proof (rule ccontr)
      assume "\<not> sp + length t1 < length src"
      then have "drop (sp + length t1) src = []" by simp
      with next_s show False by simp
    qed
    have "\<exists>dst' n. decode_loop enc ?dst src (sp + length t1) (dp + ?B) =
        Ok (dst', n, Some (CorruptInputError (sp + length t1 + length t2)))"
    proof (rule less.hyps)
      show "\<forall>c\<in>set t2. IsValidByte enc c" using less.prems(3) t(1) by simp
      show "dp + ?B + DecodedLen enc (length (goods enc t2)) \<le> length ?dst"
        using room less.prems(4) X B by simp
      show "length src - (sp + length t1) < length src - sp" using t1 len by linarith
    qed (use len next_s in simp_all)
    then show ?thesis
      using lt blk_Ok t(1) by (subst decode_loop.simps) (simp add: add.assoc)
  qed
qed

section \<open>Blocks whose value is too large\<close>

lemma digits_val_less:
  assumes "0 < b"
  shows "\<forall>d\<in>set ds. d < b \<Longrightarrow> digits_val b ds < b ^ length ds"
proof (induction ds rule: rev_induct)
  case (snoc d ds)
  then show ?case
    using radix_less [of "digits_val b ds" "b ^ length ds" d b] by (simp add: mult.commute)
qed (simp add: digits_val_def)

lemma digits_val_top: "0 < b \<Longrightarrow> digits_val b (replicate n (b - 1)) = b ^ n - 1"
proof (induction n)
  case (Suc n)
  have "replicate (Suc n) (b - 1) = replicate n (b - 1) @ [b - 1]" by (simp add: replicate_append_same)
  then have "digits_val b (replicate (Suc n) (b - 1)) = (b ^ n - 1) * b + (b - 1)"
    using Suc by (simp only: digits_val_snoc)
  then show ?case using Suc.prems by (simp add: algebra_simps diff_mult_distrib)
qed (simp add: digits_val_def)

lemma goods_less: "wf_enc enc \<Longrightarrow> \<forall>d\<in>set (goods enc s). d < base enc"
  by (induction s) (auto split: option.splits dest: wf_enc_decode_lt)

lemma length_nat_be: "256 ^ k \<le> v \<Longrightarrow> v < 256 ^ Suc k \<Longrightarrow> length (nat_be v) = Suc k"
proof (induction k arbitrary: v)
  case 0
  then show ?case by (simp add: nat_be_pos)
next
  case (Suc k)
  have "256 ^ k \<le> v div 256"
    using Suc.prems(1) by (simp add: less_eq_div_iff_mult_less_eq mult.commute)
  moreover have "v div 256 < 256 ^ Suc k"
    using Suc.prems(2) by (simp add: less_mult_imp_div_less mult.commute)
  ultimately have "length (nat_be (v div 256)) = Suc k" by (rule Suc.IH)
  moreover have "0 < v" using Suc.prems(1) by (metis gr0I not_le zero_less_numeral zero_less_power)
  ultimately show ?case by (simp add: nat_be_pos)
qed

lemma full_block_bound:
  assumes wf: "wf_enc enc" and "length ds = baseXBlockLen enc" "\<forall>d\<in>set ds. d < base enc"
  shows "digits_val (base enc) ds < 256 ^ Suc (base256BlockLen enc)"
proof -
  let ?B = "base256BlockLen enc"
  have "digits_val (base enc) ds < base enc ^ baseXBlockLen enc"
    using digits_val_less [OF wf_enc_base_pos [OF wf] assms(3)] assms(2) by simp
  also have "\<dots> < 256 ^ Suc ?B"
  proof -
    have "\<not> Suc ?B \<le> floor_log256 (base enc ^ baseXBlockLen enc)"
      using floor_log_partial [OF wf order_refl] by simp
    then show ?thesis using wf_enc_base_pos [OF wf] by (subst (asm) le_floor_log256_iff) simp_all
  qed
  finally show ?thesis .
qed

lemma goods_filter: "goods enc (List.filter (\<lambda>b. getByteType enc b = normalByteType) s) = goods enc s"
proof (induction s)
  case (Cons c s)
  then show ?case by (cases "decodeMap enc c") (simp_all add: getByteType_def)
qed simp

lemma goods_replicate: "decodeMap enc b = Some v \<Longrightarrow> goods enc (replicate n b) = replicate n v"
  by (induction n) simp_all

section \<open>Properties\<close>

text \<open>
  C12: decoding inverts encoding. For every encoding made from distinct bytes, every byte string
  encodes without panicking and decodes back to itself without error, whatever its length and
  whatever bytes are skipped.
\<close>

theorem decode_encode_roundtrip:
  assumes "distinct xs" "2 \<le> length xs" "0 < n"
  shows "bind_out (EncodeToString (NewEncoding xs n skip) src) (DecodeString (NewEncoding xs n skip)) =
    Ok (src, None)"
  using NewEncoding_wf [OF assms, of skip]
  by (simp add: EncodeToString_correct DecodeString_valid encode_spec_valid decode_spec_encode_spec)

theorem decode_encode_roundtrip_witness:
  "bind_out (EncodeToString (NewEncoding base62EncodeStd 32 []) [0, 255, 7])
     (DecodeString (NewEncoding base62EncodeStd 32 [])) = Ok ([0, 255, 7], None)"
  by (rule decode_encode_roundtrip) (simp_all add: base62_distinct)

text \<open>
  C13: the encoder writes exactly \<open>EncodedLen\<close> characters, all of them from the alphabet, and
  the characters are the base-\<open>b\<close> digits of each block: the reference \<open>encode_spec\<close>.
\<close>

theorem EncodeToString_spec:
  assumes "wf_enc enc"
  shows "EncodeToString enc src = Ok (encode_spec enc src) \<and>
    length (encode_spec enc src) = EncodedLen enc (length src) \<and>
    set (encode_spec enc src) \<subseteq> set (encode enc)"
proof (intro conjI subsetI)
  show "EncodeToString enc src = Ok (encode_spec enc src)" using assms by (rule EncodeToString_correct)
  show "length (encode_spec enc src) = EncodedLen enc (length src)" using assms by (rule length_encode_spec)
next
  fix c assume "c \<in> set (encode_spec enc src)"
  then show "c \<in> set (encode enc)"
    using digits_less [OF wf_enc_base_pos [OF assms]] wf_encD(4) [OF assms]
    by (fastforce simp: encode_spec_def enc_block_def)
qed

theorem EncodeToString_spec_witness:
  "EncodeToString Base62StdEncoding [1, 2, 3] = Ok (encode_spec Base62StdEncoding [1, 2, 3]) \<and>
   length (encode_spec Base62StdEncoding [1, 2, 3]) = EncodedLen Base62StdEncoding 3 \<and>
   set (encode_spec Base62StdEncoding [1, 2, 3]) \<subseteq> set (encode Base62StdEncoding)"
  using EncodeToString_spec [of Base62StdEncoding "[1, 2, 3]"] by (simp add: numeral_3_eq_3)

text \<open>
  Skipped characters are transparent: a string of valid characters decodes, bytes and error
  alike, as the string of its alphabet characters alone.
\<close>

theorem DecodeString_ignores_skip:
  assumes "wf_enc enc" and "\<forall>b\<in>set s. IsValidByte enc b"
  shows "DecodeString enc s = DecodeString enc (List.filter (\<lambda>b. getByteType enc b = normalByteType) s)"
proof -
  let ?s = "List.filter (\<lambda>b. getByteType enc b = normalByteType) s"
  have "goods enc ?s = goods enc s" by (rule goods_filter)
  moreover have "\<forall>b\<in>set ?s. IsValidByte enc b" using assms(2) by simp
  ultimately show ?thesis using assms by (simp add: DecodeString_valid)
qed

theorem DecodeString_ignores_skip_witness:
  "DecodeString Base62StdEncoding (ascii ''7 Z'') =
   DecodeString Base62StdEncoding
     (List.filter (\<lambda>b. getByteType Base62StdEncoding b = normalByteType) (ascii ''7 Z''))"
  by (rule DecodeString_ignores_skip) (simp_all add: IsValidByte_Base62 base62_bytes ascii_def)

text \<open>
  C14: the first character that is neither in the alphabet nor skipped stops the decoder with
  \<open>CorruptInputError\<close> at exactly its index, also when earlier blocks have been decoded.
\<close>

theorem DecodeString_corrupt:
  assumes wf: "wf_enc enc" and valid: "\<forall>c\<in>set s1. IsValidByte enc c" and bad: "\<not> IsValidByte enc b"
  shows "\<exists>out. DecodeString enc (s1 @ b # s2) = Ok (out, Some (CorruptInputError (length s1)))"
proof -
  have "length (goods enc s1) \<le> length (s1 @ b # s2)" using length_goods [of enc s1] by simp
  then have "DecodedLen enc (length (goods enc s1)) \<le> DecodedLen enc (length (s1 @ b # s2))"
    by (rule DecodedLen_mono [OF wf])
  then have "\<exists>dst' n. Decode enc (replicate (DecodedLen enc (length (s1 @ b # s2))) 0) (s1 @ b # s2) =
      Ok (dst', n, Some (CorruptInputError (length s1)))"
    unfolding Decode_def
    using decode_loop_corrupt [OF wf bad, of 0 "s1 @ b # s2" s1 s2 0] valid by simp
  then show ?thesis by (auto simp: DecodeString_def)
qed

theorem DecodeString_corrupt_witness:
  "\<exists>out. DecodeString Base62StdEncoding (ascii ''a b'' @ 0 # ascii ''c'') =
     Ok (out, Some (CorruptInputError (length (ascii ''a b''))))"
  by (rule DecodeString_corrupt) (simp_all add: IsValidByte_Base62 base62_bytes ascii_def)

text \<open>
  C15: a full block whose value does not fit in a block of bytes is not rejected. The decoder
  returns no error and drops the lowest byte of the value, because the copy keeps the leading
  bytes. The armor specification calls such a block illegal and asks for an error.
\<close>

theorem oversized_block_truncated:
  assumes wf: "wf_enc enc" and "\<forall>b\<in>set s. IsValidByte enc b"
    and len: "length (goods enc s) = baseXBlockLen enc"
    and big: "256 ^ base256BlockLen enc \<le> digits_val (base enc) (goods enc s)"
  shows "\<exists>w. DecodeString enc s = Ok (w, None) \<and> length w = base256BlockLen enc \<and>
    be_nat w = digits_val (base enc) (goods enc s) div 256"
proof -
  let ?v = "digits_val (base enc) (goods enc s)" and ?B = "base256BlockLen enc"
  have X: "0 < baseXBlockLen enc" using wf by (rule baseXBlockLen_pos)
  have D: "DecodedLen enc (baseXBlockLen enc) = ?B" by (simp add: DecodedLen_def)
  have "?v < 256 ^ Suc ?B" using full_block_bound [OF wf len goods_less [OF wf]] .
  then have raw: "length (nat_be ?v) = Suc ?B" using big by (intro length_nat_be)
  moreover have "0 < ?v" using big by (metis gr0I not_le zero_less_numeral zero_less_power)
  ultimately have split: "nat_be ?v = nat_be (?v div 256) @ [word_of_nat (?v mod 256)]"
      "length (nat_be (?v div 256)) = ?B"
    by (simp_all add: nat_be_pos)
  have "decode_spec enc (goods enc s) = (dec_block enc (goods enc s), None)"
    using X len by (simp add: decode_spec_def chunks_short IsValidEncodingLength_def
        flip: length_greater_0_conv)
  moreover have "dec_block enc (goods enc s) = nat_be (?v div 256)"
    using split by (simp add: dec_block_def Let_def len D)
  ultimately show ?thesis using assms split by (simp add: DecodeString_valid)
qed

theorem oversized_block_truncated_witness:
  "\<exists>w. DecodeString Base62StdEncoding (replicate 43 122) = Ok (w, None) \<and> length w = 32 \<and>
     be_nat w = (62 ^ 43 - 1) div 256"
proof -
  have "decodeMap Base62StdEncoding (encode Base62StdEncoding ! 61) = Some 61"
    by (rule wf_enc_decode) simp_all
  moreover have "encode Base62StdEncoding ! 61 = 122"
    by (simp only: Base62StdEncoding_def NewEncoding_sel base62_bytes) simp
  ultimately have g: "goods Base62StdEncoding (replicate 43 122) = replicate 43 61"
    by (simp only: goods_replicate)
  have v: "digits_val 62 (replicate 43 61) = 62 ^ 43 - 1" using digits_val_top [of 62 43] by simp
  have "\<forall>b\<in>set (replicate 43 122). IsValidByte Base62StdEncoding b"
    by (simp add: IsValidByte_Base62 base62_bytes)
  moreover have "length (goods Base62StdEncoding (replicate 43 122)) = baseXBlockLen Base62StdEncoding"
    unfolding g length_replicate Base62_blockX ..
  moreover have "256 ^ base256BlockLen Base62StdEncoding \<le>
      digits_val (base Base62StdEncoding) (goods Base62StdEncoding (replicate 43 122))"
    unfolding g Base62_sel v by simp
  ultimately have "\<exists>w. DecodeString Base62StdEncoding (replicate 43 122) = Ok (w, None) \<and>
      length w = base256BlockLen Base62StdEncoding \<and>
      be_nat w = digits_val (base Base62StdEncoding) (goods Base62StdEncoding (replicate 43 122)) div 256"
    using Base62_wf(1) by (blast intro: oversized_block_truncated)
  then show ?thesis unfolding g Base62_sel v .
qed

end
