(* ===== verification/Chunk_Reader.thy ===== *)
theory Chunk_Reader
  imports Types
begin

text \<open>
  \<open>chunk_reader.go\<close>: the adaptor that turns a source of chunks into an \<open>io.Reader\<close>. The
  interface \<open>chunker\<close> is a locale whose laws are the ones its comment states; the verifying and
  decrypting streams interpret it. \<open>emits\<close> says which chunks and which final error a source
  produces, and the lemmas show that reading through the adaptor, with buffers of any size,
  delivers exactly the concatenation of the chunks and then the error. \<open>ReadAll\<close> is
  \<open>io.ReadAll\<close> of Go's library.
\<close>

section \<open>The adaptor\<close>

type_synonym 's next_chunk = "'s \<Rightarrow> (bytes \<times> err option, 's) go"

record 's chunkReader =
  chunker :: 's
  prevChunk :: bytes
  prevErr :: "err option"

definition newChunkReader :: "'s \<Rightarrow> 's chunkReader" where
  "newChunkReader c = \<lparr>chunker = c, prevChunk = [], prevErr = None\<rparr>"

text \<open>
  The loop of \<open>Read\<close> on a slice of \<open>cap\<close> bytes: \<open>out\<close> is what it has copied so far. Copying
  from an empty chunk changes nothing, so the guard of the source is left out.
\<close>

function chunkReader_loop ::
  "'s next_chunk \<Rightarrow> nat \<Rightarrow> bytes \<Rightarrow> 's chunkReader \<Rightarrow> (bytes \<times> err option, 's chunkReader) go" where
  "chunkReader_loop getNextChunk cap out r =
     (let copied = min (cap - length out) (length (prevChunk r));
          out' = out @ take copied (prevChunk r);
          r' = r\<lparr>prevChunk := drop copied (prevChunk r)\<rparr>
      in if prevChunk r' \<noteq> [] then Ret (out', None) r'
         else case prevErr r' of
                Some e \<Rightarrow> Ret (out', Some e) r'
              | None \<Rightarrow>
                  (case getNextChunk (chunker r') of
                     Panic \<Rightarrow> Panic
                   | Ret (c, e) s \<Rightarrow>
                       if c = [] \<and> e = None then Panic
                       else chunkReader_loop getNextChunk cap out'
                              \<lparr>chunker = s, prevChunk = c, prevErr = e\<rparr>))"
  by pat_completeness auto
termination
  by (relation "measures [\<lambda>(g, cap, out, r). cap - length out,
        \<lambda>(g, cap, out, r). if prevChunk r = [] \<and> prevErr r = None then 1 else 0]")
    (auto split: if_splits simp flip: length_greater_0_conv)

declare chunkReader_loop.simps [simp del]

definition chunkReader_Read ::
  "'s next_chunk \<Rightarrow> nat \<Rightarrow> 's chunkReader \<Rightarrow> (bytes \<times> err option, 's chunkReader) go" where
  "chunkReader_Read getNextChunk cap r = chunkReader_loop getNextChunk cap [] r"

text \<open>
  \<open>io.ReadAll\<close>: a buffer of capacity 512 that grows when it is full. It may run forever on a
  reader that never returns an error; then the value is \<open>None\<close>. \<open>grow\<close> is the new capacity
  \<open>append\<close> chooses.
\<close>

partial_function (option) ReadAll_loop ::
  "(nat \<Rightarrow> 'r \<Rightarrow> (bytes \<times> err option, 'r) go) \<Rightarrow> (nat \<Rightarrow> nat) \<Rightarrow> nat \<Rightarrow> bytes \<Rightarrow> 'r \<Rightarrow>
     (bytes \<times> err option, 'r) go option" where
  "ReadAll_loop read grow cap b r =
     (case read (cap - length b) r of
        Panic \<Rightarrow> Some Panic
      | Ret (p, Some e) r' \<Rightarrow> Some (Ret (b @ p, if e = EOF then None else Some e) r')
      | Ret (p, None) r' \<Rightarrow>
          ReadAll_loop read grow (if length (b @ p) = cap then grow cap else cap) (b @ p) r')"

definition ReadAll ::
  "(nat \<Rightarrow> nat) \<Rightarrow> (nat \<Rightarrow> 'r \<Rightarrow> (bytes \<times> err option, 'r) go) \<Rightarrow> 'r \<Rightarrow>
     (bytes \<times> err option, 'r) go option" where
  "ReadAll grow read r = ReadAll_loop read grow 512 [] r"

section \<open>What a source of chunks emits\<close>

inductive emits :: "'s next_chunk \<Rightarrow> 's \<Rightarrow> bytes list \<Rightarrow> err \<Rightarrow> 's \<Rightarrow> bool" for g where
  emits_last: "g s = Ret (c, Some e) s' \<Longrightarrow> emits g s [c] e s'"
| emits_more: "g s = Ret (c, None) s1 \<Longrightarrow> c \<noteq> [] \<Longrightarrow> emits g s1 cs e s' \<Longrightarrow> emits g s (c # cs) e s'"

inductive runs :: "'s next_chunk \<Rightarrow> 's \<Rightarrow> bytes list \<Rightarrow> 's \<Rightarrow> bool" for g where
  runs_refl: "runs g s [] s"
| runs_step: "g s = Ret (c, None) s1 \<Longrightarrow> c \<noteq> [] \<Longrightarrow> runs g s1 cs s' \<Longrightarrow> runs g s (c # cs) s'"

inductive_cases emitsE: "emits g s cs e s'"

lemma runs_snoc: "runs g s cs s1 \<Longrightarrow> g s1 = Ret (c, None) s2 \<Longrightarrow> c \<noteq> [] \<Longrightarrow> runs g s (cs @ [c]) s2"
  by (induction rule: runs.induct) (auto intro: runs.intros)

lemma runs_emits: "runs g s cs s1 \<Longrightarrow> g s1 = Ret (c, Some e) s2 \<Longrightarrow> emits g s (cs @ [c]) e s2"
  by (induction rule: runs.induct) (auto intro: emits.intros)

lemma emits_det:
  "emits g s cs e s1 \<Longrightarrow> emits g s cs' e' s2 \<Longrightarrow> cs = cs' \<and> e = e' \<and> s1 = s2"
proof (induction arbitrary: cs' e' s2 rule: emits.induct)
  case (emits_last s c e s')
  from emits_last(2) show ?case by cases (use emits_last(1) in simp_all)
next
  case (emits_more s c s1 cs e s')
  from emits_more(5) show ?case
  proof cases
    case (emits_more c' s1' cs'')
    then have "emits g s1 cs'' e' s2" "cs' = c # cs''" using \<open>g s = Ret (c, None) s1\<close> by simp_all
    then show ?thesis using emits_more.IH by blast
  qed (use emits_more(1) in simp)
qed

text \<open>
  \<open>holds g r bs e\<close>: the reader still has the bytes \<open>bs\<close> to deliver and then the error \<open>e\<close>.
\<close>

definition holds :: "'s next_chunk \<Rightarrow> 's chunkReader \<Rightarrow> bytes \<Rightarrow> err \<Rightarrow> bool" where
  "holds g r bs e \<longleftrightarrow>
     (case prevErr r of
        Some e' \<Rightarrow> e' = e \<and> bs = prevChunk r
      | None \<Rightarrow> \<exists>cs s. emits g (chunker r) cs e s \<and> bs = prevChunk r @ concat cs)"

lemma holds_new: "emits g s cs e s' \<Longrightarrow> holds g (newChunkReader s) (concat cs) e"
  by (auto simp: holds_def newChunkReader_def)

lemma holds_drained:
  assumes "holds g r bs e" "prevChunk r = []" "prevErr r = None"
  obtains c e' s where "g (chunker r) = Ret (c, e') s" "c \<noteq> [] \<or> e' \<noteq> None"
    "holds g \<lparr>chunker = s, prevChunk = c, prevErr = e'\<rparr> bs e"
proof -
  from assms obtain cs s' where em: "emits g (chunker r) cs e s'" and bs: "bs = concat cs"
    by (auto simp: holds_def)
  from em show thesis
  proof cases
    case (emits_last c)
    then show thesis using bs by (intro that [of c "Some e" s']) (simp_all add: holds_def)
  next
    case (emits_more c s1 cs')
    then show thesis using bs by (intro that [of c None s1]) (auto simp: holds_def)
  qed
qed

lemma chunkReader_loop_holds:
  assumes "holds g r bs e" "length out \<le> cap"
  shows "\<exists>r'. chunkReader_loop g cap out r =
      (if length out + length bs \<le> cap then Ret (out @ bs, Some e) r'
       else Ret (out @ take (cap - length out) bs, None) r') \<and>
    holds g r' (drop (cap - length out) bs) e"
  using assms
proof (induction g cap out r arbitrary: bs rule: chunkReader_loop.induct)
  case (1 g cap out r)
  let ?k = "min (cap - length out) (length (prevChunk r))"
  let ?out = "out @ take ?k (prevChunk r)"
  let ?r = "r\<lparr>prevChunk := drop ?k (prevChunk r)\<rparr>"
  from "1.prems"(1) obtain rest where bs: "bs = prevChunk r @ rest" and
    rest: "holds g (r\<lparr>prevChunk := []\<rparr>) rest e"
    by (auto simp: holds_def split: option.splits)
  show ?case
  proof (cases "length (prevChunk r) \<le> cap - length out")
    case False
    moreover from this have "holds g ?r (drop (cap - length out) bs) e"
      using "1.prems"(1) bs rest by (auto simp: holds_def split: option.splits)
    ultimately show ?thesis
      using bs by (subst chunkReader_loop.simps) (auto simp: Let_def)
  next
    case True
    then have k: "?k = length (prevChunk r)" "drop ?k (prevChunk r) = []" "?out = out @ prevChunk r"
      by simp_all
    have room: "length ?out \<le> cap" using True "1.prems"(2) by simp
    show ?thesis
    proof (cases "prevErr r")
      case (Some e')
      then show ?thesis
        using bs rest True "1.prems"(2) by (subst chunkReader_loop.simps) (auto simp: Let_def holds_def)
    next
      case None
      then obtain c e' s where s: "g (chunker r) = Ret (c, e') s" "\<not> (c = [] \<and> e' = None)"
          "holds g \<lparr>chunker = s, prevChunk = c, prevErr = e'\<rparr> rest e"
        using holds_drained [OF rest] by auto
      have "\<exists>r'. chunkReader_loop g cap ?out \<lparr>chunker = s, prevChunk = c, prevErr = e'\<rparr> =
          (if length ?out + length rest \<le> cap then Ret (?out @ rest, Some e) r'
           else Ret (?out @ take (cap - length ?out) rest, None) r') \<and>
        holds g r' (drop (cap - length ?out) rest) e"
        by (rule "1.IH" [OF refl refl refl _ _ _ refl s(2) s(3) room]) (use k None s in simp_all)
      moreover have "chunkReader_loop g cap out r =
          chunkReader_loop g cap ?out \<lparr>chunker = s, prevChunk = c, prevErr = e'\<rparr>"
        using k None s by (subst chunkReader_loop.simps) (auto simp: Let_def)
      ultimately show ?thesis using bs k True "1.prems"(2) by (auto simp: add.commute)
    qed
  qed
qed

lemma chunkReader_Read_holds:
  assumes "holds g r bs e"
  obtains r' where "chunkReader_Read g cap r =
      (if length bs \<le> cap then Ret (bs, Some e) r' else Ret (take cap bs, None) r')"
    "holds g r' (drop cap bs) e"
  using chunkReader_loop_holds [OF assms, of "[]" cap] by (auto simp: chunkReader_Read_def)

lemma ReadAll_loop_holds:
  assumes "\<forall>c. c < grow c" "holds g r bs e" "length b < cap"
  shows "\<exists>r'. ReadAll_loop (chunkReader_Read g) grow cap b r =
    Some (Ret (b @ bs, if e = EOF then None else Some e) r')"
  using assms(2,3)
proof (induction "length bs" arbitrary: r bs b cap rule: less_induct)
  case less
  obtain r' where r': "chunkReader_Read g (cap - length b) r =
      (if length bs \<le> cap - length b then Ret (bs, Some e) r' else Ret (take (cap - length b) bs, None) r')"
      "holds g r' (drop (cap - length b) bs) e"
    by (rule chunkReader_Read_holds [OF less.prems(1)])
  show ?case
  proof (cases "length bs \<le> cap - length b")
    case True
    with r' show ?thesis by (subst ReadAll_loop.simps) simp
  next
    case False
    let ?b = "b @ take (cap - length b) bs"
    have len: "length ?b = cap" using False less.prems(2) by simp
    have "\<exists>r''. ReadAll_loop (chunkReader_Read g) grow (grow cap) ?b r' =
        Some (Ret (?b @ drop (cap - length b) bs, if e = EOF then None else Some e) r'')"
      by (rule less.hyps [OF _ r'(2)]) (use False less.prems len assms(1) in simp_all)
    with r' False len show ?thesis by (subst ReadAll_loop.simps) (simp del: length_append)
  qed
qed

lemma ReadAll_emits:
  assumes "emits g s cs e s'" "\<forall>c. c < grow c"
  shows "\<exists>r'. ReadAll grow (chunkReader_Read g) (newChunkReader s) =
    Some (Ret (concat cs, if e = EOF then None else Some e) r')"
  using ReadAll_loop_holds [OF assms(2) holds_new [OF assms(1)], of "[]" 512] by (simp add: ReadAll_def)

section \<open>What a reader has delivered was emitted\<close>

text \<open>\<open>delivered g s r bs\<close>: the reader, created on the source \<open>s\<close>, has handed out \<open>bs\<close>.\<close>

definition delivered :: "'s next_chunk \<Rightarrow> 's \<Rightarrow> 's chunkReader \<Rightarrow> bytes \<Rightarrow> bool" where
  "delivered g s0 r bs \<longleftrightarrow>
     (\<exists>cs. concat cs = bs @ prevChunk r \<and>
        (case prevErr r of
           None \<Rightarrow> runs g s0 cs (chunker r)
         | Some e \<Rightarrow> emits g s0 cs e (chunker r)))"

lemma delivered_new: "delivered g s (newChunkReader s) []"
  by (auto simp: delivered_def newChunkReader_def intro!: exI [of _ "[]"] runs_refl)

lemma delivered_next:
  assumes "delivered g s0 r bs" "prevChunk r = []" "prevErr r = None"
    and "g (chunker r) = Ret (c, e) s" "\<not> (c = [] \<and> e = None)"
  shows "delivered g s0 \<lparr>chunker = s, prevChunk = c, prevErr = e\<rparr> bs"
proof -
  from assms(1-3) obtain cs where cs: "concat cs = bs" "runs g s0 cs (chunker r)"
    by (auto simp: delivered_def)
  show ?thesis
  proof (cases e)
    case None
    with runs_snoc [OF cs(2)] assms(4,5) cs(1) show ?thesis
      by (auto simp: delivered_def intro!: exI [of _ "cs @ [c]"])
  next
    case (Some e')
    with runs_emits [OF cs(2)] assms(4) cs(1) show ?thesis
      by (auto simp: delivered_def intro!: exI [of _ "cs @ [c]"])
  qed
qed

lemma chunkReader_loop_delivered:
  assumes "delivered g s0 r bs" "chunkReader_loop g cap out r = Ret (p, e) r'"
  shows "\<exists>q. p = out @ q \<and> delivered g s0 r' (bs @ q) \<and>
    (\<forall>e'. e = Some e' \<longrightarrow> prevErr r' = Some e' \<and> prevChunk r' = [])"
  using assms
proof (induction g cap out r arbitrary: bs rule: chunkReader_loop.induct)
  case (1 g cap out r)
  let ?k = "min (cap - length out) (length (prevChunk r))"
  let ?q = "take ?k (prevChunk r)" and ?r = "r\<lparr>prevChunk := drop ?k (prevChunk r)\<rparr>"
  have dr: "delivered g s0 ?r (bs @ ?q)"
    using "1.prems"(1) by (auto simp: delivered_def split: option.splits)
  show ?case
  proof (cases "prevChunk ?r = [] \<and> prevErr ?r = None")
    case False
    then have "p = out @ ?q" "r' = ?r" "\<forall>e'. e = Some e' \<longrightarrow> prevErr r' = Some e' \<and> prevChunk r' = []"
      using "1.prems"(2)
      by (auto simp: chunkReader_loop.simps [of g cap out r] Let_def split: if_splits option.splits)
    with dr show ?thesis by blast
  next
    case True
    with "1.prems"(2) obtain c e0 s where s: "g (chunker ?r) = Ret (c, e0) s" "\<not> (c = [] \<and> e0 = None)"
      "chunkReader_loop g cap (out @ ?q) \<lparr>chunker = s, prevChunk = c, prevErr = e0\<rparr> = Ret (p, e) r'"
      by (auto simp: chunkReader_loop.simps [of g cap out r] Let_def split: go.splits if_splits)
    have "\<exists>q. p = (out @ ?q) @ q \<and> delivered g s0 r' ((bs @ ?q) @ q) \<and>
        (\<forall>e'. e = Some e' \<longrightarrow> prevErr r' = Some e' \<and> prevChunk r' = [])"
      by (rule "1.IH" [OF refl refl refl _ _ s(1) refl s(2) _ s(3)])
        (use True delivered_next [OF dr _ _ s(1,2)] in simp_all)
    then show ?thesis by auto
  qed
qed

lemma chunkReader_Read_delivered:
  assumes "delivered g s0 r bs" "chunkReader_Read g cap r = Ret (p, e) r'"
  shows "delivered g s0 r' (bs @ p)"
    and "e = Some e' \<Longrightarrow> prevErr r' = Some e' \<and> prevChunk r' = []"
  using chunkReader_loop_delivered [OF assms(1), of cap "[]" p e r'] assms(2)
  by (auto simp: chunkReader_Read_def)

lemmas ReadAll_loop_induct = ReadAll_loop.raw_induct [rotated, consumes 1, case_names step]

lemma ReadAll_loop_delivered:
  assumes "ReadAll_loop (chunkReader_Read g) grow cap b r = Some res" "delivered g s0 r b"
  shows "res = Panic \<or> (\<exists>cs e r'. emits g s0 cs e (chunker r') \<and>
    res = Ret (concat cs, if e = EOF then None else Some e) r')"
proof -
  have "ReadAll_loop read grow cap b r = Some res \<Longrightarrow>
      read = chunkReader_Read g \<longrightarrow> delivered g s0 r b \<longrightarrow>
      res = Panic \<or> (\<exists>cs e r'. emits g s0 cs e (chunker r') \<and>
        res = Ret (concat cs, if e = EOF then None else Some e) r')" for read
  proof (induction rule: ReadAll_loop_induct)
    case (step rec read grow cap b r res)
    show ?case
    proof (intro impI)
      assume g: "read = chunkReader_Read g" and del: "delivered g s0 r b"
      show "res = Panic \<or> (\<exists>cs e r'. emits g s0 cs e (chunker r') \<and>
          res = Ret (concat cs, if e = EOF then None else Some e) r')"
      proof (cases "read (cap - length b) r")
        case (Ret pe r')
        then obtain p e where pe: "read (cap - length b) r = Ret (p, e) r'" by (cases pe) auto
        note dr = chunkReader_Read_delivered [OF del pe [unfolded g]]
        show ?thesis
        proof (cases e)
          case None
          with pe step(2) have "rec read grow (if length (b @ p) = cap then grow cap else cap) (b @ p) r' = Some res"
            by simp
          from step(1) [OF this] show ?thesis using g dr by simp
        next
          case (Some e')
          with dr obtain cs where "emits g s0 cs e' (chunker r')" "concat cs = b @ p"
            by (auto simp: delivered_def)
          moreover have "res = Ret (b @ p, if e' = EOF then None else Some e') r'"
            using pe step(2) Some by simp
          ultimately show ?thesis by metis
        qed
      qed (use step(2) in simp)
    qed
  qed
  with assms show ?thesis by blast
qed

lemma ReadAll_sound:
  assumes "ReadAll grow (chunkReader_Read g) (newChunkReader s) = Some (Ret (out, e) r')"
  obtains cs e' where "emits g s cs e' (chunker r')" "out = concat cs"
    "e = (if e' = EOF then None else Some e')"
proof -
  have "ReadAll_loop (chunkReader_Read g) grow 512 [] (newChunkReader s) = Some (Ret (out, e) r')"
    using assms by (simp add: ReadAll_def)
  from ReadAll_loop_delivered [OF this delivered_new] show thesis using that by auto
qed

section \<open>The interface \<open>chunker\<close>\<close>

text \<open>
  The contract stated in the source: if the chunk is empty, the error is non-nil; after a
  non-nil error the method is not called again, so the invariant is only kept up to there.
  With it \<open>Read\<close> never meets its own panic.
\<close>

locale chunk_source =
  fixes getNextChunk :: "'s next_chunk" and inv :: "'s \<Rightarrow> bool"
  assumes chunk_nonempty: "inv s \<Longrightarrow> getNextChunk s = Ret (c, None) s' \<Longrightarrow> c \<noteq> []"
    and chunk_inv: "inv s \<Longrightarrow> getNextChunk s = Ret (c, None) s' \<Longrightarrow> inv s'"
begin

definition reader_inv :: "'s chunkReader \<Rightarrow> bool" where
  "reader_inv r \<longleftrightarrow> (prevErr r = None \<longrightarrow> inv (chunker r))"

lemma reader_inv_new: "inv s \<Longrightarrow> reader_inv (newChunkReader s)"
  by (simp add: reader_inv_def newChunkReader_def)

lemma loop_safe:
  assumes safe: "\<And>s. inv s \<Longrightarrow> getNextChunk s \<noteq> Panic"
  shows "g = getNextChunk \<Longrightarrow> reader_inv r \<Longrightarrow>
    \<exists>res r'. chunkReader_loop g cap out r = Ret res r' \<and> reader_inv r'"
proof (induction g cap out r rule: chunkReader_loop.induct)
  case (1 g cap out r)
  let ?k = "min (cap - length out) (length (prevChunk r))"
  let ?q = "take ?k (prevChunk r)" and ?r = "r\<lparr>prevChunk := drop ?k (prevChunk r)\<rparr>"
  show ?case
  proof (cases "prevChunk ?r = [] \<and> prevErr ?r = None")
    case False
    with "1.prems"(2) show ?thesis
      by (subst chunkReader_loop.simps) (auto simp: Let_def reader_inv_def split: option.splits)
  next
    case True
    then have "inv (chunker ?r)" using "1.prems"(2) by (simp add: reader_inv_def)
    with safe obtain c e s where s: "g (chunker ?r) = Ret (c, e) s"
      using "1.prems"(1) by (metis go.exhaust prod.exhaust)
    with \<open>inv (chunker ?r)\<close> have c: "\<not> (c = [] \<and> e = None)" "e = None \<longrightarrow> inv s"
      using chunk_nonempty chunk_inv "1.prems"(1) by blast+
    have "\<exists>res r'. chunkReader_loop g cap (out @ ?q) \<lparr>chunker = s, prevChunk = c, prevErr = e\<rparr> =
        Ret res r' \<and> reader_inv r'"
      by (rule "1.IH" [OF refl refl refl _ _ s refl c(1) "1.prems"(1)])
        (use True c in \<open>simp_all add: reader_inv_def\<close>)
    moreover have "chunkReader_loop g cap out r =
        chunkReader_loop g cap (out @ ?q) \<lparr>chunker = s, prevChunk = c, prevErr = e\<rparr>"
      using True s c(1) by (subst chunkReader_loop.simps) (auto simp: Let_def)
    ultimately show ?thesis by simp
  qed
qed

lemma Read_safe:
  assumes "\<And>s. inv s \<Longrightarrow> getNextChunk s \<noteq> Panic" "reader_inv r"
  shows "\<exists>res r'. chunkReader_Read getNextChunk cap r = Ret res r' \<and> reader_inv r'"
  unfolding chunkReader_Read_def by (rule loop_safe [OF assms(1) refl assms(2)])

text \<open>A source that comes closer to its end with every chunk emits finitely many.\<close>

lemma emits_exists:
  fixes mu :: "'s \<Rightarrow> nat"
  assumes safe: "\<And>s. inv s \<Longrightarrow> getNextChunk s \<noteq> Panic"
    and dec: "\<And>s c s'. getNextChunk s = Ret (c, None) s' \<Longrightarrow> mu s' < mu s"
  shows "inv s \<Longrightarrow> \<exists>cs e s'. emits getNextChunk s cs e s'"
proof (induction "mu s" arbitrary: s rule: less_induct)
  case less
  obtain c e s1 where s1: "getNextChunk s = Ret (c, e) s1"
    using safe [OF less.prems] by (metis go.exhaust prod.exhaust)
  show ?case
  proof (cases e)
    case None
    with s1 have "getNextChunk s = Ret (c, None) s1" by simp
    from less.hyps [OF dec [OF this] chunk_inv [OF less.prems this]]
    obtain cs e' s' where "emits getNextChunk s1 cs e' s'" by blast
    moreover have "c \<noteq> []" using chunk_nonempty [OF less.prems] s1 None by blast
    ultimately have "emits getNextChunk s (c # cs) e' s'"
      using s1 None by (intro emits_more [of getNextChunk s c s1]) simp_all
    then show ?thesis by blast
  next
    case (Some e')
    with s1 have "emits getNextChunk s [c] e' s1" by (intro emits_last) simp
    then show ?thesis by blast
  qed
qed

end

section \<open>Any sequence of reads\<close>

text \<open>The results of a sequence of calls of \<open>Read\<close>, one for each buffer size.\<close>

fun read_seq :: "'s next_chunk \<Rightarrow> nat list \<Rightarrow> 's chunkReader \<Rightarrow> (bytes \<times> err option) list option" where
  "read_seq g [] r = Some []"
| "read_seq g (n # ns) r =
     (case chunkReader_Read g n r of
        Panic \<Rightarrow> None
      | Ret p r' \<Rightarrow> map_option ((#) p) (read_seq g ns r'))"

text \<open>What an ideal reader of \<open>bs\<close> with final error \<open>e\<close> returns.\<close>

primrec ideal_reads :: "nat list \<Rightarrow> bytes \<Rightarrow> err \<Rightarrow> (bytes \<times> err option) list" where
  "ideal_reads [] bs e = []"
| "ideal_reads (n # ns) bs e =
     (take n bs, if length bs \<le> n then Some e else None) # ideal_reads ns (drop n bs) e"

lemma read_seq_holds: "holds g r bs e \<Longrightarrow> read_seq g ns r = Some (ideal_reads ns bs e)"
proof (induction ns arbitrary: r bs)
  case (Cons n ns)
  obtain r' where r': "chunkReader_Read g n r =
      (if length bs \<le> n then Ret (bs, Some e) r' else Ret (take n bs, None) r')"
    "holds g r' (drop n bs) e"
    by (rule chunkReader_Read_holds [OF Cons.prems])
  with Cons.IH [OF r'(2)] show ?case by simp
qed simp

text \<open>
  C11: the adaptor is an ideal reader of the concatenated chunks. Whatever the buffer sizes of the
  calls, \<open>Read\<close> fills each buffer as far as the data goes, returns the source's final error
  together with the last bytes, and again on every later call.
\<close>

theorem chunkReader_ideal:
  assumes "emits g s cs e s'"
  shows "read_seq g ns (newChunkReader s) = Some (ideal_reads ns (concat cs) e)"
  by (rule read_seq_holds [OF holds_new [OF assms]])

definition list_source :: "bytes list next_chunk" where
  "list_source s = (case s of
     [] \<Rightarrow> Ret ([], Some EOF) [] | c # cs \<Rightarrow> Ret (c, if cs = [] then Some EOF else None) cs)"

theorem chunkReader_ideal_witness:
  "read_seq list_source [1, 0, 3, 1] (newChunkReader [[1, 2], [3]]) =
     Some (ideal_reads [1, 0, 3, 1] (concat [[1, 2], [3]]) EOF)"
proof (rule chunkReader_ideal)
  show "emits list_source [[1, 2], [3]] [[1, 2], [3]] EOF []"
    by (rule emits_more [of _ _ _ "[[3]]"]) (auto simp: list_source_def intro: emits_last)
qed

end
