(* ===== verification/Sha512.thy ===== *)
theory Sha512
  imports Prelude
begin

text \<open>
  SHA-512 and HMAC-SHA-512 of Go's standard library (\<open>crypto/sha512\<close>, \<open>crypto/hmac\<close>), which
  the source uses for header hashes, signature inputs and authenticators; from FIPS 180-4 and
  RFC 2104. The source relies on their output having 64 bytes and on nothing else, and no
  theorem of the development assumes that they have no collisions.
\<close>

section \<open>SHA-512\<close>

text \<open>
  The round constants and the initial state are the first 64 bits of the fractional parts of
  the cube roots and the square roots of the first primes. \<open>nth_root\<close> finds the root digit by
  digit in binary; the low 64 bits of the root of \<open>p * 2 ^ (64 * k)\<close> are those bits.
\<close>

primrec nth_root :: "nat \<Rightarrow> int \<Rightarrow> nat \<Rightarrow> int \<Rightarrow> int" where
  "nth_root k n 0 r = r"
| "nth_root k n (Suc b) r = nth_root k n b (if (r + 2 ^ b) ^ k \<le> n then r + 2 ^ b else r)"

definition root_bits :: "nat \<Rightarrow> int \<Rightarrow> 64 word" where
  "root_bits k p = word_of_int (nth_root k (p * 2 ^ (64 * k)) 72 0)"

definition small_primes :: "int list" where
  "small_primes = List.filter (\<lambda>n. list_all (\<lambda>d. n mod d \<noteq> 0) [2..n - 1]) [2..409]"

definition sha512_K :: "64 word list" where
  "sha512_K = map (root_bits 3) small_primes"

definition sha512_H0 :: "64 word list" where
  "sha512_H0 = map (root_bits 2) [2, 3, 5, 7, 11, 13, 17, 19]"

definition rotr :: "nat \<Rightarrow> 64 word \<Rightarrow> 64 word" where
  "rotr n w = drop_bit n w OR push_bit (64 - n) w"

definition big_sigma0 :: "64 word \<Rightarrow> 64 word" where
  "big_sigma0 x = rotr 28 x XOR rotr 34 x XOR rotr 39 x"
definition big_sigma1 :: "64 word \<Rightarrow> 64 word" where
  "big_sigma1 x = rotr 14 x XOR rotr 18 x XOR rotr 41 x"
definition small_sigma0 :: "64 word \<Rightarrow> 64 word" where
  "small_sigma0 x = rotr 1 x XOR rotr 8 x XOR drop_bit 7 x"
definition small_sigma1 :: "64 word \<Rightarrow> 64 word" where
  "small_sigma1 x = rotr 19 x XOR rotr 61 x XOR drop_bit 6 x"

text \<open>The message schedule: the 16 words of the block, then 64 derived ones, newest first.\<close>

definition schedule_step :: "64 word list \<Rightarrow> 64 word list" where
  "schedule_step ws =
     (small_sigma1 (ws ! 1) + ws ! 6 + small_sigma0 (ws ! 14) + ws ! 15) # ws"

definition schedule :: "64 word list \<Rightarrow> 64 word list" where
  "schedule block = rev ((schedule_step ^^ 64) (rev block))"

fun sha512_round :: "64 word \<times> 64 word \<Rightarrow> 64 word list \<Rightarrow> 64 word list" where
  "sha512_round (k, w) [a, b, c, d, e, f, g, h] =
     (let t1 = h + big_sigma1 e + ((e AND f) XOR (NOT e AND g)) + k + w;
          t2 = big_sigma0 a + ((a AND b) XOR (a AND c) XOR (b AND c))
      in [t1 + t2, a, b, c, d + t1, e, f, g])"
| "sha512_round _ st = st"

definition sha512_compress :: "64 word list \<Rightarrow> 64 word list \<Rightarrow> 64 word list" where
  "sha512_compress st block =
     map2 (+) st (fold sha512_round (zip sha512_K (schedule block)) st)"

definition be64_word :: "bytes \<Rightarrow> 64 word" where
  "be64_word bs = word_of_nat (be_nat bs)"

definition sha512_pad :: "bytes \<Rightarrow> bytes" where
  "sha512_pad msg =
     msg @ [0x80] @ replicate ((239 - length msg mod 128) mod 128) 0
       @ be64 0 @ be64 (word_of_nat (8 * length msg))"

definition sha512 :: "bytes \<Rightarrow> bytes" where
  "sha512 msg =
     concat (map be64
       (fold (\<lambda>block st. sha512_compress st (map be64_word (chunks 8 block)))
          (chunks 128 (sha512_pad msg)) sha512_H0))"

section \<open>HMAC\<close>

definition hmac_sha512 :: "bytes \<Rightarrow> bytes \<Rightarrow> bytes" where
  "hmac_sha512 key msg =
     (let k = (if length key > 128 then sha512 key else key);
          k' = k @ replicate (128 - length k) 0
      in sha512 (map (\<lambda>b. b XOR 0x5c) k' @ sha512 (map (\<lambda>b. b XOR 0x36) k' @ msg)))"

section \<open>Lengths\<close>

lemma length_sha512_round [simp]: "length (sha512_round kw st) = length st"
  by (induction kw st rule: sha512_round.induct) (simp_all add: Let_def)

lemma length_sha512_rounds: "length (fold sha512_round kws st) = length st"
  by (induction kws arbitrary: st) simp_all

lemma length_sha512_compress [simp]: "length (sha512_compress st block) = length st"
  by (simp add: sha512_compress_def length_sha512_rounds)

lemma length_sha512_blocks:
  "length (fold (\<lambda>block st. sha512_compress st (f block)) blocks st) = length st"
  by (induction blocks arbitrary: st) simp_all

lemma length_concat_be64: "length (concat (map be64 ws)) = 8 * length ws"
  by (induction ws) simp_all

lemma length_sha512 [simp, len_simps]: "length (sha512 msg) = 64"
  by (simp add: sha512_def length_concat_be64 length_sha512_blocks sha512_H0_def)

lemma length_hmac_sha512 [simp, len_simps]: "length (hmac_sha512 key msg) = 64"
  by (simp add: hmac_sha512_def Let_def)

end
