(* ===== verification/Interfaces.thy ===== *)
theory Interfaces
  imports Types Sha512
begin

text \<open>
  What the code reaches through an interface or in another module, as parameters of the
  model, and the behaviour it relies on, as named predicates that the theorems take as
  hypotheses: the MessagePack codec (\<open>github.com/keybase/go-codec\<close>), NaCl secret boxes
  (\<open>golang.org/x/crypto\<close>) and the key interfaces of \<open>key.go\<close>, which the application implements.
  The theory also holds \<open>msgpack.go\<close>, the code's own layer over the codec. Foreign
  functions return a value or an error (\<open>err + 'a\<close>) and do not panic.
\<close>

section \<open>The codec and secret boxes\<close>

text \<open>
  \<open>marshal\<close> encodes one value; the decoders read one value of a given type from a reader, or
  from a byte string. A decoder returns the reader as it leaves it.
\<close>

type_synonym 'a decode = "input \<Rightarrow> (err + 'a) \<times> input"

record env =
  marshal :: "packet \<Rightarrow> err + bytes"
  decBytes :: "bytes decode"
  decSignatureV1 :: "signatureBlockV1 decode"
  decSignatureV2 :: "signatureBlockV2 decode"
  decEncryptionV1 :: "encryptionBlockV1 decode"
  decEncryptionV2 :: "encryptionBlockV2 decode"
  decSigncryption :: "signcryptionBlock decode"
  decAny :: "unit decode"
  unmarshalEncryptionHeader :: "bytes \<Rightarrow> err + EncryptionHeader"
  unmarshalSignatureHeader :: "bytes \<Rightarrow> err + SignatureHeader"
  secretboxSeal :: "bytes \<Rightarrow> bytes \<Rightarrow> bytes \<Rightarrow> bytes"
  secretboxOpen :: "bytes \<Rightarrow> bytes \<Rightarrow> bytes \<Rightarrow> bytes option"

text \<open>
  MessagePack is self-delimiting: a value that was encoded is read back and exactly its bytes
  are consumed, whatever follows.
\<close>

definition reads_back :: "env \<Rightarrow> ('a \<Rightarrow> packet) \<Rightarrow> 'a decode \<Rightarrow> bool" where
  "reads_back E con dec \<longleftrightarrow>
     (\<forall>x bs rest e. marshal E (con x) = Inr bs \<longrightarrow>
        dec \<lparr>pending = bs @ rest, ends = e\<rparr> = (Inr x, \<lparr>pending = rest, ends = e\<rparr>))"

definition stops_at_end :: "'a decode \<Rightarrow> bool" where
  "stops_at_end dec \<longleftrightarrow> (\<forall>e. fst (dec \<lparr>pending = [], ends = e\<rparr>) = Inl e)"

definition codec_ok :: "env \<Rightarrow> bool" where
  "codec_ok E \<longleftrightarrow>
     (\<forall>p. \<exists>bs. marshal E p = Inr bs) \<and>
     reads_back E PBytes (decBytes E) \<and>
     reads_back E PSignatureV1 (decSignatureV1 E) \<and>
     reads_back E PSignatureV2 (decSignatureV2 E) \<and>
     reads_back E PEncryptionV1 (decEncryptionV1 E) \<and>
     reads_back E PEncryptionV2 (decEncryptionV2 E) \<and>
     reads_back E PSigncryption (decSigncryption E) \<and>
     stops_at_end (decAny E) \<and>
     (\<forall>h bs. marshal E (PEncryptionHeader h) = Inr bs \<longrightarrow> unmarshalEncryptionHeader E bs = Inr h) \<and>
     (\<forall>h bs. marshal E (PSignatureHeader h) = Inr bs \<longrightarrow> unmarshalSignatureHeader E bs = Inr h)"

text \<open>
  A successful read consumes at least one byte of the reader, and no read puts bytes back.
\<close>

definition consumes :: "'a decode \<Rightarrow> bool" where
  "consumes dec \<longleftrightarrow>
     (\<forall>r x r'. dec r = (Inr x, r') \<longrightarrow> length (pending r') < length (pending r))"

definition codec_consumes :: "env \<Rightarrow> bool" where
  "codec_consumes E \<longleftrightarrow>
     consumes (decBytes E) \<and> consumes (decSignatureV1 E) \<and> consumes (decSignatureV2 E) \<and>
     consumes (decEncryptionV1 E) \<and> consumes (decEncryptionV2 E) \<and>
     consumes (decSigncryption E) \<and> consumes (decAny E)"

text \<open>
  NaCl: \<open>secretbox.Open\<close> inverts \<open>secretbox.Seal\<close>, and a box is 16 bytes
  (\<open>secretbox.Overhead\<close>) longer than what it holds.
\<close>

definition secretboxOverhead :: nat where "secretboxOverhead = 16"

definition secretbox_ok :: "env \<Rightarrow> bool" where
  "secretbox_ok E \<longleftrightarrow>
     (\<forall>m n k. secretboxOpen E (secretboxSeal E m n k) n k = Some m) \<and>
     (\<forall>m n k. length (secretboxSeal E m n k) = length m + secretboxOverhead)"

definition secretbox_lengths :: "env \<Rightarrow> bool" where
  "secretbox_lengths E \<longleftrightarrow>
     (\<forall>c n k m. secretboxOpen E c n k = Some m \<longrightarrow> length c = length m + secretboxOverhead)"

lemma codec_okD:
  assumes "codec_ok E"
  shows "\<exists>bs. marshal E p = Inr bs"
    and "reads_back E PBytes (decBytes E)"
    and "reads_back E PSignatureV1 (decSignatureV1 E)"
    and "reads_back E PSignatureV2 (decSignatureV2 E)"
    and "reads_back E PEncryptionV1 (decEncryptionV1 E)"
    and "reads_back E PEncryptionV2 (decEncryptionV2 E)"
    and "reads_back E PSigncryption (decSigncryption E)"
    and "stops_at_end (decAny E)"
    and "marshal E (PEncryptionHeader h) = Inr bs \<Longrightarrow> unmarshalEncryptionHeader E bs = Inr h"
    and "marshal E (PSignatureHeader h') = Inr bs \<Longrightarrow> unmarshalSignatureHeader E bs = Inr h'"
  using assms by (simp_all add: codec_ok_def)

lemma reads_backD:
  "reads_back E con dec \<Longrightarrow> marshal E (con x) = Inr bs \<Longrightarrow>
     dec \<lparr>pending = bs @ rest, ends = e\<rparr> = (Inr x, \<lparr>pending = rest, ends = e\<rparr>)"
  by (simp add: reads_back_def)

section \<open>Keys\<close>

text \<open>
  The interfaces \<open>SigningPublicKey\<close>, \<open>SigningSecretKey\<close> and \<open>SigKeyring\<close>. A nil public
  key is \<open>None\<close>; a lookup in a keyring gives \<open>None\<close> for nil.
\<close>

record SigningPublicKey =
  sigToKID :: bytes
  sigVerify :: "bytes \<Rightarrow> bytes \<Rightarrow> err option"

record SigningSecretKey =
  sigSign :: "bytes \<Rightarrow> err + bytes"
  sigGetPublicKey :: "SigningPublicKey option"

type_synonym SigKeyring = "bytes \<Rightarrow> SigningPublicKey option"

text \<open>A signing key works with a public key: it signs every message, and the public key accepts.\<close>

definition signs_for :: "SigningSecretKey \<Rightarrow> SigningPublicKey \<Rightarrow> bool" where
  "signs_for sk pk \<longleftrightarrow>
     sigGetPublicKey sk = Some pk \<and>
     (\<forall>msg. \<exists>sig. sigSign sk msg = Inr sig \<and> sigVerify pk msg sig = None)"

text \<open>
  The box interfaces. \<open>BoxPublicKey\<close>'s \<open>CreateEphemeralKey\<close> draws a random key; the model
  passes the creator to the operations that use it. \<open>boxRaw\<close> is \<open>ToRawBoxKeyPointer\<close>.
\<close>

record BoxPublicKey =
  boxToKID :: bytes
  boxRaw :: bytes
  boxHideIdentity :: bool

record BoxPrecomputedSharedKey =
  sharedUnbox :: "bytes \<Rightarrow> bytes \<Rightarrow> err + bytes"
  sharedBox :: "bytes \<Rightarrow> bytes \<Rightarrow> bytes"

record BoxSecretKey =
  boxBox :: "BoxPublicKey \<Rightarrow> bytes \<Rightarrow> bytes \<Rightarrow> bytes"
  boxUnbox :: "BoxPublicKey \<Rightarrow> bytes \<Rightarrow> bytes \<Rightarrow> err + bytes"
  boxGetPublicKey :: BoxPublicKey
  boxPrecompute :: "BoxPublicKey \<Rightarrow> BoxPrecomputedSharedKey"

record Keyring =
  LookupBoxSecretKey :: "bytes list \<Rightarrow> int \<times> BoxSecretKey option"
  LookupBoxPublicKey :: "bytes \<Rightarrow> BoxPublicKey option"
  GetAllBoxSecretKeys :: "BoxSecretKey list"
  ImportBoxEphemeralKey :: "bytes \<Rightarrow> BoxPublicKey option"

text \<open>\<open>hmac.Equal\<close> compares in constant time; its result is equality.\<close>

definition PublicKeyEqual :: "BoxPublicKey \<Rightarrow> BoxPublicKey \<Rightarrow> bool" where
  "PublicKeyEqual k1 k2 \<longleftrightarrow> boxToKID k1 = boxToKID k2"

section \<open>The MessagePack layer\<close>

text \<open>
  \<open>msgpack.go\<close>. An encoder writes to a destination \<open>'w\<close>: \<open>Encode\<close> returns the error and the
  destination afterwards. \<open>newEncoder\<close> on a \<open>bytes.Buffer\<close> appends the encoding.
\<close>

type_synonym 'w encoder = "packet \<Rightarrow> 'w \<Rightarrow> err option \<times> 'w"

definition encodeToBytes :: "env \<Rightarrow> packet \<Rightarrow> bytes result" where
  "encodeToBytes E p = (case marshal E p of Inl e \<Rightarrow> Err e | Inr bs \<Rightarrow> Ok bs)"

definition newEncoder :: "env \<Rightarrow> bytes encoder" where
  "newEncoder E p w = (case marshal E p of Inl e \<Rightarrow> (Some e, w) | Inr bs \<Rightarrow> (None, w @ bs))"

record msgpackStream =
  decoder :: input
  mpsSeqno :: packetSeqno

definition newMsgpackStream :: "input \<Rightarrow> msgpackStream" where
  "newMsgpackStream r = \<lparr>decoder = r, mpsSeqno = 0\<rparr>"

definition mpsRead :: "'a decode \<Rightarrow> msgpackStream \<Rightarrow> (err + 'a \<times> packetSeqno) \<times> msgpackStream" where
  "mpsRead dec r =
     (case dec (decoder r) of
        (Inl e, d) \<Rightarrow> (Inl e, r\<lparr>decoder := d\<rparr>)
      | (Inr x, d) \<Rightarrow> (Inr (x, mpsSeqno r), r\<lparr>decoder := d, mpsSeqno := mpsSeqno r + 1\<rparr>))"

text \<open>\<open>assertEndOfStream\<close> of \<open>common.go\<close>: it always returns an error.\<close>

definition assertEndOfStream :: "env \<Rightarrow> msgpackStream \<Rightarrow> err \<times> msgpackStream" where
  "assertEndOfStream E stream =
     (case mpsRead (decAny E) stream of
        (Inl e, s) \<Rightarrow> (e, s)
      | (Inr _, s) \<Rightarrow> (ErrTrailingGarbage, s))"

lemma mpsRead_encoded:
  "reads_back E con dec \<Longrightarrow> marshal E (con x) = Inr bs \<Longrightarrow>
     mpsRead dec \<lparr>decoder = \<lparr>pending = bs @ rest, ends = e\<rparr>, mpsSeqno = q\<rparr> =
       (Inr (x, q), \<lparr>decoder = \<lparr>pending = rest, ends = e\<rparr>, mpsSeqno = q + 1\<rparr>)"
  by (simp add: mpsRead_def reads_backD)

lemma mpsRead_seqno:
  "mpsRead dec mps = (Inr (x, q), mps') \<Longrightarrow> q = mpsSeqno mps \<and> mpsSeqno mps' = q + 1"
  by (auto simp: mpsRead_def split: prod.splits sum.splits)

lemma mpsRead_consumes:
  "consumes dec \<Longrightarrow> mpsRead dec r = (Inr x, r') \<Longrightarrow>
     length (pending (decoder r')) < length (pending (decoder r))"
  by (auto simp: mpsRead_def consumes_def split: prod.splits sum.splits)

lemma assertEndOfStream_end:
  "stops_at_end (decAny E) \<Longrightarrow>
     fst (assertEndOfStream E \<lparr>decoder = \<lparr>pending = [], ends = e\<rparr>, mpsSeqno = q\<rparr>) = e"
  by (auto simp: assertEndOfStream_def mpsRead_def stops_at_end_def split: prod.splits sum.splits)
    (metis fst_conv sum.inject(1) sum.distinct(2))+

section \<open>Encoders that do not fail\<close>

text \<open>\<open>enc1\<close> is the encoding of one value; \<open>writes_all enc\<close>: the destination accepts every packet.\<close>

definition enc1 :: "env \<Rightarrow> packet \<Rightarrow> bytes" where
  "enc1 E p = (case marshal E p of Inr bs \<Rightarrow> bs | Inl _ \<Rightarrow> [])"

lemma marshal_enc1: "codec_ok E \<Longrightarrow> marshal E p = Inr (enc1 E p)"
  using codec_okD(1) [of E p] by (auto simp: enc1_def)

lemma newEncoder_ok: "codec_ok E \<Longrightarrow> newEncoder E p w = (None, w @ enc1 E p)"
  by (simp add: newEncoder_def marshal_enc1)

definition writes_all :: "'w encoder \<Rightarrow> bool" where
  "writes_all enc \<longleftrightarrow> (\<forall>p w. fst (enc p w) = None)"

lemma writes_all_newEncoder: "codec_ok E \<Longrightarrow> writes_all (newEncoder E)"
  by (simp add: writes_all_def newEncoder_ok)

end
