(* ===== verification/Common.thy ===== *)
theory Common
  imports Interfaces Nonce
begin

text \<open>
  \<open>common.go\<close>: the byte strings that are signed and authenticated, MAC keys, and the checks
  every block goes through (its size against its position and its final flag). The lemmas
  show when these checks fail and when they panic, and that the byte strings determine what
  they are built from, up to collisions of SHA-512.
\<close>

section \<open>What is signed\<close>

definition hashHeader :: "bytes \<Rightarrow> bytes" where
  "hashHeader headerBytes = sha512 headerBytes"

definition finalByte :: "bool \<Rightarrow> byte" where
  "finalByte isFinal = (if isFinal then 1 else 0)"

text \<open>
  The bytes hashed for an attached signature, and the input of the signature. The switch on the
  major version panics for an unknown one.
\<close>

definition attachedHashInput ::
  "version \<Rightarrow> bytes \<Rightarrow> bytes \<Rightarrow> packetSeqno \<Rightarrow> bool \<Rightarrow> bytes result" where
  "attachedHashInput v headerHash payloadChunk seqno isFinal =
     (if Major v = 1 then Ok (headerHash @ be64 seqno @ payloadChunk)
      else if Major v = 2 then Ok (headerHash @ be64 seqno @ [finalByte isFinal] @ payloadChunk)
      else Panicked)"

definition attachedSignatureInput ::
  "version \<Rightarrow> bytes \<Rightarrow> bytes \<Rightarrow> packetSeqno \<Rightarrow> bool \<Rightarrow> bytes result" where
  "attachedSignatureInput v headerHash payloadChunk seqno isFinal =
     bind_out (attachedHashInput v headerHash payloadChunk seqno isFinal)
       (\<lambda>h. Ok (signatureAttachedString @ sha512 h))"

definition detachedSignatureInputFromHash :: "bytes \<Rightarrow> bytes" where
  "detachedSignatureInputFromHash plaintextAndHeaderHash =
     signatureDetachedString @ plaintextAndHeaderHash"

definition detachedSignatureInput :: "bytes \<Rightarrow> bytes \<Rightarrow> bytes" where
  "detachedSignatureInput headerHash plaintext =
     detachedSignatureInputFromHash (sha512 (headerHash @ plaintext))"

definition computeSigncryptionSignatureInput :: "bytes \<Rightarrow> bytes \<Rightarrow> bool \<Rightarrow> bytes \<Rightarrow> bytes" where
  "computeSigncryptionSignatureInput headerHash nonce isFinal chunkPlaintext =
     signatureEncryptedString @ headerHash @ nonce @ [finalByte isFinal] @ sha512 chunkPlaintext"

section \<open>What is authenticated\<close>

definition cryptoAuthKeyBytes :: nat where "cryptoAuthKeyBytes = 32"
definition cryptoAuthBytes :: nat where "cryptoAuthBytes = 32"

text \<open>\<open>chacha20poly1305.Overhead\<close>, the Poly1305 tag at the front of a NaCl box.\<close>

definition polyOverhead :: nat where "polyOverhead = 16"

definition computePayloadAuthenticator :: "bytes \<Rightarrow> bytes \<Rightarrow> bytes result" where
  "computePayloadAuthenticator macKey payloadHash =
     sliceToByte 32 (take cryptoAuthBytes (hmac_sha512 macKey payloadHash))"

definition payloadHashInput ::
  "version \<Rightarrow> bytes \<Rightarrow> bytes \<Rightarrow> bytes \<Rightarrow> bool \<Rightarrow> bytes result" where
  "payloadHashInput v headerHash nonce ciphertext isFinal =
     (if Major v = 1 then Ok (headerHash @ nonce @ ciphertext)
      else if Major v = 2 then Ok (headerHash @ nonce @ [finalByte isFinal] @ ciphertext)
      else Panicked)"

definition computePayloadHash ::
  "version \<Rightarrow> bytes \<Rightarrow> bytes \<Rightarrow> bytes \<Rightarrow> bool \<Rightarrow> bytes result" where
  "computePayloadHash v headerHash nonce ciphertext isFinal =
     bind_out (payloadHashInput v headerHash nonce ciphertext isFinal) (\<lambda>h. sliceToByte 64 (sha512 h))"

text \<open>\<open>macKeyBox[16:48]\<close> panics when the box is shorter.\<close>

definition computeMACKeySingle :: "BoxSecretKey \<Rightarrow> BoxPublicKey \<Rightarrow> bytes \<Rightarrow> bytes result" where
  "computeMACKeySingle secret public nonce =
     (let macKeyBox = boxBox secret public nonce (replicate cryptoAuthKeyBytes 0)
      in if length macKeyBox < polyOverhead + cryptoAuthKeyBytes then Panicked
         else sliceToByte 32 (take cryptoAuthKeyBytes (drop polyOverhead macKeyBox)))"

definition sum512Truncate256 :: "bytes \<Rightarrow> bytes result" where
  "sum512Truncate256 bs = sliceToByte 32 (take 32 (sha512 bs))"

section \<open>Checks on blocks\<close>

definition encryptionBlockNumber_check :: "encryptionBlockNumber \<Rightarrow> err option" where
  "encryptionBlockNumber_check e =
     (if e \<ge> 0xffffffffffffffff then Some ErrPacketOverflow else None)"

definition checkChunkState :: "version \<Rightarrow> nat \<Rightarrow> 64 word \<Rightarrow> bool \<Rightarrow> (err, unit) outcome" where
  "checkChunkState v chunkLen blockIndex isFinal =
     (if Major v = 1 then (if (chunkLen = 0) \<noteq> isFinal then Panicked else Ok ())
      else if Major v = 2
      then (if chunkLen = 0 \<and> (blockIndex \<noteq> 0 \<or> \<not> isFinal) then Err ErrUnexpectedEmptyBlock
            else Ok ())
      else Panicked)"

definition assertEncodedChunkState ::
  "version \<Rightarrow> bytes \<Rightarrow> nat \<Rightarrow> 64 word \<Rightarrow> bool \<Rightarrow> (err, unit) outcome" where
  "assertEncodedChunkState v encodedChunk encodingOverhead blockIndex isFinal =
     (if length encodedChunk < encodingOverhead then Panicked
      else case checkChunkState v (length encodedChunk - encodingOverhead) blockIndex isFinal of
             Ok u \<Rightarrow> Ok u | Err e \<Rightarrow> Panicked | Panicked \<Rightarrow> Panicked)"

definition checkDecodedChunkState ::
  "version \<Rightarrow> bytes \<Rightarrow> packetSeqno \<Rightarrow> bool \<Rightarrow> (err, unit) outcome" where
  "checkDecodedChunkState v chunk seqno isFinal =
     checkChunkState v (length chunk) (seqno - 1) isFinal"

section \<open>Lemmas\<close>

text \<open>Versions the readers know: the major version alone decides.\<close>

abbreviation known_major :: "version \<Rightarrow> bool" where
  "known_major v \<equiv> Major v = 1 \<or> Major v = 2"

text \<open>
  The rule of the format that relates a chunk to its place: in version 1 the final chunk is the
  empty one; in version 2 a chunk is non-empty, save for the only chunk of an empty message.
\<close>

definition chunk_rule :: "version \<Rightarrow> nat \<Rightarrow> 64 word \<Rightarrow> bool \<Rightarrow> bool" where
  "chunk_rule v chunkLen i isFinal \<longleftrightarrow>
     (if Major v = 1 then (chunkLen = 0) = isFinal
      else chunkLen = 0 \<longrightarrow> i = 0 \<and> isFinal)"

lemma checkChunkState_Ok:
  "checkChunkState v n i f = Ok u \<longleftrightarrow> known_major v \<and> chunk_rule v n i f"
  by (auto simp: checkChunkState_def chunk_rule_def)

lemma checkChunkState_V2: "Major v = 2 \<Longrightarrow> checkChunkState v n i f \<noteq> Panicked"
  by (simp add: checkChunkState_def)

lemma assertEncodedChunkState_Ok:
  "assertEncodedChunkState v c k i f = Ok u \<longleftrightarrow>
     k \<le> length c \<and> known_major v \<and> chunk_rule v (length c - k) i f"
  using checkChunkState_Ok [of v "length c - k" i f "()"]
  by (cases "checkChunkState v (length c - k) i f") (auto simp: assertEncodedChunkState_def)

lemma checkDecodedChunkState_Ok:
  "checkDecodedChunkState v c q f = Ok u \<longleftrightarrow>
     known_major v \<and> chunk_rule v (length c) (q - 1) f"
  by (simp add: checkDecodedChunkState_def checkChunkState_Ok)

lemma length_finalByte_inject [simp]: "finalByte a = finalByte b \<longleftrightarrow> a = b"
  by (simp add: finalByte_def)

lemma attachedSignatureInput_known:
  "known_major v \<Longrightarrow> \<exists>i. attachedSignatureInput v hh c q f = Ok i"
  by (auto simp: attachedSignatureInput_def attachedHashInput_def)

lemma attachedSignatureInput_unknown:
  "\<not> known_major v \<Longrightarrow> attachedSignatureInput v hh c q f = Panicked"
  by (simp add: attachedSignatureInput_def attachedHashInput_def)

lemma attachedSignatureInput_no_Err [simp]: "attachedSignatureInput v hh c q f \<noteq> Err e"
  by (simp add: attachedSignatureInput_def attachedHashInput_def)

lemma attachedSignatureInput_Ok:
  "attachedSignatureInput v hh c q f = Ok i \<longleftrightarrow>
     (\<exists>h. attachedHashInput v hh c q f = Ok h \<and> i = signatureAttachedString @ sha512 h)"
  by (auto simp: attachedSignatureInput_def)

text \<open>
  In version 1 the signature does not cover the final flag; the chunk length decides it. The
  hashed bytes do not name the version, so they may agree between the two.
\<close>

lemma attachedHashInput_inject:
  assumes "length hh = 64" "length hh' = 64"
    and "attachedHashInput v hh c q f = Ok h" "attachedHashInput v' hh' c' q' f' = Ok h"
  shows "hh = hh' \<and> q = q' \<and>
      (if Major v = Major v' then c = c' \<and> (Major v = 2 \<longrightarrow> f = f')
       else if Major v = 1 then c = finalByte f' # c' else c' = finalByte f # c)"
  using assms by (auto simp: attachedHashInput_def split: if_splits)

lemma computePayloadAuthenticator_Ok [simp]:
  "computePayloadAuthenticator k h = Ok (take 32 (hmac_sha512 k h))"
  by (simp add: computePayloadAuthenticator_def sliceToByte_def cryptoAuthBytes_def)

lemma sum512Truncate256_Ok [simp]: "sum512Truncate256 bs = Ok (take 32 (sha512 bs))"
  by (simp add: sum512Truncate256_def sliceToByte_def)

lemma computePayloadHash_Ok:
  "known_major v \<Longrightarrow> \<exists>h. computePayloadHash v hh n c f = Ok h \<and> length h = 64"
  by (auto simp: computePayloadHash_def payloadHashInput_def sliceToByte_def)

lemma computeMACKeySingle_Ok:
  "computeMACKeySingle sk pk n = Ok k \<Longrightarrow> length k = 32"
  by (auto simp: computeMACKeySingle_def sliceToByte_def Let_def split: if_splits)

section \<open>Domains of signatures\<close>

lemma length_attachedString [simp, len_simps]: "length signatureAttachedString = 28"
  by (simp add: signatureAttachedString_def)
lemma length_detachedString [simp, len_simps]: "length signatureDetachedString = 28"
  by (simp add: signatureDetachedString_def)
lemma length_encryptedString [simp, len_simps]: "length signatureEncryptedString = 29"
  by (simp add: signatureEncryptedString_def)

lemma signature_strings_differ:
  "take 13 signatureAttachedString \<noteq> take 13 signatureDetachedString"
  "take 13 signatureAttachedString \<noteq> take 13 signatureEncryptedString"
  "take 13 signatureDetachedString \<noteq> take 13 signatureEncryptedString"
  by (simp_all add: signatureAttachedString_def signatureDetachedString_def
      signatureEncryptedString_def ascii_def)

lemma take_prefix_append: "n \<le> length s \<Longrightarrow> take n (s @ t) = take n s"
  by simp

text \<open>
  C20: the inputs of attached, detached and signcryption signatures are pairwise different
  whatever they are computed from, so a signature made for one purpose never verifies the
  bytes of another.
\<close>

theorem signature_domains_disjoint:
  "attachedSignatureInput v hh c q f \<noteq> Ok (detachedSignatureInputFromHash h) \<and>
   attachedSignatureInput v hh c q f \<noteq> Ok (computeSigncryptionSignatureInput hh' n f' p) \<and>
   detachedSignatureInputFromHash h \<noteq> computeSigncryptionSignatureInput hh' n f' p"
proof -
  have "take 13 (signatureAttachedString @ x) \<noteq> take 13 (signatureDetachedString @ y)"
    "take 13 (signatureAttachedString @ x) \<noteq> take 13 (signatureEncryptedString @ z)"
    "take 13 (signatureDetachedString @ y) \<noteq> take 13 (signatureEncryptedString @ z)" for x y z
    using signature_strings_differ by (simp_all add: take_prefix_append)
  then show ?thesis
    unfolding attachedSignatureInput_Ok detachedSignatureInputFromHash_def
      computeSigncryptionSignatureInput_def by metis
qed

text \<open>
  C19: what the input of an attached signature binds. Two equal inputs come from the same header
  hash, the same position and the same signed chunk: in version 1 the chunk alone, which leaves the
  final flag open, and in version 2 the final flag and the chunk. So within version 1 the chunks are
  equal, within version 2 the chunks and the flags are, and between the versions the chunk of
  version 1 is the flag byte and the chunk of version 2. Otherwise the hashed bytes are two
  different preimages of one SHA-512 value.
\<close>

theorem attachedSignatureInput_binds:
  assumes "length hh = 64" "length hh' = 64" "known_major v" "known_major v'"
    and "attachedSignatureInput v hh c q f = attachedSignatureInput v' hh' c' q' f'"
  shows "hh = hh' \<and> q = q' \<and>
      (if Major v = Major v' then c = c' \<and> (Major v = 2 \<longrightarrow> f = f')
       else if Major v = 1 then c = finalByte f' # c' else c' = finalByte f # c) \<or>
    (\<exists>a b. attachedHashInput v hh c q f = Ok a \<and> attachedHashInput v' hh' c' q' f' = Ok b \<and>
       a \<noteq> b \<and> sha512 a = sha512 b)"
proof -
  obtain i where "attachedSignatureInput v hh c q f = Ok i"
    using attachedSignatureInput_known [OF assms(3)] by blast
  with assms(5) have i: "attachedSignatureInput v hh c q f = Ok i"
      "attachedSignatureInput v' hh' c' q' f' = Ok i" by simp_all
  then obtain a b where ab: "attachedHashInput v hh c q f = Ok a" "attachedHashInput v' hh' c' q' f' = Ok b"
      "sha512 a = sha512 b"
    unfolding attachedSignatureInput_Ok by auto
  show ?thesis
  proof (cases "a = b")
    case True
    with attachedHashInput_inject [OF assms(1,2) ab(1)] ab(2) show ?thesis by blast
  qed (use ab in blast)
qed

theorem attachedSignatureInput_binds_witness:
  "let hh = replicate 64 (0 :: byte) in
     hh = hh \<and> (5 :: packetSeqno) = 5 \<and>
       (if Major Version1 = Major Version2 then [1, 7 :: byte] = [7] \<and> (Major Version1 = 2 \<longrightarrow> False = True)
        else if Major Version1 = 1 then [1, 7] = finalByte True # [7] else [7] = finalByte False # [1, 7]) \<or>
     (\<exists>a b. attachedHashInput Version1 hh [1, 7] 5 False = Ok a \<and>
        attachedHashInput Version2 hh [7] 5 True = Ok b \<and> a \<noteq> b \<and> sha512 a = sha512 b)"
  unfolding Let_def
  by (rule attachedSignatureInput_binds)
    (simp_all add: attachedSignatureInput_def attachedHashInput_def finalByte_def)

end
