(* ===== verification/Block_Stream.thy ===== *)
theory Block_Stream
  imports Types
begin

text \<open>
  What the three writers (\<open>signAttachedStream\<close>, \<open>encryptStream\<close>, \<open>signcryptSealStream\<close>)
  share: \<open>Write\<close> appends to a buffer and, while the buffer holds more than a block, takes one
  block from its front and emits it; \<open>Close\<close> emits the rest. The locale \<open>block_stream\<close>
  states this contract and proves once that the way the input is cut into writes does not
  matter. \<open>emitting_stream\<close> extends it with what a block does when nothing fails, and proves
  which blocks a write emits.
\<close>

section \<open>A sequence of writes\<close>

text \<open>
  \<open>Write\<close> returns a count and an error. A caller that makes several writes stops at the first
  error; \<open>writes\<close> is that caller.
\<close>

type_synonym 's stream_write = "bytes \<Rightarrow> 's \<Rightarrow> (nat \<times> err option, 's) go"

primrec writes :: "'s stream_write \<Rightarrow> bytes list \<Rightarrow> 's \<Rightarrow> (err option, 's) go" where
  "writes w [] s = Ret None s"
| "writes w (x # xs) s =
     (case w x s of
        Panic \<Rightarrow> Panic
      | Ret (n, Some e) s' \<Rightarrow> Ret (Some e) s'
      | Ret (n, None) s' \<Rightarrow> writes w xs s')"

text \<open>The writes, and then \<open>Close\<close> when none of them failed.\<close>

definition writes_close ::
  "'s stream_write \<Rightarrow> ('s \<Rightarrow> (err option, 's) go) \<Rightarrow> bytes list \<Rightarrow> 's \<Rightarrow> (err option, 's) go" where
  "writes_close w close xs s =
     (case writes w xs s of
        Panic \<Rightarrow> Panic
      | Ret (Some e) s' \<Rightarrow> Ret (Some e) s'
      | Ret None s' \<Rightarrow> close s')"

section \<open>The contract\<close>

locale block_stream =
  fixes buf :: "'s \<Rightarrow> bytes"
    and app :: "bytes \<Rightarrow> 's \<Rightarrow> 's"
    and block :: "bool \<Rightarrow> 's \<Rightarrow> (err option, 's) go"
    and loop :: "'s \<Rightarrow> (err option, 's) go"
    and B :: nat
  assumes loop_unfold:
      "loop s = (if B < length (buf s)
         then (case block False s of
                 Panic \<Rightarrow> Panic
               | Ret (Some e) s' \<Rightarrow> Ret (Some e) s'
               | Ret None s' \<Rightarrow> loop s')
         else Ret None s)"
    and buf_app: "buf (app x s) = buf s @ x"
    and app_app: "app y (app x s) = app (x @ y) s"
    and app_Nil: "app [] s = s"
    and block_front: "B < length (buf s) \<Longrightarrow> block False (app x s) = go_map (app x) (block False s)"
    and block_takes: "B < length (buf s) \<Longrightarrow> block False s = Ret None s' \<Longrightarrow> buf s' = drop B (buf s)"
    and B_pos: "0 < B"
begin

lemma loop_short: "length (buf s) \<le> B \<Longrightarrow> loop s = Ret None s"
  by (subst loop_unfold) simp

text \<open>The loop on a longer buffer does what it does on the shorter one, and goes on from there.\<close>

lemma loop_app:
  "loop (app y s) = (case loop s of
      Panic \<Rightarrow> Panic
    | Ret (Some e) s' \<Rightarrow> Ret (Some e) (app y s')
    | Ret None s' \<Rightarrow> loop (app y s'))"
proof (induction "length (buf s)" arbitrary: s rule: less_induct)
  case less
  show ?case
  proof (cases "B < length (buf s)")
    case True
    then have long: "B < length (buf (app y s))" by (simp add: buf_app)
    show ?thesis
    proof (cases "block False s")
      case (Ret r s')
      show ?thesis
      proof (cases r)
        case None
        then have "length (buf s') < length (buf s)"
          using block_takes [OF True] Ret True B_pos by simp
        with less have "loop (app y s') = (case loop s' of
            Panic \<Rightarrow> Panic
          | Ret (Some e) s'' \<Rightarrow> Ret (Some e) (app y s'')
          | Ret None s'' \<Rightarrow> loop (app y s''))" by blast
        with True long Ret None block_front [OF True, of y] show ?thesis
          by (subst loop_unfold, subst (2) loop_unfold) simp
      next
        case (Some e)
        with True long Ret block_front [OF True, of y] show ?thesis
          by (subst loop_unfold, subst (2) loop_unfold) simp
      qed
    next
      case Panic
      with True long block_front [OF True, of y] show ?thesis
        by (subst loop_unfold, subst (2) loop_unfold) simp
    qed
  qed (simp add: loop_short)
qed

lemma loop_result: "loop s = Ret None s' \<Longrightarrow> length (buf s') \<le> B"
proof (induction "length (buf s)" arbitrary: s rule: less_induct)
  case less
  show ?case
  proof (cases "B < length (buf s)")
    case True
    with less.prems obtain s1 where s1: "block False s = Ret None s1" "loop s1 = Ret None s'"
      by (subst (asm) loop_unfold) (auto split: go.splits option.splits)
    then have "length (buf s1) < length (buf s)" using block_takes [OF True] True B_pos by simp
    from less.hyps [OF this s1(2)] show ?thesis .
  qed (use less.prems loop_short in simp)
qed

text \<open>
  Safety of the loop: if no block panics in a state with \<open>I\<close> and every block keeps \<open>I\<close>, the loop
  does not panic and keeps \<open>I\<close>. It ends with a short buffer, or with what a failed block leaves.
\<close>

lemma loop_safe:
  assumes step: "\<And>s. I s \<Longrightarrow> B < length (buf s) \<Longrightarrow> \<exists>r s'. block False s = Ret r s' \<and> I s' \<and> (r \<noteq> None \<longrightarrow> F s')"
    and "I s"
  shows "\<exists>r s'. loop s = Ret r s' \<and> I s' \<and> (if r = None then length (buf s') \<le> B else F s')"
  using \<open>I s\<close>
proof (induction "length (buf s)" arbitrary: s rule: less_induct)
  case less
  show ?case
  proof (cases "B < length (buf s)")
    case True
    from step [OF less.prems True] obtain r s1 where s1: "block False s = Ret r s1" "I s1" "r \<noteq> None \<longrightarrow> F s1" by blast
    show ?thesis
    proof (cases r)
      case None
      with block_takes [OF True] s1(1) True B_pos have "length (buf s1) < length (buf s)" by simp
      from less.hyps [OF this s1(2)] True s1(1) None show ?thesis by (subst loop_unfold) simp
    qed (use True s1 in \<open>subst loop_unfold, simp\<close>)
  qed (use less.prems loop_short in simp)
qed

text \<open>
  \<open>Write\<close> as all three have it: append, then the loop. \<open>ok\<close> is what a stream needs to accept a
  write at all (no recorded error).
\<close>

lemma writes_concat:
  assumes w: "\<And>x s. ok s \<Longrightarrow> w x s = (case loop (app x s) of
      Panic \<Rightarrow> Panic
    | Ret (Some e) s' \<Rightarrow> Ret (0, Some e) s'
    | Ret None s' \<Rightarrow> Ret (length x, None) s')"
    and keeps: "\<And>x s s'. ok s \<Longrightarrow> loop (app x s) = Ret None s' \<Longrightarrow> ok s'"
    and "writes w xs s = Ret None s'" "length (buf s) \<le> B" "ok s"
  shows "w (concat xs) s = Ret (length (concat xs), None) s'"
  using assms(3-)
proof (induction xs arbitrary: s)
  case Nil
  then show ?case by (simp add: w app_Nil loop_short)
next
  case (Cons x xs)
  then obtain s1 where s1: "loop (app x s) = Ret None s1" "writes w xs s1 = Ret None s'"
    using w [of s x] by (auto split: go.splits option.splits)
  have ok: "ok s1" using keeps [OF Cons.prems(3) s1(1)] .
  have "loop (app (concat xs) (app x s)) = loop (app (concat xs) s1)"
    by (subst loop_app) (simp add: s1)
  moreover have "w (concat xs) s1 = Ret (length (concat xs), None) s'"
    using Cons.IH [OF s1(2) loop_result [OF s1(1)] ok] .
  ultimately show ?case
    using w [OF ok, of "concat xs"] w [OF Cons.prems(3), of "concat (x # xs)"]
    by (auto simp: app_app split: go.splits option.splits)
qed

end

section \<open>What is emitted\<close>

text \<open>
  \<open>good s\<close>: the block can be emitted. \<open>emit c s\<close> is the effect of emitting the chunk \<open>c\<close> apart
  from the buffer, which \<open>setbuf\<close> replaces.
\<close>

locale emitting_stream = block_stream +
  fixes good :: "'a \<Rightarrow> bool"
    and setbuf :: "bytes \<Rightarrow> 'a \<Rightarrow> 'a"
    and emit :: "bytes \<Rightarrow> 'a \<Rightarrow> 'a"
  assumes block_emit: "good s \<Longrightarrow> B < length (buf s) \<Longrightarrow>
      block False s = Ret None (emit (take B (buf s)) (setbuf (drop B (buf s)) s))"
    and good_emit: "good s \<Longrightarrow> B < length (buf s) \<Longrightarrow>
      good (emit (take B (buf s)) (setbuf (drop B (buf s)) s))"
    and emit_setbuf: "emit c (setbuf x s) = setbuf x (emit c s)"
    and setbuf_setbuf: "setbuf y (setbuf x s) = setbuf y s"
    and setbuf_buf: "setbuf (buf s) s = s"
    and buf_setbuf: "buf (setbuf x s) = x"
begin

lemma fold_emit_setbuf: "fold emit cs (setbuf x s) = setbuf x (fold emit cs s)"
  by (induction cs arbitrary: s) (simp_all add: emit_setbuf)

lemma loop_emits:
  "good s \<Longrightarrow> loop s =
     Ret None (fold emit (full_blocks B (buf s)) (setbuf (last_block B (buf s)) s)) \<and>
   good (fold emit (full_blocks B (buf s)) (setbuf (last_block B (buf s)) s))"
proof (induction "length (buf s)" arbitrary: s rule: less_induct)
  case less
  show ?case
  proof (cases "B < length (buf s)")
    case True
    let ?s = "emit (take B (buf s)) (setbuf (drop B (buf s)) s)"
    have b: "buf ?s = drop B (buf s)" by (simp add: emit_setbuf buf_setbuf)
    then have "length (buf ?s) < length (buf s)" using True B_pos by simp
    from less.hyps [OF this good_emit [OF less.prems True]]
    have "loop ?s = Ret None (fold emit (full_blocks B (drop B (buf s)))
          (setbuf (last_block B (drop B (buf s))) ?s)) \<and>
        good (fold emit (full_blocks B (drop B (buf s))) (setbuf (last_block B (drop B (buf s))) ?s))"
      by (simp only: b)
    moreover have "loop s = loop ?s"
      using True block_emit [OF less.prems True] by (subst loop_unfold) simp
    ultimately show ?thesis
      using True B_pos
      by (simp add: full_blocks_long last_block_long emit_setbuf setbuf_setbuf)
  qed (use less.prems in \<open>simp add: loop_short setbuf_buf\<close>)
qed

end

end
