(* ===== verification/Blocks.thy ===== *)
theory Blocks
  imports Common Block_Stream
begin

text \<open>
  The abstract specification of how a plaintext is cut into the blocks of a message, shared by
  attached signatures, encryption and signcryption: the list of chunks with their final flags.
  In version 1 an empty final chunk follows the data; in version 2 the last chunk is flagged.
\<close>

definition message_blocks :: "version \<Rightarrow> nat \<Rightarrow> bytes \<Rightarrow> (bytes \<times> bool) list" where
  "message_blocks v B p =
     (if v = Version1 then map (\<lambda>c. (c, False)) (chunks B p) @ [([], True)]
      else map (\<lambda>c. (c, False)) (full_blocks B p) @ [(last_block B p, True)])"

text \<open>
  A well-formed sequence of blocks from position \<open>q\<close> on: it ends with the only final block, and
  every block obeys the rule of the format.
\<close>

fun wf_blocks :: "version \<Rightarrow> 64 word \<Rightarrow> (bytes \<times> bool) list \<Rightarrow> bool" where
  "wf_blocks v q [] = False"
| "wf_blocks v q [(c, f)] = (f \<and> chunk_rule v (length c) q True)"
| "wf_blocks v q ((c, f) # b # bs) =
     (\<not> f \<and> chunk_rule v (length c) q False \<and> wf_blocks v (q + 1) (b # bs))"

lemma chunk_rule_nonempty: "chunk_rule v n q False \<longleftrightarrow> 0 < n"
  by (auto simp: chunk_rule_def)

lemma wf_blocks_append:
  "wf_blocks v q (map (\<lambda>c. (c, False)) cs @ [(c, True)]) \<longleftrightarrow>
     (\<forall>c\<in>set cs. c \<noteq> []) \<and> chunk_rule v (length c) (q + of_nat (length cs)) True"
proof (induction cs arbitrary: q)
  case (Cons c' cs)
  then show ?case
    by (cases "map (\<lambda>c. (c, False)) cs @ [(c, True)]")
      (auto simp: chunk_rule_nonempty ac_simps)
qed simp

lemma chunks_full_last: "0 < B \<Longrightarrow> chunks B xs = full_blocks B xs @ (if xs = [] then [] else [last_block B xs])"
proof (induction B xs rule: full_blocks.induct)
  case (1 B xs)
  show ?case
  proof (cases "B < length xs")
    case True
    then have "drop B xs \<noteq> []" "xs \<noteq> []" by auto
    with 1 True show ?thesis by (simp add: chunks_step full_blocks_long last_block_long)
  next
    case False
    with 1(2) show ?thesis by (cases "xs = []") (simp_all add: chunks_short)
  qed
qed

lemma message_blocks_wf:
  assumes "0 < B" "v = Version1 \<or> v = Version2"
  shows "wf_blocks v 0 (message_blocks v B p)"
proof (cases "v = Version1")
  case True
  then show ?thesis
    using chunks_length [of _ B p] by (fastforce simp: message_blocks_def wf_blocks_append chunk_rule_def)
next
  case False
  have "c \<noteq> []" if "c \<in> set (full_blocks B p)" for c
    using full_blocks_length [OF that] assms(1) by auto
  moreover have "last_block B p = [] \<Longrightarrow> p = []" using last_block_nonempty by blast
  ultimately show ?thesis using False assms(2)
    by (auto simp: message_blocks_def wf_blocks_append chunk_rule_def)
qed

lemma concat_message_blocks: "0 < B \<Longrightarrow> concat (map fst (message_blocks v B p)) = p"
  by (simp add: message_blocks_def concat_chunks concat_full_blocks comp_def)

lemma wf_blocks_nonempty: "wf_blocks v q bs \<Longrightarrow> bs \<noteq> []"
  by (cases bs) auto

lemma length_full_blocks: "length (full_blocks B xs) \<le> length xs"
proof (induction B xs rule: full_blocks.induct)
  case (1 B xs)
  show ?case
  proof (cases "0 < B \<and> B < length xs")
    case True
    moreover from this 1 have "length (full_blocks B (drop B xs)) \<le> length xs - B" by simp
    ultimately show ?thesis by (simp add: full_blocks_long) linarith
  qed (auto simp: full_blocks.simps [of B xs])
qed

lemma length_chunks: "0 < B \<Longrightarrow> length (chunks B xs) \<le> length xs"
proof (induction B xs rule: chunks.induct)
  case (1 B xs)
  show ?case
  proof (cases "xs = []")
    case False
    moreover from this 1 have "length (chunks B (drop B xs)) \<le> length xs - B" by simp
    moreover have "length xs - B < length xs" using False 1(2) by (intro diff_less) simp_all
    ultimately have "length (chunks B (drop B xs)) < length xs" by linarith
    then show ?thesis using 1(2) False by (simp add: chunks_step)
  qed simp
qed

lemma length_message_blocks: "0 < B \<Longrightarrow> length (message_blocks v B p) \<le> Suc (length p)"
  using length_full_blocks [of B p] length_chunks [of B p] by (simp add: message_blocks_def)

end
