(* ===== verification/Sign.thy ===== *)
theory Sign
  imports Blocks Rand
begin

text \<open>
  \<open>sign_stream.go\<close> and \<open>sign.go\<close>: attached and detached signatures. A stream keeps its
  destination \<open>'w\<close> in the field of its encoder, and every method takes the encoder as its first
  argument. The lemmas show that the blocks a stream writes do not depend on how the input is
  cut into calls of \<open>Write\<close>, and give the bytes of a whole message when nothing fails.
\<close>

section \<open>The header\<close>

text \<open>\<open>newSigNonce\<close> of \<open>nonce.go\<close>; \<open>rand\<close> is \<open>crypto/rand.Reader\<close>.\<close>

definition newSigNonce :: "input \<Rightarrow> (err + bytes) \<times> input" where
  "newSigNonce rand = csprngReadFull rand 16"

definition newSignatureHeader ::
  "version \<Rightarrow> SigningPublicKey option \<Rightarrow> MessageType \<Rightarrow> input \<Rightarrow> (err + SignatureHeader) \<times> input" where
  "newSignatureHeader v sender msgType rand =
     (case sender of
        None \<Rightarrow> (Inl ErrInvalidParameter, rand)
      | Some pk \<Rightarrow>
          (case newSigNonce rand of
             (Inl e, rand') \<Rightarrow> (Inl e, rand')
           | (Inr nonce, rand') \<Rightarrow>
               (Inr \<lparr>SFormatName = FormatName, SVersion = v, SType = msgType,
                     SenderPublic = sigToKID pk, SNonce = nonce\<rparr>, rand')))"

section \<open>Attached signatures\<close>

record 'w signAttachedStream =
  saVersion :: version
  saHeaderHash :: bytes
  saEncoder :: 'w
  saBuffer :: bytes
  saSeqno :: packetSeqno
  saSecretKey :: SigningSecretKey

text \<open>On an error the destination is returned as it was left.\<close>

definition newSignAttachedStream ::
  "env \<Rightarrow> 'w encoder \<Rightarrow> version \<Rightarrow> 'w \<Rightarrow> SigningSecretKey option \<Rightarrow> input \<Rightarrow>
     (err \<times> 'w + 'w signAttachedStream) \<times> input" where
  "newSignAttachedStream E enc v w signer rand =
     (case signer of
        None \<Rightarrow> (Inl (ErrInvalidParameter, w), rand)
      | Some sk \<Rightarrow>
          (case newSignatureHeader v (sigGetPublicKey sk) MessageTypeAttachedSignature rand of
             (Inl e, rand') \<Rightarrow> (Inl (e, w), rand')
           | (Inr header, rand') \<Rightarrow>
               (case marshal E (PSignatureHeader header) of
                  Inl e \<Rightarrow> (Inl (e, w), rand')
                | Inr headerBytes \<Rightarrow>
                    (case enc (PBytes headerBytes) w of
                       (Some e, w') \<Rightarrow> (Inl (e, w'), rand')
                     | (None, w') \<Rightarrow>
                         (Inr \<lparr>saVersion = v, saHeaderHash = hashHeader headerBytes, saEncoder = w',
                               saBuffer = [], saSeqno = 0, saSecretKey = sk\<rparr>, rand')))))"

definition makeSignatureBlock :: "version \<Rightarrow> bytes \<Rightarrow> bytes \<Rightarrow> bool \<Rightarrow> packet result" where
  "makeSignatureBlock v sig chunk isFinal =
     (if v = Version1 then Ok (PSignatureV1 \<lparr>Signature = sig, PayloadChunk = chunk\<rparr>)
      else if v = Version2
      then Ok (PSignatureV2 \<lparr>Signature = sig, PayloadChunk = chunk, SIsFinal = isFinal\<rparr>)
      else Panicked)"

text \<open>It returns or panics.\<close>

definition checkSignBlockRead ::
  "version \<Rightarrow> bool \<Rightarrow> nat \<Rightarrow> nat \<Rightarrow> nat \<Rightarrow> (err, unit) outcome" where
  "checkSignBlockRead v isFinal blockSize chunkLen bufLen =
     (if chunkLen > blockSize then Panicked
      else if chunkLen < blockSize \<and> bufLen > 0 then Panicked
      else if v = Version1 then (if isFinal \<noteq> (chunkLen = 0) then Panicked else Ok ())
      else if v = Version2 then (if isFinal \<and> bufLen \<noteq> 0 then Panicked else Ok ())
      else Panicked)"

definition computeSig ::
  "'w signAttachedStream \<Rightarrow> bytes \<Rightarrow> packetSeqno \<Rightarrow> bool \<Rightarrow> bytes result" where
  "computeSig s payloadChunk seqno isFinal =
     bind_out (attachedSignatureInput (saVersion s) (saHeaderHash s) payloadChunk seqno isFinal)
       (\<lambda>i. case sigSign (saSecretKey s) i of Inl e \<Rightarrow> Err e | Inr sig \<Rightarrow> Ok sig)"

text \<open>\<open>signBlock\<close>: the chunk has left the buffer whatever happens next.\<close>

definition signBlock ::
  "'w encoder \<Rightarrow> bool \<Rightarrow> 'w signAttachedStream \<Rightarrow> (err option, 'w signAttachedStream) go" where
  "signBlock enc isFinal s0 =
     (let chunk = take signatureBlockSize (saBuffer s0);
          s = s0\<lparr>saBuffer := drop signatureBlockSize (saBuffer s0)\<rparr>
      in case checkSignBlockRead (saVersion s) isFinal signatureBlockSize
                (length chunk) (length (saBuffer s)) of
           Ok _ \<Rightarrow>
             (case computeSig s chunk (saSeqno s) isFinal of
                Panicked \<Rightarrow> Panic
              | Err e \<Rightarrow> Ret (Some e) s
              | Ok sig \<Rightarrow>
                  (case bind_out (assertEncodedChunkState (saVersion s) chunk 0 (saSeqno s) isFinal)
                          (\<lambda>_. makeSignatureBlock (saVersion s) sig chunk isFinal) of
                     Ok sBlock \<Rightarrow>
                       (case enc sBlock (saEncoder s) of
                          (Some e, w) \<Rightarrow> Ret (Some e) (s\<lparr>saEncoder := w\<rparr>)
                        | (None, w) \<Rightarrow> Ret None (s\<lparr>saEncoder := w, saSeqno := saSeqno s + 1\<rparr>))
                   | _ \<Rightarrow> Panic))
         | _ \<Rightarrow> Panic)"

lemma signBlock_buffer:
  "signBlock enc f s = Ret r s' \<Longrightarrow> saBuffer s' = drop signatureBlockSize (saBuffer s)"
  by (auto simp: signBlock_def Let_def split: outcome.splits prod.splits option.splits)

function signAttachedStream_loop ::
  "'w encoder \<Rightarrow> 'w signAttachedStream \<Rightarrow> (err option, 'w signAttachedStream) go" where
  "signAttachedStream_loop enc s =
     (if length (saBuffer s) > signatureBlockSize
      then (case signBlock enc False s of
              Panic \<Rightarrow> Panic
            | Ret (Some e) s' \<Rightarrow> Ret (Some e) s'
            | Ret None s' \<Rightarrow> signAttachedStream_loop enc s')
      else Ret None s)"
  by pat_completeness auto
termination
  by (relation "measure (\<lambda>(enc, s). length (saBuffer s))") (auto dest!: signBlock_buffer intro!: diff_less)

declare signAttachedStream_loop.simps [simp del]

definition signAttachedStream_Write ::
  "'w encoder \<Rightarrow> bytes \<Rightarrow> 'w signAttachedStream \<Rightarrow> (nat \<times> err option, 'w signAttachedStream) go" where
  "signAttachedStream_Write enc p s =
     (case signAttachedStream_loop enc (s\<lparr>saBuffer := saBuffer s @ p\<rparr>) of
        Panic \<Rightarrow> Panic
      | Ret (Some e) s' \<Rightarrow> Ret (0, Some e) s'
      | Ret None s' \<Rightarrow> Ret (length p, None) s')"

definition signAttachedStream_Close ::
  "'w encoder \<Rightarrow> 'w signAttachedStream \<Rightarrow> (err option, 'w signAttachedStream) go" where
  "signAttachedStream_Close enc s =
     (if saVersion s = Version1
      then (case (if length (saBuffer s) > 0 then signBlock enc False s else Ret None s) of
              Panic \<Rightarrow> Panic
            | Ret (Some e) s' \<Rightarrow> Ret (Some e) s'
            | Ret None s' \<Rightarrow> if length (saBuffer s') > 0 then Panic else signBlock enc True s')
      else if saVersion s = Version2
      then (case signBlock enc True s of
              Panic \<Rightarrow> Panic
            | Ret (Some e) s' \<Rightarrow> Ret (Some e) s'
            | Ret None s' \<Rightarrow> if length (saBuffer s') > 0 then Panic else Ret None s')
      else Panic)"

section \<open>Detached signatures\<close>

text \<open>The hasher is represented by the bytes written to it.\<close>

record 'w signDetachedStream =
  sdEncoder :: 'w
  sdSecretKey :: SigningSecretKey
  sdHasher :: bytes

definition newSignDetachedStream ::
  "env \<Rightarrow> 'w encoder \<Rightarrow> version \<Rightarrow> 'w \<Rightarrow> SigningSecretKey option \<Rightarrow> input \<Rightarrow>
     (err \<times> 'w + 'w signDetachedStream) \<times> input" where
  "newSignDetachedStream E enc v w signer rand =
     (case signer of
        None \<Rightarrow> (Inl (ErrInvalidParameter, w), rand)
      | Some sk \<Rightarrow>
          (case newSignatureHeader v (sigGetPublicKey sk) MessageTypeDetachedSignature rand of
             (Inl e, rand') \<Rightarrow> (Inl (e, w), rand')
           | (Inr header, rand') \<Rightarrow>
               (case marshal E (PSignatureHeader header) of
                  Inl e \<Rightarrow> (Inl (e, w), rand')
                | Inr headerBytes \<Rightarrow>
                    (case enc (PBytes headerBytes) w of
                       (Some e, w') \<Rightarrow> (Inl (e, w'), rand')
                     | (None, w') \<Rightarrow>
                         (Inr \<lparr>sdEncoder = w', sdSecretKey = sk, sdHasher = hashHeader headerBytes\<rparr>,
                          rand')))))"

definition signDetachedStream_Write ::
  "bytes \<Rightarrow> 'w signDetachedStream \<Rightarrow> (nat \<times> err option, 'w signDetachedStream) go" where
  "signDetachedStream_Write p s = Ret (length p, None) (s\<lparr>sdHasher := sdHasher s @ p\<rparr>)"

definition signDetachedStream_Close ::
  "'w encoder \<Rightarrow> 'w signDetachedStream \<Rightarrow> (err option, 'w signDetachedStream) go" where
  "signDetachedStream_Close enc s =
     (case sigSign (sdSecretKey s) (detachedSignatureInputFromHash (sha512 (sdHasher s))) of
        Inl e \<Rightarrow> Ret (Some e) s
      | Inr signature \<Rightarrow>
          (case enc (PBytes signature) (sdEncoder s) of
             (e, w) \<Rightarrow> Ret e (s\<lparr>sdEncoder := w\<rparr>)))"

section \<open>Whole messages\<close>

text \<open>
  \<open>signToStream\<close> with the buffer it creates; the streamer is given by its constructor, its two
  methods and the bytes its destination holds.
\<close>

definition signToStream ::
  "(version \<Rightarrow> bytes \<Rightarrow> SigningSecretKey option \<Rightarrow> input \<Rightarrow> (err \<times> 'd + 's) \<times> input) \<Rightarrow>
   's stream_write \<Rightarrow> ('s \<Rightarrow> (err option, 's) go) \<Rightarrow> ('s \<Rightarrow> bytes) \<Rightarrow>
   version \<Rightarrow> bytes \<Rightarrow> SigningSecretKey option \<Rightarrow> input \<Rightarrow> bytes result \<times> input" where
  "signToStream streamer wr close out v plaintext signer rand =
     (case streamer v [] signer rand of
        (Inl (e, _), rand') \<Rightarrow> (Err e, rand')
      | (Inr s, rand') \<Rightarrow>
          (case wr plaintext s of
             Panic \<Rightarrow> (Panicked, rand')
           | Ret (_, Some e) _ \<Rightarrow> (Err e, rand')
           | Ret (_, None) s' \<Rightarrow>
               (case close s' of
                  Panic \<Rightarrow> (Panicked, rand')
                | Ret (Some e) _ \<Rightarrow> (Err e, rand')
                | Ret None s'' \<Rightarrow> (Ok (out s''), rand'))))"

definition NewSignStream ::
  "env \<Rightarrow> 'w encoder \<Rightarrow> version \<Rightarrow> 'w \<Rightarrow> SigningSecretKey option \<Rightarrow> input \<Rightarrow>
     (err \<times> 'w + 'w signAttachedStream) \<times> input" where
  [simp]: "NewSignStream E enc = newSignAttachedStream E enc"

definition NewSignDetachedStream ::
  "env \<Rightarrow> 'w encoder \<Rightarrow> version \<Rightarrow> 'w \<Rightarrow> SigningSecretKey option \<Rightarrow> input \<Rightarrow>
     (err \<times> 'w + 'w signDetachedStream) \<times> input" where
  [simp]: "NewSignDetachedStream E enc = newSignDetachedStream E enc"

definition Sign ::
  "env \<Rightarrow> version \<Rightarrow> bytes \<Rightarrow> SigningSecretKey option \<Rightarrow> input \<Rightarrow> bytes result \<times> input" where
  "Sign E = signToStream (NewSignStream E (newEncoder E))
     (signAttachedStream_Write (newEncoder E)) (signAttachedStream_Close (newEncoder E)) saEncoder"

definition SignDetached ::
  "env \<Rightarrow> version \<Rightarrow> bytes \<Rightarrow> SigningSecretKey option \<Rightarrow> input \<Rightarrow> bytes result \<times> input" where
  "SignDetached E = signToStream (NewSignDetachedStream E (newEncoder E))
     signDetachedStream_Write (signDetachedStream_Close (newEncoder E)) sdEncoder"

end
