(* ===== verification/Block_Reader.thy ===== *)
theory Block_Reader
  imports Blocks Chunk_Reader
begin

text \<open>
  What the three readers (\<open>verifyStream\<close>, \<open>decryptStream\<close>, \<open>signcryptOpenStream\<close>) share: if the
  next chunk of a written block is read back and the stream is at the next block, or at its end
  after the final one, then a well-formed sequence of blocks is read back to its end.
\<close>

text \<open>The bytes of a sequence of blocks from position \<open>i\<close> on, given those of one block.\<close>

primrec encode_blocks ::
  "(64 word \<Rightarrow> bytes \<Rightarrow> bool \<Rightarrow> bytes) \<Rightarrow> 64 word \<Rightarrow> (bytes \<times> bool) list \<Rightarrow> bytes" where
  "encode_blocks wr i [] = []"
| "encode_blocks wr i (b # bs) = wr i (fst b) (snd b) @ encode_blocks wr (i + 1) bs"

text \<open>
  \<open>at mps\<close> is the reader with its packets read from \<open>mps\<close>. \<open>readable i\<close> collects what the reading of
  block \<open>i\<close> needs: laws of the foreign code, keys that match, a counter in range.
\<close>

locale block_reader =
  fixes E :: env and nxt :: "'s next_chunk" and at :: "msgpackStream \<Rightarrow> 's"
    and wr :: "64 word \<Rightarrow> bytes \<Rightarrow> bool \<Rightarrow> bytes" and v :: version and readable :: "64 word \<Rightarrow> bool"
  assumes next_written: "readable i \<Longrightarrow> chunk_rule v (length c) i f \<Longrightarrow>
      nxt (at \<lparr>decoder = \<lparr>pending = wr i c f @ rest, ends = e\<rparr>, mpsSeqno = i + 1\<rparr>) =
      (if f then (case assertEndOfStream E \<lparr>decoder = \<lparr>pending = rest, ends = e\<rparr>, mpsSeqno = i + 2\<rparr> of
                    (e', mps) \<Rightarrow> Ret (c, Some e') (at mps))
       else Ret (c, None) (at \<lparr>decoder = \<lparr>pending = rest, ends = e\<rparr>, mpsSeqno = i + 2\<rparr>))"
    and stops: "readable i \<Longrightarrow> stops_at_end (decAny E)"
begin

lemma reads_all:
  "wf_blocks v i bs \<Longrightarrow> \<forall>k<length bs. readable (i + of_nat k) \<Longrightarrow>
    \<exists>s'. emits nxt (at \<lparr>decoder = \<lparr>pending = encode_blocks wr i bs, ends = EOF\<rparr>, mpsSeqno = i + 1\<rparr>)
      (map fst bs) EOF s'"
proof (induction bs arbitrary: i)
  case (Cons b bs)
  obtain c f where b: "b = (c, f)" by (cases b)
  have i: "readable i" using Cons.prems(2) by (auto dest: spec [of _ 0])
  note nxt = next_written [OF i]
  show ?case
  proof (cases bs)
    case Nil
    with Cons.prems b have f: "f" "chunk_rule v (length c) i f" by simp_all
    obtain e' mps where eos: "assertEndOfStream E \<lparr>decoder = \<lparr>pending = [], ends = EOF\<rparr>, mpsSeqno = i + 2\<rparr> =
        (e', mps)" by fastforce
    have "e' = EOF"
      using assertEndOfStream_end [OF stops [OF i], of EOF "i + 2"] eos by simp
    with nxt [OF f(2), of "[]" EOF] f eos show ?thesis
      by (auto simp: b Nil intro: emits_last)
  next
    case (Cons b' bs')
    with Cons.prems b have f: "\<not> f" "chunk_rule v (length c) i f" and wf: "wf_blocks v (i + 1) bs"
      by (auto simp: chunk_rule_nonempty)
    have "readable (i + 1 + of_nat k)" if "k < length bs" for k
      using Cons.prems(2) that by (auto simp: add.assoc dest!: spec [of _ "Suc k"])
    then obtain s' where "emits nxt (at \<lparr>decoder = \<lparr>pending = encode_blocks wr (i + 1) bs, ends = EOF\<rparr>,
        mpsSeqno = i + 2\<rparr>) (map fst bs) EOF s'"
      using Cons.IH [OF wf] by (auto simp: add.assoc)
    moreover have "c \<noteq> []" using f by (auto simp: chunk_rule_def split: if_splits)
    ultimately show ?thesis
      using nxt [OF f(2), of "encode_blocks wr (i + 1) bs" EOF] f(1)
      by (auto simp: b intro: emits_more)
  qed
qed simp

end

section \<open>What a reader has checked\<close>

text \<open>A property of every element of a sequence and its position.\<close>

fun all_from :: "(64 word \<Rightarrow> 'a \<Rightarrow> bool) \<Rightarrow> 64 word \<Rightarrow> 'a list \<Rightarrow> bool" where
  "all_from P i [] = True"
| "all_from P i (b # bs) = (P i b \<and> all_from P (i + 1) bs)"

text \<open>
  The packets on a stream: \<open>rd\<close> reads the next one, and after the last one nothing follows.
\<close>

fun parsed :: "env \<Rightarrow> (msgpackStream \<Rightarrow> ('p \<times> msgpackStream) option) \<Rightarrow> msgpackStream \<Rightarrow> 'p list \<Rightarrow> bool" where
  "parsed E rd mps [] = (fst (assertEndOfStream E mps) = EOF)"
| "parsed E rd mps (p # ps) = (\<exists>mps'. rd mps = Some (p, mps') \<and> parsed E rd mps' ps)"

text \<open>
  If every chunk a reader returns, the last one included, comes from the next packet, has been
  checked for its place and obeys the rule of the format, then a run to the end of the input has
  read the whole input and checked a complete, well-formed sequence of blocks.
\<close>

locale block_source =
  fixes E :: env and nxt :: "'s next_chunk" and mps :: "'s \<Rightarrow> msgpackStream"
    and rd :: "msgpackStream \<Rightarrow> ('p \<times> msgpackStream) option" and v :: version and ok :: "'s \<Rightarrow> bool"
    and checked :: "64 word \<Rightarrow> 'p \<times> bytes \<times> bool \<Rightarrow> bool"
  assumes more: "ok s \<Longrightarrow> nxt s = Ret (c, None) s' \<Longrightarrow>
      \<exists>p. ok s' \<and> mpsSeqno (mps s') = mpsSeqno (mps s) + 1 \<and> rd (mps s) = Some (p, mps s') \<and>
        chunk_rule v (length c) (mpsSeqno (mps s) - 1) False \<and>
        checked (mpsSeqno (mps s) - 1) (p, c, False)"
    and last: "ok s \<Longrightarrow> nxt s = Ret (c, Some EOF) s' \<Longrightarrow>
      \<exists>p m. rd (mps s) = Some (p, m) \<and> fst (assertEndOfStream E m) = EOF \<and>
        chunk_rule v (length c) (mpsSeqno (mps s) - 1) True \<and>
        checked (mpsSeqno (mps s) - 1) (p, c, True)"
begin

lemma emitted_checked:
  assumes "emits nxt s cs e s'" "e = EOF" "ok s"
  shows "\<exists>ps bs. map fst bs = cs \<and> length ps = length bs \<and> parsed E rd (mps s) ps \<and>
    wf_blocks v (mpsSeqno (mps s) - 1) bs \<and> all_from checked (mpsSeqno (mps s) - 1) (zip ps bs)"
  using assms
proof (induction rule: emits.induct)
  case (emits_last s c e s')
  then obtain p m where "rd (mps s) = Some (p, m)" "fst (assertEndOfStream E m) = EOF"
    "chunk_rule v (length c) (mpsSeqno (mps s) - 1) True" "checked (mpsSeqno (mps s) - 1) (p, c, True)"
    using last [of s c s'] by auto
  then show ?case by (intro exI [of _ "[p]"] exI [of _ "[(c, True)]"]) simp
next
  case (emits_more s c s1 cs e s')
  obtain p where p: "ok s1" "mpsSeqno (mps s1) = mpsSeqno (mps s) + 1" "rd (mps s) = Some (p, mps s1)"
    "chunk_rule v (length c) (mpsSeqno (mps s) - 1) False" "checked (mpsSeqno (mps s) - 1) (p, c, False)"
    using more [OF emits_more.prems(2) emits_more(1)] by blast
  then obtain ps bs where bs: "map fst bs = cs" "length ps = length bs" "parsed E rd (mps s1) ps"
    "wf_blocks v (mpsSeqno (mps s)) bs" "all_from checked (mpsSeqno (mps s)) (zip ps bs)"
    using emits_more by auto
  then obtain b' bs' where "bs = b' # bs'" using wf_blocks_nonempty by (cases bs) auto
  with bs p show ?case
    by (intro exI [of _ "p # ps"] exI [of _ "(c, False) # bs"]) simp
qed

text \<open>In particular when \<open>io.ReadAll\<close> returns no error.\<close>

lemma ReadAll_checked:
  assumes "ReadAll grow (chunkReader_Read nxt) (newChunkReader s) = Some (Ret (plaintext, None) r)" "ok s"
    and "mpsSeqno (mps s) = 1"
  obtains ps bs where "plaintext = concat (map fst bs)" "length ps = length bs"
    "parsed E rd (mps s) ps" "wf_blocks v 0 bs" "all_from checked 0 (zip ps bs)"
proof -
  obtain cs e' where em: "emits nxt s cs e' (chunker r)" "plaintext = concat cs"
    "None = (if e' = EOF then None else Some e')"
    by (rule ReadAll_sound [OF assms(1)])
  moreover from this have "e' = EOF" by (simp split: if_splits)
  ultimately show thesis
    using emitted_checked [OF em(1) _ assms(2)] assms(3) that by auto
qed

end

text \<open>The condition on the counter, for a sequence that starts at zero.\<close>

lemma room_from_zero:
  "k < length bs \<Longrightarrow> length bs \<le> 2 ^ 64 - 1 \<Longrightarrow> unat (0 + of_nat k :: 64 word) < 2 ^ 64 - 1"
  by (simp add: unat_of_nat)

end
