(* ===== verification/Sign_Correct.thy ===== *)
theory Sign_Correct
  imports Sign Block_Reader
begin

text \<open>
  The attached-signature stream is a \<open>block_stream\<close>, and an \<open>emitting_stream\<close> when the codec,
  the key and the destination do not fail. From this follow the independence of the way the
  input is cut into writes and the exact bytes of a message, \<open>signed_message\<close>.
\<close>

section \<open>The stream as a block stream\<close>

abbreviation sa_append :: "bytes \<Rightarrow> 'w signAttachedStream \<Rightarrow> 'w signAttachedStream" where
  "sa_append x s \<equiv> s\<lparr>saBuffer := saBuffer s @ x\<rparr>"

lemma checkSignBlockRead_more:
  assumes "c = signatureBlockSize" "v = Version1 \<or> v = Version2"
  shows "checkSignBlockRead v False signatureBlockSize c n = Ok ()"
  using assms by (auto simp: checkSignBlockRead_def)

lemma checkSignBlockRead_long:
  "c = signatureBlockSize \<Longrightarrow>
     checkSignBlockRead v False signatureBlockSize c n = checkSignBlockRead v False signatureBlockSize c m"
  by (simp add: checkSignBlockRead_def)

lemma signBlock_front:
  assumes "signatureBlockSize < length (saBuffer s)"
  shows "signBlock enc False (sa_append x s) = go_map (sa_append x) (signBlock enc False s)"
  using assms checkSignBlockRead_long [of signatureBlockSize "saVersion s"
      "length (saBuffer s) - signatureBlockSize" "length (saBuffer s) + length x - signatureBlockSize"]
  by (auto simp: signBlock_def Let_def computeSig_def split: outcome.splits prod.splits option.splits)

interpretation sa: block_stream saBuffer sa_append "signBlock enc" "signAttachedStream_loop enc"
  signatureBlockSize for enc
proof
  show "signAttachedStream_loop enc s = (if signatureBlockSize < length (saBuffer s)
      then (case signBlock enc False s of
              Panic \<Rightarrow> Panic
            | Ret (Some e) s' \<Rightarrow> Ret (Some e) s'
            | Ret None s' \<Rightarrow> signAttachedStream_loop enc s')
      else Ret None s)" for s
    by (rule signAttachedStream_loop.simps)
qed (simp_all add: signBlock_front signBlock_buffer)

lemma signAttachedStream_Write_loop:
  "signAttachedStream_Write enc x s = (case signAttachedStream_loop enc (sa_append x s) of
      Panic \<Rightarrow> Panic
    | Ret (Some e) s' \<Rightarrow> Ret (0, Some e) s'
    | Ret None s' \<Rightarrow> Ret (length x, None) s')"
  by (rule signAttachedStream_Write_def)

section \<open>A block when nothing fails\<close>

text \<open>
  \<open>sig_of\<close> and \<open>sa_packet\<close> are the
  signature and the packet of a chunk.
\<close>

definition sig_of ::
  "SigningSecretKey \<Rightarrow> version \<Rightarrow> bytes \<Rightarrow> packetSeqno \<Rightarrow> bytes \<Rightarrow> bool \<Rightarrow> bytes" where
  "sig_of sk v hh q c f =
     (case attachedSignatureInput v hh c q f of
        Ok i \<Rightarrow> (case sigSign sk i of Inr sig \<Rightarrow> sig | Inl _ \<Rightarrow> [])
      | _ \<Rightarrow> [])"

definition sa_packet ::
  "SigningSecretKey \<Rightarrow> version \<Rightarrow> bytes \<Rightarrow> packetSeqno \<Rightarrow> bytes \<Rightarrow> bool \<Rightarrow> packet" where
  "sa_packet sk v hh q c f =
     (if v = Version1 then PSignatureV1 \<lparr>Signature = sig_of sk v hh q c f, PayloadChunk = c\<rparr>
      else PSignatureV2 \<lparr>Signature = sig_of sk v hh q c f, PayloadChunk = c, SIsFinal = f\<rparr>)"

definition sa_emit :: "'w encoder \<Rightarrow> bool \<Rightarrow> bytes \<Rightarrow> 'w signAttachedStream \<Rightarrow> 'w signAttachedStream" where
  "sa_emit enc f c s =
     s\<lparr>saEncoder := snd (enc (sa_packet (saSecretKey s) (saVersion s) (saHeaderHash s) (saSeqno s) c f)
                          (saEncoder s)),
       saSeqno := saSeqno s + 1\<rparr>"

definition sa_good :: "'w encoder \<Rightarrow> 'w signAttachedStream \<Rightarrow> bool" where
  "sa_good enc s \<longleftrightarrow> writes_all enc \<and> (saVersion s = Version1 \<or> saVersion s = Version2) \<and>
     (\<forall>m. \<exists>sig. sigSign (saSecretKey s) m = Inr sig)"

lemma sa_good_emit [simp]:
  "sa_good enc (sa_emit enc f c s) = sa_good enc s"
  "sa_good enc (s\<lparr>saBuffer := x\<rparr>) = sa_good enc s"
  by (simp_all add: sa_good_def sa_emit_def)

lemma signBlock_emits:
  assumes "sa_good enc s"
    and "checkSignBlockRead (saVersion s) f signatureBlockSize
           (length (take signatureBlockSize (saBuffer s))) (length (drop signatureBlockSize (saBuffer s))) = Ok ()"
    and "chunk_rule (saVersion s) (length (take signatureBlockSize (saBuffer s))) (saSeqno s) f"
  shows "signBlock enc f s = Ret None (sa_emit enc f (take signatureBlockSize (saBuffer s))
           (s\<lparr>saBuffer := drop signatureBlockSize (saBuffer s)\<rparr>))"
proof -
  let ?c = "take signatureBlockSize (saBuffer s)"
  have v: "known_major (saVersion s)" using assms(1) by (auto simp: sa_good_def)
  obtain i where i: "attachedSignatureInput (saVersion s) (saHeaderHash s) ?c (saSeqno s) f = Ok i"
    using attachedSignatureInput_known [OF v] by blast
  obtain sig where sig: "sigSign (saSecretKey s) i = Inr sig" using assms(1) by (auto simp: sa_good_def)
  have assertion: "assertEncodedChunkState (saVersion s) ?c 0 (saSeqno s) f = Ok ()"
    using v assms(3) by (simp add: assertEncodedChunkState_Ok)
  have enc: "fst (enc p w) = None" for p w using assms(1) by (simp add: sa_good_def writes_all_def)
  have pkt: "makeSignatureBlock (saVersion s) sig ?c f =
      Ok (sa_packet (saSecretKey s) (saVersion s) (saHeaderHash s) (saSeqno s) ?c f)"
    using assms(1) i sig by (auto simp: makeSignatureBlock_def sa_packet_def sig_of_def sa_good_def)
  show ?thesis
    using assms(2) i sig assertion pkt enc
    by (simp add: signBlock_def Let_def computeSig_def sa_emit_def split: prod.split option.split)
      (metis fst_conv option.distinct(1))
qed

lemma signBlock_emits_more:
  assumes "sa_good enc s" "signatureBlockSize < length (saBuffer s)"
  shows "signBlock enc False s = Ret None (sa_emit enc False (take signatureBlockSize (saBuffer s))
           (s\<lparr>saBuffer := drop signatureBlockSize (saBuffer s)\<rparr>))"
proof (rule signBlock_emits [OF assms(1)])
  show "chunk_rule (saVersion s) (length (take signatureBlockSize (saBuffer s))) (saSeqno s) False"
    using assms(2) by (auto simp: chunk_rule_def)
qed (use assms in \<open>auto simp: sa_good_def intro!: checkSignBlockRead_more\<close>)

interpretation sae: emitting_stream saBuffer sa_append "signBlock enc" "signAttachedStream_loop enc"
  signatureBlockSize "sa_good enc" "\<lambda>x s. s\<lparr>saBuffer := x\<rparr>" "sa_emit enc False" for enc
  by unfold_locales (simp_all add: signBlock_emits_more, simp_all add: sa_emit_def)

section \<open>What a stream writes\<close>

abbreviation sa_emits ::
  "'w encoder \<Rightarrow> (bytes \<times> bool) list \<Rightarrow> 'w signAttachedStream \<Rightarrow> 'w signAttachedStream" where
  "sa_emits enc bs s \<equiv> fold (\<lambda>(c, f). sa_emit enc f c) bs s"

lemma sa_emits_False: "fold (sa_emit enc False) cs s = sa_emits enc (map (\<lambda>c. (c, False)) cs) s"
  by (simp add: fold_map comp_def)

lemma sa_emit_sel [simp]:
  "saVersion (sa_emit enc f c s) = saVersion s" "saHeaderHash (sa_emit enc f c s) = saHeaderHash s"
  "saSecretKey (sa_emit enc f c s) = saSecretKey s" "saBuffer (sa_emit enc f c s) = saBuffer s"
  "saSeqno (sa_emit enc f c s) = saSeqno s + 1"
  "sa_emit enc f c (s\<lparr>saBuffer := x\<rparr>) = (sa_emit enc f c s)\<lparr>saBuffer := x\<rparr>"
  by (simp_all add: sa_emit_def)

lemma sa_emits_sel [simp]:
  "saVersion (sa_emits enc bs s) = saVersion s" "saHeaderHash (sa_emits enc bs s) = saHeaderHash s"
  "saSecretKey (sa_emits enc bs s) = saSecretKey s" "saBuffer (sa_emits enc bs s) = saBuffer s"
  "sa_good enc (sa_emits enc bs s) = sa_good enc s"
  "sa_emits enc bs (s\<lparr>saBuffer := x\<rparr>) = (sa_emits enc bs s)\<lparr>saBuffer := x\<rparr>"
  by (induction bs arbitrary: s) auto

lemma saBuffer_same: "saBuffer s = x \<Longrightarrow> s\<lparr>saBuffer := x\<rparr> = (s :: 'w signAttachedStream)"
  by (cases s) simp

lemma signBlock_last:
  assumes "sa_good enc s" "length (saBuffer s) \<le> signatureBlockSize"
    and "saVersion s = Version1 \<longrightarrow> f = (saBuffer s = [])"
    and "saVersion s = Version2 \<longrightarrow> f \<and> (saBuffer s = [] \<longrightarrow> saSeqno s = 0)"
  shows "signBlock enc f s = Ret None (sa_emit enc f (saBuffer s) (s\<lparr>saBuffer := []\<rparr>))"
proof -
  have "saVersion s = Version1 \<or> saVersion s = Version2" using assms(1) by (auto simp: sa_good_def)
  with assms(2-) have "checkSignBlockRead (saVersion s) f signatureBlockSize (length (saBuffer s)) 0 = Ok ()"
    "chunk_rule (saVersion s) (length (saBuffer s)) (saSeqno s) f"
    by (auto simp: checkSignBlockRead_def chunk_rule_def)
  with signBlock_emits [OF assms(1), of f] assms(2) show ?thesis by simp
qed

text \<open>One write and \<open>Close\<close> on a fresh stream write the blocks of the message.\<close>

lemma write_close_emits:
  assumes good: "sa_good enc s" and fresh: "saBuffer s = []" "saSeqno s = 0"
  shows "writes_close (signAttachedStream_Write enc) (signAttachedStream_Close enc) [x] s =
    Ret None (sa_emits enc (message_blocks (saVersion s) signatureBlockSize x) s)"
proof -
  let ?B = signatureBlockSize
  let ?l = "last_block ?B x" and ?fs = "full_blocks ?B x"
  let ?s = "sa_emits enc (map (\<lambda>c. (c, False)) ?fs) (s\<lparr>saBuffer := ?l\<rparr>)"
  have "sa_good enc (sa_append x s)" using good by simp
  from sae.loop_emits [OF this] fresh(1)
  have wr: "signAttachedStream_Write enc x s = Ret (length x, None) ?s"
    by (simp add: signAttachedStream_Write_def sa_emits_False)
  have good_s: "sa_good enc ?s" using good by simp
  have lB: "length ?l \<le> ?B" by (rule length_last_block) simp
  have close: "signAttachedStream_Close enc ?s =
      Ret None (sa_emits enc (message_blocks (saVersion s) ?B x) s)"
  proof (cases "saVersion s = Version1")
    case True
    let ?s1 = "sa_emits enc (map (\<lambda>c. (c, False)) (chunks ?B x)) s"
    have data: "(if length (saBuffer ?s) > 0 then signBlock enc False ?s else Ret None ?s) = Ret None ?s1"
    proof (cases "x = []")
      case True
      then show ?thesis using fresh(1) by simp
    next
      case False
      then have "?l \<noteq> []" by (rule last_block_nonempty)
      then have "signBlock enc False ?s = Ret None (sa_emit enc False ?l (?s\<lparr>saBuffer := []\<rparr>))"
        using signBlock_last [OF good_s, of False] lB True by simp
      then show ?thesis
        using \<open>?l \<noteq> []\<close> False fresh(1) chunks_full_last [of ?B x] by simp
    qed
    have good1: "sa_good enc ?s1" using good by simp
    have "signBlock enc True ?s1 = Ret None (sa_emit enc True [] ?s1)"
      using signBlock_last [OF good1, of True] True fresh(1) by simp
    moreover have "signAttachedStream_Close enc ?s = signBlock enc True ?s1"
      unfolding signAttachedStream_Close_def data using True fresh(1) by simp
    ultimately show ?thesis using True by (simp add: message_blocks_def)
  next
    case False
    then have v2: "saVersion s = Version2" using good by (auto simp: sa_good_def)
    have "?l = [] \<Longrightarrow> x = []" using last_block_nonempty by blast
    then have "?l = [] \<Longrightarrow> saSeqno ?s = 0" using fresh(2) by simp
    then have "signBlock enc True ?s = Ret None (sa_emit enc True ?l (?s\<lparr>saBuffer := []\<rparr>))"
      using signBlock_last [OF good_s, of True] lB v2 by simp
    then have "signAttachedStream_Close enc ?s = Ret None (sa_emit enc True ?l (?s\<lparr>saBuffer := []\<rparr>))"
      using v2 by (simp add: signAttachedStream_Close_def)
    also have "sa_emit enc True ?l (?s\<lparr>saBuffer := []\<rparr>) =
        sa_emits enc (message_blocks (saVersion s) ?B x) s"
      using fresh(1) v2 by (simp add: message_blocks_def saBuffer_same)
    finally show ?thesis .
  qed
  show ?thesis by (simp add: writes_close_def wr close del: sa_emits_sel)
qed

section \<open>The bytes of a message\<close>

abbreviation sa_encode ::
  "env \<Rightarrow> SigningSecretKey \<Rightarrow> version \<Rightarrow> bytes \<Rightarrow> packetSeqno \<Rightarrow> (bytes \<times> bool) list \<Rightarrow> bytes" where
  "sa_encode E sk v hh \<equiv> encode_blocks (\<lambda>q c f. enc1 E (sa_packet sk v hh q c f))"

definition signed_message ::
  "env \<Rightarrow> SigningSecretKey \<Rightarrow> version \<Rightarrow> bytes \<Rightarrow> bytes \<Rightarrow> bytes" where
  "signed_message E sk v headerBytes plaintext =
     enc1 E (PBytes headerBytes) @
     sa_encode E sk v (hashHeader headerBytes) 0 (message_blocks v signatureBlockSize plaintext)"

lemma sa_emits_encode:
  "codec_ok E \<Longrightarrow> saEncoder (sa_emits (newEncoder E) bs s) =
     saEncoder s @ sa_encode E (saSecretKey s) (saVersion s) (saHeaderHash s) (saSeqno s) bs"
  by (induction bs arbitrary: s) (auto simp: newEncoder_ok sa_emit_def)

definition sig_header :: "SigningPublicKey \<Rightarrow> version \<Rightarrow> MessageType \<Rightarrow> bytes \<Rightarrow> SignatureHeader" where
  "sig_header pk v msgType nonce =
     \<lparr>SFormatName = FormatName, SVersion = v, SType = msgType, SenderPublic = sigToKID pk, SNonce = nonce\<rparr>"

lemma newSignatureHeader_enough:
  "16 \<le> length (pending rand) \<Longrightarrow> newSignatureHeader v (Some pk) t rand =
     (Inr (sig_header pk v t (take 16 (pending rand))), rand\<lparr>pending := drop 16 (pending rand)\<rparr>)"
  by (simp add: newSignatureHeader_def newSigNonce_def csprngReadFull_enough sig_header_def)

lemma Sign_message:
  assumes codec: "codec_ok E" and key: "signs_for sk pk" and v: "v = Version1 \<or> v = Version2"
    and rand: "16 \<le> length (pending rand)"
  shows "Sign E v plaintext (Some sk) rand =
    (Ok (signed_message E sk v
           (enc1 E (PSignatureHeader (sig_header pk v MessageTypeAttachedSignature (take 16 (pending rand)))))
           plaintext),
     rand\<lparr>pending := drop 16 (pending rand)\<rparr>)"
proof -
  let ?hb = "enc1 E (PSignatureHeader (sig_header pk v MessageTypeAttachedSignature (take 16 (pending rand))))"
  let ?s = "\<lparr>saVersion = v, saHeaderHash = hashHeader ?hb, saEncoder = enc1 E (PBytes ?hb),
      saBuffer = [], saSeqno = 0, saSecretKey = sk\<rparr>"
  have new: "newSignAttachedStream E (newEncoder E) v [] (Some sk) rand =
      (Inr ?s, rand\<lparr>pending := drop 16 (pending rand)\<rparr>)"
    using key rand by (simp add: newSignAttachedStream_def newSignatureHeader_enough signs_for_def
        marshal_enc1 [OF codec] newEncoder_ok [OF codec])
  have "sa_good (newEncoder E) ?s"
    using v key by (auto simp: sa_good_def writes_all_def newEncoder_ok [OF codec] signs_for_def)
  from write_close_emits [OF this, of plaintext]
  obtain s1 where "signAttachedStream_Write (newEncoder E) plaintext ?s = Ret (length plaintext, None) s1"
    "signAttachedStream_Close (newEncoder E) s1 =
       Ret None (sa_emits (newEncoder E) (message_blocks v signatureBlockSize plaintext) ?s)"
    by (auto simp: writes_close_def signAttachedStream_Write_def split: go.splits option.splits)
  then show ?thesis
    by (simp add: Sign_def signToStream_def new signed_message_def sa_emits_encode [OF codec])
qed

end
