(* ===== verification/Verify.thy ===== *)
theory Verify
  imports Chunk_Reader Common
begin

text \<open>
  \<open>verify_stream.go\<close> and \<open>verify.go\<close>: reading and verifying attached and detached signatures.
  The stream of verified chunks is a \<open>chunk_source\<close>; it never panics once the header has
  been accepted with a known major version.
\<close>

section \<open>The stream\<close>

text \<open>\<open>vsPublicKey\<close> is nil until \<open>NewVerifyStream\<close> has looked it up.\<close>

record verifyStream =
  vsMps :: msgpackStream
  vsHeader :: SignatureHeader
  vsHeaderHash :: bytes
  vsPublicKey :: "SigningPublicKey option"

text \<open>\<open>readHeader\<close>: the fields that the stream has afterwards, or an error; on an error the stream is dropped.\<close>

definition verifyStream_readHeader ::
  "env \<Rightarrow> VersionValidator \<Rightarrow> MessageType \<Rightarrow> msgpackStream \<Rightarrow> err + verifyStream" where
  "verifyStream_readHeader E versionValidator msgType mps0 =
     (case mpsRead (decBytes E) mps0 of
        (Inl _, _) \<Rightarrow> Inl ErrFailedToReadHeaderBytes
      | (Inr (headerBytes, _), mps) \<Rightarrow>
          (case unmarshalSignatureHeader E headerBytes of
             Inl e \<Rightarrow> Inl e
           | Inr header \<Rightarrow>
               (case SignatureHeader_validate versionValidator msgType header of
                  Some e \<Rightarrow> Inl e
                | None \<Rightarrow>
                    Inr \<lparr>vsMps = mps, vsHeader = header, vsHeaderHash = hashHeader headerBytes,
                         vsPublicKey = None\<rparr>)))"

definition newVerifyStream ::
  "env \<Rightarrow> VersionValidator \<Rightarrow> input \<Rightarrow> MessageType \<Rightarrow> err + verifyStream" where
  "newVerifyStream E versionValidator r msgType =
     verifyStream_readHeader E versionValidator msgType (newMsgpackStream r)"

text \<open>\<open>readSignatureBlock\<close>: signature, chunk, final flag and sequence number.\<close>

definition readSignatureBlock ::
  "env \<Rightarrow> version \<Rightarrow> msgpackStream \<Rightarrow>
     (err + bytes \<times> bytes \<times> bool \<times> packetSeqno, msgpackStream) go" where
  "readSignatureBlock E v mps =
     (if Major v = 1
      then (case mpsRead (decSignatureV1 E) mps of
              (Inl e, mps') \<Rightarrow> Ret (Inl e) mps'
            | (Inr (sb, seqno), mps') \<Rightarrow>
                Ret (Inr (Signature sb, PayloadChunk sb, length (PayloadChunk sb) = 0, seqno)) mps')
      else if Major v = 2
      then (case mpsRead (decSignatureV2 E) mps of
              (Inl e, mps') \<Rightarrow> Ret (Inl e) mps'
            | (Inr (sb, seqno), mps') \<Rightarrow>
                Ret (Inr (Signature sb, PayloadChunk sb, SIsFinal sb, seqno)) mps')
      else Panic)"

text \<open>\<open>processBlock\<close>: the error of the verification. A nil key panics.\<close>

definition verifyStream_processBlock ::
  "verifyStream \<Rightarrow> bytes \<Rightarrow> bytes \<Rightarrow> bool \<Rightarrow> packetSeqno \<Rightarrow> (err, unit) outcome" where
  "verifyStream_processBlock v sig payloadChunk isFinal seqno =
     bind_out (attachedSignatureInput (SVersion (vsHeader v)) (vsHeaderHash v) payloadChunk
                 (seqno - 1) isFinal)
       (\<lambda>i. case vsPublicKey v of
              None \<Rightarrow> Panicked
            | Some pk \<Rightarrow> (case sigVerify pk i sig of Some e \<Rightarrow> Err e | None \<Rightarrow> Ok ()))"

definition verifyStream_getNextChunk :: "env \<Rightarrow> verifyStream next_chunk" where
  "verifyStream_getNextChunk E v =
     (case readSignatureBlock E (SVersion (vsHeader v)) (vsMps v) of
        Panic \<Rightarrow> Panic
      | Ret (Inl e) mps \<Rightarrow> Ret ([], Some (if e = EOF then ErrUnexpectedEOF else e)) (v\<lparr>vsMps := mps\<rparr>)
      | Ret (Inr (sig, chunk, isFinal, seqno)) mps \<Rightarrow>
          (case verifyStream_processBlock v sig chunk isFinal seqno of
             Panicked \<Rightarrow> Panic
           | Err e \<Rightarrow> Ret ([], Some e) (v\<lparr>vsMps := mps\<rparr>)
           | Ok _ \<Rightarrow>
               (case checkDecodedChunkState (SVersion (vsHeader v)) chunk seqno isFinal of
                  Panicked \<Rightarrow> Panic
                | Err e \<Rightarrow> Ret ([], Some e) (v\<lparr>vsMps := mps\<rparr>)
                | Ok _ \<Rightarrow>
                    if isFinal
                    then (case assertEndOfStream E mps of
                            (e, mps') \<Rightarrow> Ret (chunk, Some e) (v\<lparr>vsMps := mps'\<rparr>))
                    else Ret (chunk, None) (v\<lparr>vsMps := mps\<rparr>))))"

definition NewVerifyStream ::
  "env \<Rightarrow> VersionValidator \<Rightarrow> input \<Rightarrow> SigKeyring \<Rightarrow>
     err + SigningPublicKey \<times> verifyStream chunkReader" where
  "NewVerifyStream E versionValidator r keyring =
     (case newVerifyStream E versionValidator r MessageTypeAttachedSignature of
        Inl e \<Rightarrow> Inl e
      | Inr s \<Rightarrow>
          (case keyring (SenderPublic (vsHeader s)) of
             None \<Rightarrow> Inl (ErrNoSenderKey (SenderPublic (vsHeader s)))
           | Some skey \<Rightarrow> Inr (skey, newChunkReader (s\<lparr>vsPublicKey := Some skey\<rparr>))))"

text \<open>\<open>Verify\<close>; \<open>None\<close> is a run that does not end, \<open>grow\<close> the growth of \<open>io.ReadAll\<close>'s buffer.\<close>

definition Verify ::
  "env \<Rightarrow> (nat \<Rightarrow> nat) \<Rightarrow> VersionValidator \<Rightarrow> bytes \<Rightarrow> SigKeyring \<Rightarrow>
     (SigningPublicKey \<times> bytes) result option" where
  "Verify E grow versionValidator signedMsg keyring =
     (case NewVerifyStream E versionValidator (bytes_input signedMsg) keyring of
        Inl e \<Rightarrow> Some (Err e)
      | Inr (skey, stream) \<Rightarrow>
          map_option (\<lambda>r. case r of
                Panic \<Rightarrow> Panicked
              | Ret (_, Some e) _ \<Rightarrow> Err e
              | Ret (verifiedMsg, None) _ \<Rightarrow> Ok (skey, verifiedMsg))
            (ReadAll grow (chunkReader_Read (verifyStream_getNextChunk E)) stream))"

text \<open>\<open>io.Copy\<close> into the hasher reads the whole of the message reader.\<close>

definition VerifyDetachedReader ::
  "env \<Rightarrow> VersionValidator \<Rightarrow> input \<Rightarrow> bytes \<Rightarrow> SigKeyring \<Rightarrow> err + SigningPublicKey" where
  "VerifyDetachedReader E versionValidator message sig keyring =
     (case newVerifyStream E versionValidator (bytes_input sig) MessageTypeDetachedSignature of
        Inl e \<Rightarrow> Inl e
      | Inr s \<Rightarrow>
          (case fst (mpsRead (decBytes E) (vsMps s)) of
             Inl e \<Rightarrow> Inl e
           | Inr (naclSignature, _) \<Rightarrow>
               (case keyring (SenderPublic (vsHeader s)) of
                  None \<Rightarrow> Inl (ErrNoSenderKey (SenderPublic (vsHeader s)))
                | Some skey \<Rightarrow>
                    if ends message \<noteq> EOF then Inl (ends message)
                    else (case sigVerify skey (detachedSignatureInputFromHash
                                 (sha512 (vsHeaderHash s @ pending message))) naclSignature of
                            Some e \<Rightarrow> Inl e
                          | None \<Rightarrow> Inr skey))))"

definition VerifyDetached ::
  "env \<Rightarrow> VersionValidator \<Rightarrow> bytes \<Rightarrow> bytes \<Rightarrow> SigKeyring \<Rightarrow> err + SigningPublicKey" where
  "VerifyDetached E versionValidator message sig keyring =
     VerifyDetachedReader E versionValidator (bytes_input message) sig keyring"

section \<open>The stream as a source of chunks\<close>

definition vs_inv :: "verifyStream \<Rightarrow> bool" where
  "vs_inv v \<longleftrightarrow> known_major (SVersion (vsHeader v)) \<and> vsPublicKey v \<noteq> None"

text \<open>A chunk that comes without an error is not the final one and obeys the rule of the format.\<close>

lemma verify_next_more:
  assumes "verifyStream_getNextChunk E v = Ret (c, None) v'"
  obtains sig seqno mps where
    "readSignatureBlock E (SVersion (vsHeader v)) (vsMps v) = Ret (Inr (sig, c, False, seqno)) mps"
    "verifyStream_processBlock v sig c False seqno = Ok ()"
    "checkDecodedChunkState (SVersion (vsHeader v)) c seqno False = Ok ()"
    "v' = v\<lparr>vsMps := mps\<rparr>"
proof -
  from assms obtain r mps where r: "readSignatureBlock E (SVersion (vsHeader v)) (vsMps v) = Ret r mps"
    by (auto simp: verifyStream_getNextChunk_def split: go.splits)
  show thesis
  proof (cases r)
    case (Inl e)
    with assms r show thesis by (simp add: verifyStream_getNextChunk_def)
  next
    case (Inr t)
    obtain sig chunk f seqno where t: "t = (sig, chunk, f, seqno)" by (cases t) auto
    have "f = False \<and> chunk = c \<and> v' = v\<lparr>vsMps := mps\<rparr> \<and>
        verifyStream_processBlock v sig chunk f seqno = Ok () \<and>
        checkDecodedChunkState (SVersion (vsHeader v)) chunk seqno f = Ok ()"
      using assms r Inr t
      by (auto simp: verifyStream_getNextChunk_def split: outcome.splits if_splits prod.splits)
    with r Inr t show thesis by (intro that) auto
  qed
qed

interpretation vs: chunk_source "verifyStream_getNextChunk E" vs_inv for E
proof
  fix s c s'
  assume inv: "vs_inv s" and next_c: "verifyStream_getNextChunk E s = Ret (c, None) s'"
  from next_c obtain sig seqno mps where
    "checkDecodedChunkState (SVersion (vsHeader s)) c seqno False = Ok ()" "s' = s\<lparr>vsMps := mps\<rparr>"
    by (rule verify_next_more)
  with inv show "c \<noteq> []" "vs_inv s'"
    by (auto simp: checkDecodedChunkState_Ok chunk_rule_def vs_inv_def)
qed

lemma readSignatureBlock_known: "known_major v \<Longrightarrow> readSignatureBlock E v mps \<noteq> Panic"
  by (auto simp: readSignatureBlock_def split: prod.splits sum.splits)

lemma readSignatureBlock_V1:
  "readSignatureBlock E v mps = Ret (Inr (sig, c, f, q)) mps' \<Longrightarrow> Major v = 1 \<Longrightarrow> f = (c = [])"
  by (auto simp: readSignatureBlock_def split: prod.splits sum.splits)

lemma verify_no_panic: "vs_inv v \<Longrightarrow> verifyStream_getNextChunk E v \<noteq> Panic"
proof -
  assume inv: "vs_inv v"
  then have major: "known_major (SVersion (vsHeader v))" by (simp add: vs_inv_def)
  obtain r mps where r: "readSignatureBlock E (SVersion (vsHeader v)) (vsMps v) = Ret r mps"
    using readSignatureBlock_known [OF major] by (metis go.exhaust)
  show ?thesis
  proof (cases r)
    case (Inr t)
    obtain sig c f q where t: "t = (sig, c, f, q)" by (cases t) auto
    obtain i where "attachedSignatureInput (SVersion (vsHeader v)) (vsHeaderHash v) c (q - 1) f = Ok i"
      using attachedSignatureInput_known [OF major] by blast
    then have "verifyStream_processBlock v sig c f q \<noteq> Panicked"
      using inv by (auto simp: verifyStream_processBlock_def vs_inv_def split: option.splits)
    moreover have "checkDecodedChunkState (SVersion (vsHeader v)) c q f \<noteq> Panicked"
      using major readSignatureBlock_V1 [OF r [unfolded Inr t]]
      by (auto simp: checkDecodedChunkState_def checkChunkState_def)
    ultimately show ?thesis using r Inr t
      by (cases "verifyStream_processBlock v sig c f q";
          cases "checkDecodedChunkState (SVersion (vsHeader v)) c q f")
        (simp_all add: verifyStream_getNextChunk_def split: prod.split)
  qed (use r in \<open>simp add: verifyStream_getNextChunk_def\<close>)
qed

lemma verify_next_consumes:
  assumes "codec_consumes E" "verifyStream_getNextChunk E v = Ret (c, None) v'"
  shows "length (pending (decoder (vsMps v'))) < length (pending (decoder (vsMps v)))"
proof -
  from assms(2) obtain sig seqno mps where
    r: "readSignatureBlock E (SVersion (vsHeader v)) (vsMps v) = Ret (Inr (sig, c, False, seqno)) mps"
    and v': "v' = v\<lparr>vsMps := mps\<rparr>" by (rule verify_next_more)
  from r have "(\<exists>x. mpsRead (decSignatureV1 E) (vsMps v) = (Inr x, mps)) \<or>
      (\<exists>x. mpsRead (decSignatureV2 E) (vsMps v) = (Inr x, mps))"
    by (auto simp: readSignatureBlock_def split: if_splits prod.splits sum.splits)
  with assms(1) v' show ?thesis by (auto simp: codec_consumes_def dest: mpsRead_consumes)
qed

end
