(* ===== verification/Instance.thy ===== *)
theory Instance
  imports Interfaces
begin

text \<open>
  A concrete instance of the parameters of \<open>Interfaces\<close>, on which the witnesses apply the
  theorems: a small self-delimiting binary codec for the packets, a secret box that is a tag
  in front of the plaintext, and keys whose signatures are the message itself. It shows that
  the laws the theorems assume can hold together; it is no model of the real cryptography.
\<close>

section \<open>Writing and parsing\<close>

type_synonym 'a parser = "bytes \<Rightarrow> ('a \<times> bytes) option"

definition parses :: "('a \<Rightarrow> bytes) \<Rightarrow> 'a parser \<Rightarrow> bool" where
  "parses put get \<longleftrightarrow> (\<forall>x rest. get (put x @ rest) = Some (x, rest))"

definition shrinks :: "'a parser \<Rightarrow> bool" where
  "shrinks get \<longleftrightarrow> (\<forall>bs x rest. get bs = Some (x, rest) \<longrightarrow> length rest < length bs)"

definition put_nat :: "nat \<Rightarrow> bytes" where "put_nat n = replicate n 1 @ [0]"

fun get_nat :: "nat parser" where
  "get_nat [] = None"
| "get_nat (b # bs) = (if b = 0 then Some (0, bs) else map_option (\<lambda>(n, r). (Suc n, r)) (get_nat bs))"

definition put_bytes :: "bytes \<Rightarrow> bytes" where "put_bytes xs = put_nat (length xs) @ xs"

definition get_bytes :: "bytes parser" where
  "get_bytes bs = (case get_nat bs of
     None \<Rightarrow> None | Some (n, r) \<Rightarrow> if n \<le> length r then Some (take n r, drop n r) else None)"

definition put_pair :: "('a \<Rightarrow> bytes) \<Rightarrow> ('b \<Rightarrow> bytes) \<Rightarrow> 'a \<times> 'b \<Rightarrow> bytes" where
  "put_pair f g p = f (fst p) @ g (snd p)"

definition get_pair :: "'a parser \<Rightarrow> 'b parser \<Rightarrow> ('a \<times> 'b) parser" where
  "get_pair f g bs = (case f bs of
     None \<Rightarrow> None | Some (a, r) \<Rightarrow> map_option (\<lambda>(b, r'). ((a, b), r')) (g r))"

definition get_map :: "('a \<Rightarrow> 'b) \<Rightarrow> 'a parser \<Rightarrow> 'b parser" where
  "get_map h f bs = map_option (\<lambda>(a, r). (h a, r)) (f bs)"

primrec put_all :: "('a \<Rightarrow> bytes) \<Rightarrow> 'a list \<Rightarrow> bytes" where
  "put_all f [] = []"
| "put_all f (x # xs) = f x @ put_all f xs"

primrec get_all :: "'a parser \<Rightarrow> nat \<Rightarrow> 'a list parser" where
  "get_all f 0 bs = Some ([], bs)"
| "get_all f (Suc n) bs = (case f bs of
     None \<Rightarrow> None | Some (x, r) \<Rightarrow> map_option (\<lambda>(xs, r'). (x # xs, r')) (get_all f n r))"

definition put_list :: "('a \<Rightarrow> bytes) \<Rightarrow> 'a list \<Rightarrow> bytes" where
  "put_list f xs = put_nat (length xs) @ put_all f xs"

definition get_list :: "'a parser \<Rightarrow> 'a list parser" where
  "get_list f bs = (case get_nat bs of None \<Rightarrow> None | Some (n, r) \<Rightarrow> get_all f n r)"

lemma parses_nat [simp]: "parses put_nat get_nat"
proof -
  have "get_nat (put_nat n @ rest) = Some (n, rest)" for n rest
    by (induction n) (simp_all add: put_nat_def)
  then show ?thesis by (simp add: parses_def)
qed

lemma parsesD: "parses put get \<Longrightarrow> get (put x @ rest) = Some (x, rest)"
  by (simp add: parses_def)

lemma parses_bytes [simp]: "parses put_bytes get_bytes"
  using parsesD [OF parses_nat] by (simp add: parses_def put_bytes_def get_bytes_def)

lemma parses_pair: "parses f f' \<Longrightarrow> parses g g' \<Longrightarrow> parses (put_pair f g) (get_pair f' g')"
  by (simp add: parses_def put_pair_def get_pair_def)

lemma parses_map: "parses f g \<Longrightarrow> (\<And>y. h (h' y) = y) \<Longrightarrow> parses (\<lambda>y. f (h' y)) (get_map h g)"
  by (simp add: parses_def get_map_def)

lemma parses_list: "parses f g \<Longrightarrow> parses (put_list f) (get_list g)"
proof -
  assume fg: "parses f g"
  have "get_all g (length xs) (put_all f xs @ rest) = Some (xs, rest)" for xs rest
    by (induction xs) (simp_all add: parsesD [OF fg])
  then show ?thesis
    using parsesD [OF parses_nat] by (simp add: parses_def put_list_def get_list_def)
qed

lemma shrinks_nat [simp]: "shrinks get_nat"
proof -
  have "get_nat bs = Some (n, rest) \<Longrightarrow> length rest < length bs" for bs n rest
  proof (induction bs arbitrary: n)
    case (Cons b bs)
    then show ?case by (auto split: if_splits intro: less_SucI)
  qed simp
  then show ?thesis by (simp add: shrinks_def)
qed

lemma shrinks_bytes [simp]: "shrinks get_bytes"
  using shrinks_nat unfolding shrinks_def get_bytes_def
  by (fastforce split: option.splits if_splits prod.splits)

lemma shrinks_pair: "shrinks f \<Longrightarrow> shrinks g \<Longrightarrow> shrinks (get_pair f g)"
  unfolding shrinks_def get_pair_def by (fastforce split: option.splits prod.splits)

lemma shrinks_map: "shrinks f \<Longrightarrow> shrinks (get_map h f)"
  unfolding shrinks_def get_map_def by auto

lemma shrinks_list: "shrinks f \<Longrightarrow> shrinks (get_list f)"
proof -
  assume f: "shrinks f"
  have all: "get_all f n bs = Some (xs, rest) \<Longrightarrow> length rest \<le> length bs" for n bs xs rest
  proof (induction n arbitrary: bs xs)
    case (Suc n)
    then obtain x r xs' where "f bs = Some (x, r)" "get_all f n r = Some (xs', rest)"
      by (auto split: option.splits prod.splits)
    with Suc.IH f show ?case by (fastforce simp: shrinks_def)
  qed simp
  show ?thesis unfolding shrinks_def
  proof (intro allI impI)
    fix bs xs rest assume "get_list f bs = Some (xs, rest)"
    then obtain n r where n: "get_nat bs = Some (n, r)" and xs: "get_all f n r = Some (xs, rest)"
      by (auto simp: get_list_def split: option.splits)
    have "length r < length bs" using shrinks_nat n unfolding shrinks_def by blast
    with all [OF xs] show "length rest < length bs" by simp
  qed
qed

section \<open>The packets\<close>

definition put_bool :: "bool \<Rightarrow> bytes" where "put_bool b = put_nat (if b then 1 else 0)"
definition get_bool :: "bool parser" where "get_bool = get_map (\<lambda>n. n = 1) get_nat"

definition put_int :: "int \<Rightarrow> bytes" where
  "put_int i = put_pair put_nat put_nat (nat i, nat (- i))"
definition get_int :: "int parser" where
  "get_int = get_map (\<lambda>(a, b). int a - int b) (get_pair get_nat get_nat)"

definition put_version :: "version \<Rightarrow> bytes" where
  "put_version v = put_pair put_int put_int (Major v, Minor v)"
definition get_version :: "version parser" where
  "get_version = get_map (\<lambda>(a, b). \<lparr>Major = a, Minor = b\<rparr>) (get_pair get_int get_int)"

definition put_sigheader :: "SignatureHeader \<Rightarrow> bytes" where
  "put_sigheader h = put_pair put_bytes (put_pair put_version (put_pair put_int (put_pair put_bytes put_bytes)))
     (SFormatName h, SVersion h, SType h, SenderPublic h, SNonce h)"
definition get_sigheader :: "SignatureHeader parser" where
  "get_sigheader = get_map (\<lambda>(a, b, c, d, e). \<lparr>SFormatName = a, SVersion = b, SType = c,
       SenderPublic = d, SNonce = e\<rparr>)
     (get_pair get_bytes (get_pair get_version (get_pair get_int (get_pair get_bytes get_bytes))))"

definition put_receiver :: "receiverKeys \<Rightarrow> bytes" where
  "put_receiver r = put_pair put_bytes put_bytes (ReceiverKID r, PayloadKeyBox r)"
definition get_receiver :: "receiverKeys parser" where
  "get_receiver = get_map (\<lambda>(a, b). \<lparr>ReceiverKID = a, PayloadKeyBox = b\<rparr>) (get_pair get_bytes get_bytes)"

definition put_encheader :: "EncryptionHeader \<Rightarrow> bytes" where
  "put_encheader h = put_pair put_bytes (put_pair put_version (put_pair put_int
       (put_pair put_bytes (put_pair put_bytes (put_list put_receiver)))))
     (HFormatName h, HVersion h, HType h, Ephemeral h, SenderSecretbox h, Receivers h)"
definition get_encheader :: "EncryptionHeader parser" where
  "get_encheader = get_map (\<lambda>(a, b, c, d, e, f). \<lparr>HFormatName = a, HVersion = b, HType = c,
       Ephemeral = d, SenderSecretbox = e, Receivers = f\<rparr>)
     (get_pair get_bytes (get_pair get_version (get_pair get_int
       (get_pair get_bytes (get_pair get_bytes (get_list get_receiver))))))"

definition put_sigV1 :: "signatureBlockV1 \<Rightarrow> bytes" where
  "put_sigV1 b = put_pair put_bytes put_bytes (Signature b, PayloadChunk b)"
definition get_sigV1 :: "signatureBlockV1 parser" where
  "get_sigV1 = get_map (\<lambda>(a, b). \<lparr>Signature = a, PayloadChunk = b\<rparr>) (get_pair get_bytes get_bytes)"
definition put_sigV2 :: "signatureBlockV2 \<Rightarrow> bytes" where
  "put_sigV2 b = put_pair put_bytes (put_pair put_bytes put_bool) (Signature b, PayloadChunk b, SIsFinal b)"
definition get_sigV2 :: "signatureBlockV2 parser" where
  "get_sigV2 = get_map (\<lambda>(a, b, c). \<lparr>Signature = a, PayloadChunk = b, SIsFinal = c\<rparr>)
     (get_pair get_bytes (get_pair get_bytes get_bool))"
definition put_encV1 :: "encryptionBlockV1 \<Rightarrow> bytes" where
  "put_encV1 b = put_pair (put_list put_bytes) put_bytes (HashAuthenticators b, PayloadCiphertext b)"
definition get_encV1 :: "encryptionBlockV1 parser" where
  "get_encV1 = get_map (\<lambda>(a, b). \<lparr>HashAuthenticators = a, PayloadCiphertext = b\<rparr>)
     (get_pair (get_list get_bytes) get_bytes)"
definition put_encV2 :: "encryptionBlockV2 \<Rightarrow> bytes" where
  "put_encV2 b = put_pair (put_list put_bytes) (put_pair put_bytes put_bool)
     (HashAuthenticators b, PayloadCiphertext b, EIsFinal b)"
definition get_encV2 :: "encryptionBlockV2 parser" where
  "get_encV2 = get_map (\<lambda>(a, b, c). \<lparr>HashAuthenticators = a, PayloadCiphertext = b, EIsFinal = c\<rparr>)
     (get_pair (get_list get_bytes) (get_pair get_bytes get_bool))"
definition put_sc :: "signcryptionBlock \<Rightarrow> bytes" where
  "put_sc b = put_pair put_bytes put_bool (SCPayloadCiphertext b, SCIsFinal b)"
definition get_sc :: "signcryptionBlock parser" where
  "get_sc = get_map (\<lambda>(a, b). \<lparr>SCPayloadCiphertext = a, SCIsFinal = b\<rparr>) (get_pair get_bytes get_bool)"

lemma parses_bool [simp]: "parses put_bool get_bool"
  unfolding put_bool_def get_bool_def by (rule parses_map [OF parses_nat]) simp

lemma parses_int [simp]: "parses put_int get_int"
  unfolding put_int_def get_int_def by (rule parses_map) (simp_all add: parses_pair)

lemma parses_version [simp]: "parses put_version get_version"
  unfolding put_version_def get_version_def by (rule parses_map) (simp_all add: parses_pair)

lemma parses_receiver [simp]: "parses put_receiver get_receiver"
  unfolding put_receiver_def get_receiver_def by (rule parses_map) (simp_all add: parses_pair)

lemma parses_packets:
  "parses put_sigheader get_sigheader" "parses put_encheader get_encheader"
  "parses put_sigV1 get_sigV1" "parses put_sigV2 get_sigV2" "parses put_encV1 get_encV1"
  "parses put_encV2 get_encV2" "parses put_sc get_sc"
  unfolding put_sigheader_def get_sigheader_def put_encheader_def get_encheader_def put_sigV1_def
    get_sigV1_def put_sigV2_def get_sigV2_def put_encV1_def get_encV1_def put_encV2_def
    get_encV2_def put_sc_def get_sc_def
  by (rule parses_map; simp add: parses_pair parses_list)+

lemma shrinks_packets:
  "shrinks get_sigV1" "shrinks get_sigV2" "shrinks get_encV1" "shrinks get_encV2" "shrinks get_sc"
  by (simp_all add: get_sigV1_def get_sigV2_def get_encV1_def get_encV2_def get_sc_def get_bool_def
      shrinks_map shrinks_pair shrinks_list)

section \<open>The environment\<close>

definition decode_with :: "'a parser \<Rightarrow> 'a decode" where
  "decode_with get r = (case get (pending r) of
     None \<Rightarrow> (Inl (if pending r = [] then ends r else ErrForeign 0), r)
   | Some (x, rest) \<Rightarrow> (Inr x, r\<lparr>pending := rest\<rparr>))"

definition unmarshal_with :: "'a parser \<Rightarrow> bytes \<Rightarrow> err + 'a" where
  "unmarshal_with get bs = (case get bs of None \<Rightarrow> Inl (ErrForeign 0) | Some (x, _) \<Rightarrow> Inr x)"

definition seal_tag :: "bytes \<Rightarrow> bytes" where
  "seal_tag key = take 16 (key @ replicate 16 0)"

primrec toy_marshal :: "packet \<Rightarrow> bytes" where
  "toy_marshal (PBytes b) = put_bytes b"
| "toy_marshal (PEncryptionHeader h) = put_encheader h"
| "toy_marshal (PSignatureHeader h) = put_sigheader h"
| "toy_marshal (PEncryptionV1 b) = put_encV1 b"
| "toy_marshal (PEncryptionV2 b) = put_encV2 b"
| "toy_marshal (PSigncryption b) = put_sc b"
| "toy_marshal (PSignatureV1 b) = put_sigV1 b"
| "toy_marshal (PSignatureV2 b) = put_sigV2 b"

definition toy_env :: env where
  "toy_env = \<lparr>marshal = (\<lambda>p. Inr (toy_marshal p)),
     decBytes = decode_with get_bytes,
     decSignatureV1 = decode_with get_sigV1, decSignatureV2 = decode_with get_sigV2,
     decEncryptionV1 = decode_with get_encV1, decEncryptionV2 = decode_with get_encV2,
     decSigncryption = decode_with get_sc, decAny = decode_with (get_map (\<lambda>_. ()) get_bytes),
     unmarshalEncryptionHeader = unmarshal_with get_encheader,
     unmarshalSignatureHeader = unmarshal_with get_sigheader,
     secretboxSeal = (\<lambda>m n k. seal_tag k @ m),
     secretboxOpen = (\<lambda>c n k. if 16 \<le> length c \<and> take 16 c = seal_tag k then Some (drop 16 c) else None)\<rparr>"

lemma reads_back_with:
  "parses put get \<Longrightarrow> (\<And>x. toy_marshal (con x) = put x) \<Longrightarrow> reads_back toy_env con (decode_with get)"
  by (simp add: reads_back_def toy_env_def decode_with_def parses_def)

lemma consumes_with: "shrinks get \<Longrightarrow> consumes (decode_with get)"
  by (fastforce simp: consumes_def decode_with_def shrinks_def split: option.splits prod.splits if_splits)

lemma toy_codec_ok [simp]: "codec_ok toy_env"
proof -
  have "stops_at_end (decAny toy_env)"
    by (simp add: stops_at_end_def toy_env_def decode_with_def get_map_def get_bytes_def)
  moreover have "unmarshal_with get_encheader (put_encheader h) = Inr h"
    "unmarshal_with get_sigheader (put_sigheader h') = Inr h'" for h h'
    using parsesD [OF parses_packets(2), of h "[]"] parsesD [OF parses_packets(1), of h' "[]"]
    by (simp_all add: unmarshal_with_def)
  ultimately show ?thesis
    using reads_back_with [OF parses_bytes, of PBytes] reads_back_with [OF parses_packets(3), of PSignatureV1]
      reads_back_with [OF parses_packets(4), of PSignatureV2]
      reads_back_with [OF parses_packets(5), of PEncryptionV1]
      reads_back_with [OF parses_packets(6), of PEncryptionV2]
      reads_back_with [OF parses_packets(7), of PSigncryption]
    by (auto simp: codec_ok_def toy_env_def)
qed

lemma toy_codec_consumes [simp]: "codec_consumes toy_env"
  by (simp add: codec_consumes_def toy_env_def consumes_with shrinks_packets shrinks_map)

lemma length_seal_tag [simp]: "length (seal_tag k) = 16"
  by (simp add: seal_tag_def)

lemma toy_secretbox_ok [simp]: "secretbox_ok toy_env"
  by (simp add: secretbox_ok_def toy_env_def secretboxOverhead_def)

lemma toy_secretbox_lengths [simp]: "secretbox_lengths toy_env"
  by (auto simp: secretbox_lengths_def toy_env_def secretboxOverhead_def split: if_splits)

section \<open>Keys\<close>

definition toy_sigpk :: "bytes \<Rightarrow> SigningPublicKey" where
  "toy_sigpk kid = \<lparr>sigToKID = kid,
     sigVerify = (\<lambda>m s. if s = kid @ m then None else Some ErrBadSignature)\<rparr>"

definition toy_sigsk :: "bytes \<Rightarrow> SigningSecretKey" where
  "toy_sigsk kid = \<lparr>sigSign = (\<lambda>m. Inr (kid @ m)), sigGetPublicKey = Some (toy_sigpk kid)\<rparr>"

lemma toy_signs_for [simp]: "signs_for (toy_sigsk kid) (toy_sigpk kid)"
  by (simp add: signs_for_def toy_sigsk_def toy_sigpk_def)

definition toy_sigring :: "bytes \<Rightarrow> SigKeyring" where
  "toy_sigring kid k = (if k = kid then Some (toy_sigpk kid) else None)"

lemma toy_sigring_lookup [simp]: "toy_sigring kid (sigToKID (toy_sigpk kid)) = Some (toy_sigpk kid)"
  by (simp add: toy_sigring_def toy_sigpk_def)

end
