(* ===== verification/Sign_Verify.thy ===== *)
theory Sign_Verify
  imports Sign_Correct Verify Instance
begin

text \<open>
  Signing and verifying together: a signed message verifies to its plaintext, whatever
  verifies was signed block by block in this order, and verification of any bytes ends
  without a panic.
\<close>

section \<open>Verifying what a stream wrote\<close>

abbreviation vs_state ::
  "bytes \<Rightarrow> err \<Rightarrow> packetSeqno \<Rightarrow> SignatureHeader \<Rightarrow> bytes \<Rightarrow> SigningPublicKey \<Rightarrow> verifyStream" where
  "vs_state bs e q h hh pk \<equiv>
     \<lparr>vsMps = \<lparr>decoder = \<lparr>pending = bs, ends = e\<rparr>, mpsSeqno = q\<rparr>, vsHeader = h, vsHeaderHash = hh,
      vsPublicKey = Some pk\<rparr>"

lemma sig_of_verifies:
  assumes "signs_for sk pk" "attachedSignatureInput v hh c q f = Ok i"
  shows "sigVerify pk i (sig_of sk v hh q c f) = None"
proof -
  obtain sig where "sigSign sk i = Inr sig" "sigVerify pk i sig = None"
    using assms(1) unfolding signs_for_def by blast
  with assms(2) show ?thesis by (simp add: sig_of_def)
qed

lemma readSignatureBlock_written:
  assumes "codec_ok E" "v = Version1 \<or> v = Version2" "chunk_rule v (length c) q f"
  shows "readSignatureBlock E v
      \<lparr>decoder = \<lparr>pending = enc1 E (sa_packet sk v hh q c f) @ rest, ends = e\<rparr>, mpsSeqno = q + 1\<rparr> =
    Ret (Inr (sig_of sk v hh q c f, c, f, q + 1))
      \<lparr>decoder = \<lparr>pending = rest, ends = e\<rparr>, mpsSeqno = q + 2\<rparr>"
  using assms(2)
proof
  assume v: "v = Version1"
  then have "sa_packet sk v hh q c f = PSignatureV1 \<lparr>Signature = sig_of sk v hh q c f, PayloadChunk = c\<rparr>"
    by (simp add: sa_packet_def)
  moreover have "f = (c = [])" using assms(3) v by (auto simp: chunk_rule_def)
  ultimately show ?thesis
    using mpsRead_encoded [OF codec_okD(3) [OF assms(1)] marshal_enc1 [OF assms(1)]] v
    by (simp add: readSignatureBlock_def)
next
  assume v: "v = Version2"
  then have "sa_packet sk v hh q c f =
      PSignatureV2 \<lparr>Signature = sig_of sk v hh q c f, PayloadChunk = c, SIsFinal = f\<rparr>"
    by (simp add: sa_packet_def)
  then show ?thesis
    using mpsRead_encoded [OF codec_okD(4) [OF assms(1)] marshal_enc1 [OF assms(1)]] v
    by (simp add: readSignatureBlock_def)
qed

lemma verify_next_written:
  assumes codec: "codec_ok E" and key: "signs_for sk pk" and v: "v = Version1 \<or> v = Version2"
    and rule: "chunk_rule v (length c) q f" and h: "SVersion h = v"
  shows "verifyStream_getNextChunk E
      (vs_state (enc1 E (sa_packet sk v hh q c f) @ rest) e (q + 1) h hh pk) =
    (if f then (case assertEndOfStream E \<lparr>decoder = \<lparr>pending = rest, ends = e\<rparr>, mpsSeqno = q + 2\<rparr> of
                  (e', mps) \<Rightarrow> Ret (c, Some e')
                    \<lparr>vsMps = mps, vsHeader = h, vsHeaderHash = hh, vsPublicKey = Some pk\<rparr>)
     else Ret (c, None) (vs_state rest e (q + 2) h hh pk))"
proof -
  have major: "known_major v" using v by auto
  obtain i where i: "attachedSignatureInput v hh c q f = Ok i"
    using attachedSignatureInput_known [OF major] by blast
  have "checkDecodedChunkState v c (q + 1) f = Ok ()"
    using major rule by (simp add: checkDecodedChunkState_Ok)
  then show ?thesis
    using readSignatureBlock_written [OF codec v rule] h i sig_of_verifies [OF key i]
    by (simp add: verifyStream_getNextChunk_def verifyStream_processBlock_def split: prod.split)
qed

interpretation vbr: block_reader E "verifyStream_getNextChunk E"
  "\<lambda>mps. \<lparr>vsMps = mps, vsHeader = h, vsHeaderHash = hh, vsPublicKey = Some pk\<rparr>"
  "\<lambda>q c f. enc1 E (sa_packet sk (SVersion h) hh q c f)" "SVersion h"
  "\<lambda>_. codec_ok E \<and> signs_for sk pk \<and> (SVersion h = Version1 \<or> SVersion h = Version2)"
  for E h hh pk sk
  by unfold_locales (auto simp: verify_next_written dest: codec_okD(8) split: prod.split)

lemma verify_emits:
  assumes "codec_ok E" "signs_for sk pk" "v = Version1 \<or> v = Version2" "SVersion h = v" "wf_blocks v q bs"
  shows "\<exists>s'. emits (verifyStream_getNextChunk E)
      (vs_state (sa_encode E sk v hh q bs) EOF (q + 1) h hh pk) (map fst bs) EOF s'"
  using assms vbr.reads_all [of h q bs E sk pk hh] by simp

section \<open>A message verifies\<close>

lemma verify_signed:
  assumes codec: "codec_ok E" and key: "signs_for sk pk" and v: "v = Version1 \<or> v = Version2"
    and rand: "16 \<le> length (pending rand)" and grow: "\<forall>c. c < grow c"
    and accepts: "versionValidator v = None" and ring: "keyring (sigToKID pk) = Some pk"
  shows "\<exists>msg rand'. Sign E v plaintext (Some sk) rand = (Ok msg, rand') \<and>
    Verify E grow versionValidator msg keyring = Some (Ok (pk, plaintext))"
proof -
  let ?h = "sig_header pk v MessageTypeAttachedSignature (take 16 (pending rand))"
  let ?hb = "enc1 E (PSignatureHeader ?h)"
  let ?bs = "message_blocks v signatureBlockSize plaintext"
  have "wf_blocks v 0 ?bs" using v by (intro message_blocks_wf) simp_all
  moreover have "SVersion ?h = v" by (simp add: sig_header_def)
  ultimately obtain s' where "emits (verifyStream_getNextChunk E)
      (vs_state (sa_encode E sk v (hashHeader ?hb) 0 ?bs) EOF (0 + 1) ?h (hashHeader ?hb) pk)
      (map fst ?bs) EOF s'"
    using verify_emits [OF codec key v] by blast
  from ReadAll_emits [OF this grow] obtain r' where
    read: "ReadAll grow (chunkReader_Read (verifyStream_getNextChunk E)) (newChunkReader
        (vs_state (sa_encode E sk v (hashHeader ?hb) 0 ?bs) EOF 1 ?h (hashHeader ?hb) pk)) =
      Some (Ret (plaintext, None) r')"
    by (auto simp: concat_message_blocks)
  have "mpsRead (decBytes E) (newMsgpackStream (bytes_input (signed_message E sk v ?hb plaintext))) =
      (Inr (?hb, 0), \<lparr>decoder = \<lparr>pending = sa_encode E sk v (hashHeader ?hb) 0 ?bs, ends = EOF\<rparr>,
        mpsSeqno = 1\<rparr>)"
    using mpsRead_encoded [OF codec_okD(2) [OF codec] marshal_enc1 [OF codec]]
    by (simp add: newMsgpackStream_def bytes_input_def signed_message_def)
  moreover have "unmarshalSignatureHeader E ?hb = Inr ?h"
    using codec_okD(10) [OF codec marshal_enc1 [OF codec]] .
  moreover have "SignatureHeader_validate versionValidator MessageTypeAttachedSignature ?h = None"
    using accepts by (simp add: SignatureHeader_validate_def sig_header_def)
  ultimately have "NewVerifyStream E versionValidator (bytes_input (signed_message E sk v ?hb plaintext)) keyring =
      Inr (pk, newChunkReader (vs_state (sa_encode E sk v (hashHeader ?hb) 0 ?bs) EOF 1 ?h (hashHeader ?hb) pk))"
    using ring by (simp add: NewVerifyStream_def newVerifyStream_def verifyStream_readHeader_def sig_header_def)
  then have "Verify E grow versionValidator (signed_message E sk v ?hb plaintext) keyring =
      Some (Ok (pk, plaintext))"
    by (simp add: Verify_def read)
  then show ?thesis using Sign_message [OF codec key v rand] by blast
qed

lemma toy_round_trip:
  "\<exists>msg rand'. Sign toy_env Version2 [1, 2, 3] (Some (toy_sigsk [7])) (bytes_input (replicate 16 0)) =
     (Ok msg, rand') \<and>
   Verify toy_env Suc CheckKnownMajorVersion msg (toy_sigring [7]) = Some (Ok (toy_sigpk [7], [1, 2, 3]))"
  by (rule verify_signed) (simp_all add: bytes_input_def CheckKnownMajorVersion_None)

section \<open>Properties of attached signatures\<close>

text \<open>
  C6: signing then verifying returns the signer's key and the plaintext, of any length, in both
  versions of the format, for any buffer sizes \<open>io.ReadAll\<close> chooses.
\<close>

theorem Verify_Sign:
  assumes codec: "codec_ok E" and key: "signs_for sk pk" and v: "v = Version1 \<or> v = Version2"
    and rand: "16 \<le> length (pending rand)" and grow: "\<forall>c. c < grow c"
    and accepts: "versionValidator v = None" and ring: "keyring (sigToKID pk) = Some pk"
  shows "\<exists>msg rand'. Sign E v plaintext (Some sk) rand = (Ok msg, rand') \<and>
    Verify E grow versionValidator msg keyring = Some (Ok (pk, plaintext))"
  using assms by (rule verify_signed)

theorem Verify_Sign_witness:
  "\<exists>msg rand'. Sign toy_env Version1 [1, 2, 3] (Some (toy_sigsk [7])) (bytes_input (replicate 16 0)) =
     (Ok msg, rand') \<and>
   Verify toy_env Suc CheckKnownMajorVersion msg (toy_sigring [7]) = Some (Ok (toy_sigpk [7], [1, 2, 3]))"
  by (rule Verify_Sign) (simp_all add: bytes_input_def CheckKnownMajorVersion_None)

text \<open>
  C7: verification ends and does not panic, on any bytes at all, when the validator admits known
  major versions only: it returns a message or an error.
\<close>

theorem Verify_total:
  assumes codec: "codec_consumes E" and grow: "\<forall>c. c < grow c"
    and known: "\<forall>v. versionValidator v = None \<longrightarrow> known_major v"
  shows "\<exists>r. Verify E grow versionValidator msg keyring = Some r \<and> r \<noteq> Panicked"
proof (cases "NewVerifyStream E versionValidator (bytes_input msg) keyring")
  case (Inl e)
  then show ?thesis by (simp add: Verify_def)
next
  case (Inr st)
  then obtain skey s where st: "st = (skey, newChunkReader s)" "vs_inv s"
    using known by (auto simp: NewVerifyStream_def newVerifyStream_def verifyStream_readHeader_def vs_inv_def
        SignatureHeader_validate_def split: sum.splits option.splits prod.splits)
  obtain cs e s' where "emits (verifyStream_getNextChunk E) s cs e s'"
    using vs.emits_exists [of E "\<lambda>s. length (pending (decoder (vsMps s)))" s] st(2)
      verify_no_panic verify_next_consumes [OF codec] by blast
  from ReadAll_emits [OF this grow] Inr st show ?thesis
    by (auto simp: Verify_def)
qed

theorem Verify_total_witness:
  "\<exists>r. Verify toy_env Suc CheckKnownMajorVersion [1, 0, 5] (toy_sigring [7]) = Some r \<and> r \<noteq> Panicked"
  by (rule Verify_total) (simp_all add: CheckKnownMajorVersion_None)

text \<open>
  C22: the bytes that \<open>signAttachedStream\<close> writes, and its state, do not depend on how the input
  is cut into calls of \<open>Write\<close>: a sequence of writes that succeeds does what one write of the
  concatenation does, for any destination.
\<close>

theorem signAttachedStream_chunking:
  assumes "writes (signAttachedStream_Write enc) xs s = Ret None s'"
    and "length (saBuffer s) \<le> signatureBlockSize"
  shows "signAttachedStream_Write enc (concat xs) s = Ret (length (concat xs), None) s'"
  by (rule sa.writes_concat [where ok = "\<lambda>_. True", OF signAttachedStream_Write_loop _ assms]) simp_all

theorem signAttachedStream_chunking_witness:
  "signAttachedStream_Write (newEncoder toy_env) (concat [[1], [2, 3]])
     \<lparr>saVersion = Version2, saHeaderHash = [], saEncoder = [], saBuffer = [9], saSeqno = 0,
      saSecretKey = toy_sigsk [7]\<rparr> =
   Ret (length (concat [[1], [2, 3 :: byte]]), None)
     \<lparr>saVersion = Version2, saHeaderHash = [], saEncoder = [], saBuffer = [9, 1, 2, 3], saSeqno = 0,
      saSecretKey = toy_sigsk [7]\<rparr>"
  by (rule signAttachedStream_chunking)
    (simp_all add: signAttachedStream_Write_def signAttachedStream_loop.simps signatureBlockSize_def)

section \<open>What verification guarantees\<close>

text \<open>
  A packet (signature, chunk, final flag) and the block it was read as: the signature is valid
  and covers the header, the position, the chunk and (in version 2) the final flag.
\<close>

definition verified_block ::
  "SigningPublicKey \<Rightarrow> version \<Rightarrow> bytes \<Rightarrow> packetSeqno \<Rightarrow> (bytes \<times> bytes \<times> bool) \<times> bytes \<times> bool \<Rightarrow> bool" where
  "verified_block pk v hh q pb \<longleftrightarrow>
     (case pb of ((sig, c, f), b) \<Rightarrow> b = (c, f) \<and>
        (\<exists>i. attachedSignatureInput v hh c q f = Ok i \<and> sigVerify pk i sig = None))"

definition sig_packet ::
  "env \<Rightarrow> version \<Rightarrow> msgpackStream \<Rightarrow> ((bytes \<times> bytes \<times> bool) \<times> msgpackStream) option" where
  "sig_packet E v mps =
     (case readSignatureBlock E v mps of
        Ret (Inr (sig, c, f, q)) mps' \<Rightarrow> Some ((sig, c, f), mps') | _ \<Rightarrow> None)"

definition never_EOF :: "SigningPublicKey \<Rightarrow> bool" where
  "never_EOF pk \<longleftrightarrow> (\<forall>m s. sigVerify pk m s \<noteq> Some EOF)"

lemma readSignatureBlock_seqno:
  "readSignatureBlock E v mps = Ret (Inr (sig, c, f, q)) mps' \<Longrightarrow>
     q = mpsSeqno mps \<and> mpsSeqno mps' = q + 1"
  by (auto simp: readSignatureBlock_def mpsRead_def split: if_splits prod.splits sum.splits)

lemma processBlock_verified:
  "vsPublicKey v = Some pk \<Longrightarrow> verifyStream_processBlock v sig c f q = Ok () \<Longrightarrow>
     verified_block pk (SVersion (vsHeader v)) (vsHeaderHash v) (q - 1) ((sig, c, f), c, f)"
  by (auto simp: verifyStream_processBlock_def verified_block_def split: option.splits)

lemma verify_next_EOF:
  assumes "verifyStream_getNextChunk E v = Ret (c, Some EOF) v'"
    and pk: "vsPublicKey v = Some pk" "never_EOF pk"
  obtains sig seqno mps where
    "readSignatureBlock E (SVersion (vsHeader v)) (vsMps v) = Ret (Inr (sig, c, True, seqno)) mps"
    "verifyStream_processBlock v sig c True seqno = Ok ()"
    "checkDecodedChunkState (SVersion (vsHeader v)) c seqno True = Ok ()"
    "fst (assertEndOfStream E mps) = EOF"
proof -
  from assms(1) obtain r mps where r: "readSignatureBlock E (SVersion (vsHeader v)) (vsMps v) = Ret r mps"
    by (auto simp: verifyStream_getNextChunk_def split: go.splits)
  show thesis
  proof (cases r)
    case (Inl e)
    with assms(1) r show thesis by (auto simp: verifyStream_getNextChunk_def split: if_splits)
  next
    case (Inr t)
    obtain sig chunk f seqno where t: "t = (sig, chunk, f, seqno)" by (cases t) auto
    have "verifyStream_processBlock v sig chunk f seqno \<noteq> Err EOF"
      using pk
      by (auto simp: verifyStream_processBlock_def never_EOF_def bind_out_eq_Err split: option.splits)
    moreover have "checkDecodedChunkState (SVersion (vsHeader v)) chunk seqno f \<noteq> Err EOF"
      by (auto simp: checkDecodedChunkState_def checkChunkState_def)
    ultimately have "f = True \<and> chunk = c \<and> verifyStream_processBlock v sig chunk f seqno = Ok () \<and>
        checkDecodedChunkState (SVersion (vsHeader v)) chunk seqno f = Ok () \<and>
        fst (assertEndOfStream E mps) = EOF"
      using assms(1) r Inr t
      by (cases "verifyStream_processBlock v sig chunk f seqno";
          cases "checkDecodedChunkState (SVersion (vsHeader v)) chunk seqno f")
        (auto simp: verifyStream_getNextChunk_def split: if_splits prod.splits)
    with r Inr t show thesis by (intro that) auto
  qed
qed

definition vs_reads :: "SigningPublicKey \<Rightarrow> version \<Rightarrow> bytes \<Rightarrow> verifyStream \<Rightarrow> bool" where
  "vs_reads pk v hh s \<longleftrightarrow> never_EOF pk \<and> vsPublicKey s = Some pk \<and> SVersion (vsHeader s) = v \<and>
     vsHeaderHash s = hh"

interpretation vbs: block_source E "verifyStream_getNextChunk E" vsMps "sig_packet E v" v
  "vs_reads pk v hh" "verified_block pk v hh" for E pk v hh
proof
  fix s c s'
  assume ok: "vs_reads pk v hh s" and "verifyStream_getNextChunk E s = Ret (c, None) s'"
  then obtain sig seqno mps where
    r: "readSignatureBlock E v (vsMps s) = Ret (Inr (sig, c, False, seqno)) mps"
    and b: "verifyStream_processBlock s sig c False seqno = Ok ()"
      "checkDecodedChunkState v c seqno False = Ok ()" "s' = s\<lparr>vsMps := mps\<rparr>"
    by (auto simp: vs_reads_def elim: verify_next_more)
  then show "\<exists>p. vs_reads pk v hh s' \<and> mpsSeqno (vsMps s') = mpsSeqno (vsMps s) + 1 \<and>
      sig_packet E v (vsMps s) = Some (p, vsMps s') \<and>
      chunk_rule v (length c) (mpsSeqno (vsMps s) - 1) False \<and>
      verified_block pk v hh (mpsSeqno (vsMps s) - 1) (p, c, False)"
    using ok readSignatureBlock_seqno [OF r] processBlock_verified [OF _ b(1), of pk]
    by (intro exI [of _ "(sig, c, False)"]) (auto simp: vs_reads_def checkDecodedChunkState_Ok sig_packet_def)
next
  fix s c s'
  assume ok: "vs_reads pk v hh s" and "verifyStream_getNextChunk E s = Ret (c, Some EOF) s'"
  then obtain sig seqno mps where
    r: "readSignatureBlock E v (vsMps s) = Ret (Inr (sig, c, True, seqno)) mps"
    and b: "verifyStream_processBlock s sig c True seqno = Ok ()"
      "checkDecodedChunkState v c seqno True = Ok ()" "fst (assertEndOfStream E mps) = EOF"
    by (auto simp: vs_reads_def elim: verify_next_EOF)
  then show "\<exists>p m. sig_packet E v (vsMps s) = Some (p, m) \<and> fst (assertEndOfStream E m) = EOF \<and>
      chunk_rule v (length c) (mpsSeqno (vsMps s) - 1) True \<and>
      verified_block pk v hh (mpsSeqno (vsMps s) - 1) (p, c, True)"
    using ok readSignatureBlock_seqno [OF r] processBlock_verified [OF _ b(1), of pk]
    by (intro exI [of _ "(sig, c, True)"]) (auto simp: vs_reads_def checkDecodedChunkState_Ok sig_packet_def)
qed

text \<open>
  C1: what \<open>Verify\<close> returns was signed. The message is a header packet, accepted by the validator
  and naming the returned key, then block packets and nothing else; their signatures verify
  under the key for that header, their position, chunk and final flag, they form a complete
  sequence that ends with the only final one, and their chunks make up the plaintext. So blocks
  cannot be reordered, repeated, dropped, cut off or followed by garbage.
\<close>

theorem Verify_sound:
  assumes "Verify E grow versionValidator msg keyring = Some (Ok (pk, plaintext))"
    and "never_EOF pk"
  shows "\<exists>headerBytes mps h ps bs.
    mpsRead (decBytes E) (newMsgpackStream (bytes_input msg)) = (Inr (headerBytes, 0), mps) \<and>
    unmarshalSignatureHeader E headerBytes = Inr h \<and>
    versionValidator (SVersion h) = None \<and> SType h = MessageTypeAttachedSignature \<and>
    keyring (SenderPublic h) = Some pk \<and>
    parsed E (sig_packet E (SVersion h)) mps ps \<and> length ps = length bs \<and>
    all_from (verified_block pk (SVersion h) (hashHeader headerBytes)) 0 (zip ps bs) \<and>
    wf_blocks (SVersion h) 0 bs \<and> plaintext = concat (map fst bs)"
proof -
  from assms(1) obtain st where st: "NewVerifyStream E versionValidator (bytes_input msg) keyring = Inr st"
    by (auto simp: Verify_def split: sum.splits)
  then obtain headerBytes h q mps where
    hd: "mpsRead (decBytes E) (newMsgpackStream (bytes_input msg)) = (Inr (headerBytes, q), mps)"
      "unmarshalSignatureHeader E headerBytes = Inr h"
      "SignatureHeader_validate versionValidator MessageTypeAttachedSignature h = None"
    by (auto simp: NewVerifyStream_def newVerifyStream_def verifyStream_readHeader_def split: sum.splits option.splits prod.splits)
  let ?s = "\<lambda>k. \<lparr>vsMps = mps, vsHeader = h, vsHeaderHash = hashHeader headerBytes, vsPublicKey = Some k\<rparr>"
  obtain skey where sk: "keyring (SenderPublic h) = Some skey" "st = (skey, newChunkReader (?s skey))"
    using st hd by (auto simp: NewVerifyStream_def newVerifyStream_def verifyStream_readHeader_def split: option.splits)
  let ?all = "ReadAll grow (chunkReader_Read (verifyStream_getNextChunk E)) (newChunkReader (?s skey))"
  obtain res where res: "?all = Some res"
    using assms(1) st sk by (auto simp: Verify_def)
  with assms(1) st sk obtain r' where "skey = pk" "res = Ret (plaintext, None) r'"
    by (cases res) (auto simp: Verify_def split: option.splits)
  with res have pk: "skey = pk" and
    read: "ReadAll grow (chunkReader_Read (verifyStream_getNextChunk E)) (newChunkReader (?s pk)) =
      Some (Ret (plaintext, None) r')" by simp_all
  have q: "q = 0" "mpsSeqno mps = 1"
    using hd(1) by (auto simp: mpsRead_def newMsgpackStream_def split: prod.splits sum.splits)
  obtain ps bs where "plaintext = concat (map fst bs)" "length ps = length bs"
    "parsed E (sig_packet E (SVersion h)) mps ps" "wf_blocks (SVersion h) 0 bs"
    "all_from (verified_block pk (SVersion h) (hashHeader headerBytes)) 0 (zip ps bs)"
    by (rule vbs.ReadAll_checked [OF read, of pk "SVersion h" "hashHeader headerBytes"])
      (use assms(2) q(2) in \<open>auto simp: vs_reads_def\<close>)
  moreover have "versionValidator (SVersion h) = None" "SType h = MessageTypeAttachedSignature"
    using hd(3) by (auto simp: SignatureHeader_validate_def split: option.splits if_splits)
  ultimately show ?thesis using hd(1,2) sk(1) unfolding pk q(1) by blast
qed

theorem Verify_sound_witness:
  "\<exists>msg headerBytes mps h ps bs.
    mpsRead (decBytes toy_env) (newMsgpackStream (bytes_input msg)) = (Inr (headerBytes, 0), mps) \<and>
    unmarshalSignatureHeader toy_env headerBytes = Inr h \<and>
    CheckKnownMajorVersion (SVersion h) = None \<and> SType h = MessageTypeAttachedSignature \<and>
    toy_sigring [7] (SenderPublic h) = Some (toy_sigpk [7]) \<and>
    parsed toy_env (sig_packet toy_env (SVersion h)) mps ps \<and> length ps = length bs \<and>
    all_from (verified_block (toy_sigpk [7]) (SVersion h) (hashHeader headerBytes)) 0 (zip ps bs) \<and>
    wf_blocks (SVersion h) 0 bs \<and> [1, 2, 3] = concat (map fst bs)"
proof -
  obtain msg where "Verify toy_env Suc CheckKnownMajorVersion msg (toy_sigring [7]) =
      Some (Ok (toy_sigpk [7], [1, 2, 3]))" using toy_round_trip by blast
  moreover have "never_EOF (toy_sigpk [7])" by (simp add: never_EOF_def toy_sigpk_def)
  ultimately show ?thesis by (rule Verify_sound [THEN exI [of _ msg]])
qed

section \<open>Detached signatures\<close>

lemma detached_verifies:
  assumes codec: "codec_ok E" and key: "signs_for sk pk"
    and rand: "16 \<le> length (pending rand)"
    and accepts: "versionValidator v = None" and ring: "keyring (sigToKID pk) = Some pk"
  shows "\<exists>sig rand'. SignDetached E v plaintext (Some sk) rand = (Ok sig, rand') \<and>
    VerifyDetached E versionValidator plaintext sig keyring = Inr pk"
proof -
  let ?h = "sig_header pk v MessageTypeDetachedSignature (take 16 (pending rand))"
  let ?hb = "enc1 E (PSignatureHeader ?h)"
  let ?i = "detachedSignatureInputFromHash (sha512 (hashHeader ?hb @ plaintext))"
  obtain s where s: "sigSign sk ?i = Inr s" "sigVerify pk ?i s = None"
    using key unfolding signs_for_def by blast
  let ?m = "enc1 E (PBytes ?hb) @ enc1 E (PBytes s)"
  have pk: "sigGetPublicKey sk = Some pk" using key by (simp add: signs_for_def)
  have "SignDetached E v plaintext (Some sk) rand = (Ok ?m, rand\<lparr>pending := drop 16 (pending rand)\<rparr>)"
    using s(1) by (simp add: SignDetached_def signToStream_def newSignDetachedStream_def pk
        newSignatureHeader_enough [OF rand] marshal_enc1 [OF codec] newEncoder_ok [OF codec]
        signDetachedStream_Write_def signDetachedStream_Close_def)
  moreover have "VerifyDetached E versionValidator plaintext ?m keyring = Inr pk"
  proof -
    note rd = mpsRead_encoded [OF codec_okD(2) [OF codec] marshal_enc1 [OF codec]]
    have "SignatureHeader_validate versionValidator MessageTypeDetachedSignature ?h = None"
      using accepts by (simp add: SignatureHeader_validate_def sig_header_def message_type_defs)
    then have "newVerifyStream E versionValidator (bytes_input ?m) MessageTypeDetachedSignature =
        Inr \<lparr>vsMps = \<lparr>decoder = \<lparr>pending = enc1 E (PBytes s), ends = EOF\<rparr>, mpsSeqno = 1\<rparr>,
             vsHeader = ?h, vsHeaderHash = hashHeader ?hb, vsPublicKey = None\<rparr>"
      using rd codec_okD(10) [OF codec marshal_enc1 [OF codec]]
      by (simp add: newVerifyStream_def verifyStream_readHeader_def newMsgpackStream_def bytes_input_def)
    then show ?thesis
      using rd [of s "[]"] s(2) ring
      by (simp add: VerifyDetached_def VerifyDetachedReader_def bytes_input_def sig_header_def)
  qed
  ultimately show ?thesis by blast
qed

text \<open>
  C21: a detached signature verifies for the message it was made for and returns the signer's
  key, whatever the version, provided the validator accepts it.
\<close>

theorem VerifyDetached_SignDetached:
  assumes codec: "codec_ok E" and key: "signs_for sk pk"
    and rand: "16 \<le> length (pending rand)"
    and accepts: "versionValidator v = None" and ring: "keyring (sigToKID pk) = Some pk"
  shows "\<exists>sig rand'. SignDetached E v plaintext (Some sk) rand = (Ok sig, rand') \<and>
    VerifyDetached E versionValidator plaintext sig keyring = Inr pk"
  using assms by (rule detached_verifies)

theorem VerifyDetached_SignDetached_witness:
  "\<exists>sig rand'. SignDetached toy_env Version1 [1, 2, 3] (Some (toy_sigsk [7])) (bytes_input (replicate 16 0)) =
     (Ok sig, rand') \<and>
   VerifyDetached toy_env CheckKnownMajorVersion [1, 2, 3] sig (toy_sigring [7]) = Inr (toy_sigpk [7])"
  by (rule VerifyDetached_SignDetached) (simp_all add: bytes_input_def CheckKnownMajorVersion_None)

end
