(* ===== verification/Encrypt.thy ===== *)
theory Encrypt
  imports Blocks Rand
begin

text \<open>
  \<open>encrypt.go\<close>: the encrypting stream and \<open>Seal\<close>. The randomness of an encryption is a state
  \<open>'r\<close> that the interface \<open>encryptRNG\<close> and the creator of the ephemeral key draw from; the
  default one reads \<open>crypto/rand.Reader\<close>.
\<close>

section \<open>The blocks\<close>

record 'w encryptStream =
  esVersion :: version
  esEncoder :: 'w
  esPayloadKey :: bytes
  esBuffer :: bytes
  esHeaderHash :: bytes
  esMacKeys :: "bytes list"
  esNumBlocks :: encryptionBlockNumber
  esErr :: "err option"

definition makeEncryptionBlock :: "version \<Rightarrow> bytes \<Rightarrow> bytes list \<Rightarrow> bool \<Rightarrow> packet result" where
  "makeEncryptionBlock v ciphertext authenticators isFinal =
     (if v = Version1
      then Ok (PEncryptionV1 \<lparr>HashAuthenticators = authenticators, PayloadCiphertext = ciphertext\<rparr>)
      else if v = Version2
      then Ok (PEncryptionV2 \<lparr>HashAuthenticators = authenticators, PayloadCiphertext = ciphertext,
                              EIsFinal = isFinal\<rparr>)
      else Panicked)"

definition checkEncryptBlockRead ::
  "version \<Rightarrow> bool \<Rightarrow> nat \<Rightarrow> nat \<Rightarrow> nat \<Rightarrow> (err, unit) outcome" where
  "checkEncryptBlockRead v isFinal blockSize plaintextLen bufLen =
     (if plaintextLen > blockSize then Panicked
      else if plaintextLen < blockSize \<and> bufLen > 0 then Panicked
      else if v = Version1 then (if isFinal \<noteq> (plaintextLen = 0) then Panicked else Ok ())
      else if v = Version2 then (if isFinal \<and> bufLen \<noteq> 0 then Panicked else Ok ())
      else Panicked)"

text \<open>The loop over the MAC keys.\<close>

primrec authenticators_of :: "bytes list \<Rightarrow> bytes \<Rightarrow> bytes list result" where
  "authenticators_of [] h = Ok []"
| "authenticators_of (k # ks) h =
     bind_out (computePayloadAuthenticator k h)
       (\<lambda>a. bind_out (authenticators_of ks h) (\<lambda>as. Ok (a # as)))"

text \<open>From the chunk to the packet; the plaintext has left the buffer before.\<close>

definition encrypt_packet :: "env \<Rightarrow> 'w encryptStream \<Rightarrow> bytes \<Rightarrow> bool \<Rightarrow> packet result" where
  "encrypt_packet E s plaintext isFinal =
     (let nonce = nonceForChunkSecretBox (esNumBlocks s);
          ciphertext = secretboxSeal E plaintext nonce (esPayloadKey s)
      in bind_out (assertEncodedChunkState (esVersion s) ciphertext secretboxOverhead
                     (esNumBlocks s) isFinal) (\<lambda>_.
         bind_out (computePayloadHash (esVersion s) (esHeaderHash s) nonce ciphertext isFinal)
           (\<lambda>hashToAuthenticate.
         bind_out (authenticators_of (esMacKeys s) hashToAuthenticate) (\<lambda>authenticators.
           makeEncryptionBlock (esVersion s) ciphertext authenticators isFinal))))"

definition encryptBlock ::
  "env \<Rightarrow> 'w encoder \<Rightarrow> bool \<Rightarrow> 'w encryptStream \<Rightarrow> (err option, 'w encryptStream) go" where
  "encryptBlock E enc isFinal s0 =
     (let plaintext = take encryptionBlockSize (esBuffer s0);
          s = s0\<lparr>esBuffer := drop encryptionBlockSize (esBuffer s0)\<rparr>
      in case checkEncryptBlockRead (esVersion s) isFinal encryptionBlockSize
                (length plaintext) (length (esBuffer s)) of
           Ok _ \<Rightarrow>
             (case encryptionBlockNumber_check (esNumBlocks s) of
                Some e \<Rightarrow> Ret (Some e) s
              | None \<Rightarrow>
                  (case encrypt_packet E s plaintext isFinal of
                     Ok eBlock \<Rightarrow>
                       (case enc eBlock (esEncoder s) of
                          (Some e, w) \<Rightarrow> Ret (Some e) (s\<lparr>esEncoder := w\<rparr>)
                        | (None, w) \<Rightarrow>
                            Ret None (s\<lparr>esEncoder := w, esNumBlocks := esNumBlocks s + 1\<rparr>))
                   | _ \<Rightarrow> Panic))
         | _ \<Rightarrow> Panic)"

text \<open>\<open>es.err = es.encryptBlock(false)\<close>, as the loop of \<open>Write\<close> does.\<close>

definition encryptBlock_err ::
  "env \<Rightarrow> 'w encoder \<Rightarrow> bool \<Rightarrow> 'w encryptStream \<Rightarrow> (err option, 'w encryptStream) go" where
  "encryptBlock_err E enc isFinal s =
     (case encryptBlock E enc isFinal s of
        Panic \<Rightarrow> Panic
      | Ret e s' \<Rightarrow> Ret e (s'\<lparr>esErr := e\<rparr>))"

lemma encryptBlock_buffer:
  "encryptBlock E enc f s = Ret r s' \<Longrightarrow> esBuffer s' = drop encryptionBlockSize (esBuffer s)"
  by (auto simp: encryptBlock_def Let_def split: outcome.splits prod.splits option.splits)

lemma encryptBlock_err_buffer:
  "encryptBlock_err E enc f s = Ret r s' \<Longrightarrow> esBuffer s' = drop encryptionBlockSize (esBuffer s)"
  by (auto simp: encryptBlock_err_def dest: encryptBlock_buffer split: go.splits)

function encryptStream_loop ::
  "env \<Rightarrow> 'w encoder \<Rightarrow> 'w encryptStream \<Rightarrow> (err option, 'w encryptStream) go" where
  "encryptStream_loop E enc s =
     (if length (esBuffer s) > encryptionBlockSize
      then (case encryptBlock_err E enc False s of
              Panic \<Rightarrow> Panic
            | Ret (Some e) s' \<Rightarrow> Ret (Some e) s'
            | Ret None s' \<Rightarrow> encryptStream_loop E enc s')
      else Ret None s)"
  by pat_completeness auto
termination
  by (relation "measure (\<lambda>(E, enc, s). length (esBuffer s))")
    (auto dest!: encryptBlock_err_buffer intro!: diff_less)

declare encryptStream_loop.simps [simp del]

definition encryptStream_Write ::
  "env \<Rightarrow> 'w encoder \<Rightarrow> bytes \<Rightarrow> 'w encryptStream \<Rightarrow> (nat \<times> err option, 'w encryptStream) go" where
  "encryptStream_Write E enc plaintext s =
     (case esErr s of
        Some e \<Rightarrow> Ret (0, Some e) s
      | None \<Rightarrow>
          (case encryptStream_loop E enc (s\<lparr>esBuffer := esBuffer s @ plaintext\<rparr>) of
             Panic \<Rightarrow> Panic
           | Ret (Some e) s' \<Rightarrow> Ret (0, Some e) s'
           | Ret None s' \<Rightarrow> Ret (length plaintext, None) s'))"

text \<open>\<open>Close\<close> does not look at \<open>es.err\<close>.\<close>

definition encryptStream_Close ::
  "env \<Rightarrow> 'w encoder \<Rightarrow> 'w encryptStream \<Rightarrow> (err option, 'w encryptStream) go" where
  "encryptStream_Close E enc s =
     (if esVersion s = Version1
      then (case (if length (esBuffer s) > 0 then encryptBlock E enc False s else Ret None s) of
              Panic \<Rightarrow> Panic
            | Ret (Some e) s' \<Rightarrow> Ret (Some e) s'
            | Ret None s' \<Rightarrow> if length (esBuffer s') > 0 then Panic else encryptBlock E enc True s')
      else if esVersion s = Version2
      then (case encryptBlock E enc True s of
              Panic \<Rightarrow> Panic
            | Ret (Some e) s' \<Rightarrow> Ret (Some e) s'
            | Ret None s' \<Rightarrow> if length (esBuffer s') > 0 then Panic else Ret None s')
      else Panic)"

section \<open>The header\<close>

definition maxReceiverCount :: nat where "maxReceiverCount = 2 ^ 32 - 1"

primrec check_repeated :: "bytes set \<Rightarrow> BoxPublicKey list \<Rightarrow> err option" where
  "check_repeated receiverSet [] = None"
| "check_repeated receiverSet (r # rs) =
     (if boxToKID r \<in> receiverSet then Some (ErrRepeatedKey (boxToKID r))
      else check_repeated (insert (boxToKID r) receiverSet) rs)"

definition checkEncryptReceivers :: "BoxPublicKey list \<Rightarrow> err option" where
  "checkEncryptReceivers receivers =
     (if length receivers \<le> 0 \<or> length receivers > maxReceiverCount then Some ErrBadReceivers
      else check_repeated {} receivers)"

definition shuffleEncryptReceivers ::
  "BoxPublicKey list \<Rightarrow> input \<Rightarrow> (err + BoxPublicKey list, input) go" where
  "shuffleEncryptReceivers receivers rand =
     (case shuffle_list rand receivers of
        Panic \<Rightarrow> Panic
      | Ret (Some e) (rand', _) \<Rightarrow> Ret (Inl e) rand'
      | Ret None (rand', shuffled) \<Rightarrow> Ret (Inr shuffled) rand')"

text \<open>\<open>newRandomSymmetricKey\<close> of \<open>key.go\<close>.\<close>

definition newRandomSymmetricKey :: "input \<Rightarrow> (err + bytes) \<times> input" where
  "newRandomSymmetricKey rand = csprngReadFull rand 32"

record 'r encryptRNG =
  createSymmetricKey :: "'r \<Rightarrow> (err + bytes) \<times> 'r"
  shuffleReceivers :: "BoxPublicKey list \<Rightarrow> 'r \<Rightarrow> (err + BoxPublicKey list, 'r) go"

definition defaultEncryptRNG :: "input encryptRNG" where
  "defaultEncryptRNG =
     \<lparr>createSymmetricKey = newRandomSymmetricKey, shuffleReceivers = shuffleEncryptReceivers\<rparr>"

type_synonym 'r EphemeralKeyCreator = "'r \<Rightarrow> (err + BoxSecretKey) \<times> 'r"

text \<open>The loop that boxes the payload key for each receiver, from index \<open>i\<close> on.\<close>

primrec receiver_boxes ::
  "version \<Rightarrow> BoxSecretKey \<Rightarrow> bytes \<Rightarrow> nat \<Rightarrow> BoxPublicKey list \<Rightarrow> receiverKeys list result" where
  "receiver_boxes v ephemeralKey payloadKey i [] = Ok []"
| "receiver_boxes v ephemeralKey payloadKey i (r # rs) =
     bind_out (nonceForPayloadKeyBox v (of_nat i)) (\<lambda>nonce.
       let box = sharedBox (boxPrecompute ephemeralKey r) nonce payloadKey;
           keys = \<lparr>ReceiverKID = (if boxHideIdentity r then [] else boxToKID r), PayloadKeyBox = box\<rparr>
       in bind_out (receiver_boxes v ephemeralKey payloadKey (Suc i) rs) (\<lambda>ks. Ok (keys # ks)))"

definition computeMACKeySender ::
  "version \<Rightarrow> 64 word \<Rightarrow> BoxSecretKey \<Rightarrow> BoxSecretKey \<Rightarrow> BoxPublicKey \<Rightarrow> bytes \<Rightarrow> bytes result" where
  "computeMACKeySender v index secret eSecret public headerHash =
     (if v = Version1
      then bind_out (nonceForMACKeyBoxV1 headerHash) (\<lambda>nonce. computeMACKeySingle secret public nonce)
      else if v = Version2
      then bind_out (nonceForMACKeyBoxV2 headerHash False index) (\<lambda>nonce.
           bind_out (computeMACKeySingle secret public nonce) (\<lambda>mac.
           bind_out (nonceForMACKeyBoxV2 headerHash True index) (\<lambda>eNonce.
           bind_out (computeMACKeySingle eSecret public eNonce) (\<lambda>eMAC.
             sum512Truncate256 (mac @ eMAC)))))
      else Panicked)"

primrec computeMACKeysSender ::
  "version \<Rightarrow> BoxSecretKey \<Rightarrow> BoxSecretKey \<Rightarrow> nat \<Rightarrow> BoxPublicKey list \<Rightarrow> bytes \<Rightarrow> bytes list result" where
  "computeMACKeysSender v sender ephemeralKey i [] headerHash = Ok []"
| "computeMACKeysSender v sender ephemeralKey i (r # rs) headerHash =
     bind_out (computeMACKeySender v (of_nat i) sender ephemeralKey r headerHash) (\<lambda>k.
     bind_out (computeMACKeysSender v sender ephemeralKey (Suc i) rs headerHash) (\<lambda>ks. Ok (k # ks)))"

text \<open>
  The header \<open>init\<close> builds once the keys are drawn and the receivers shuffled. A nil sender
  stands for the ephemeral key.
\<close>

definition encryption_header ::
  "env \<Rightarrow> version \<Rightarrow> BoxSecretKey \<Rightarrow> BoxSecretKey \<Rightarrow> bytes \<Rightarrow> BoxPublicKey list \<Rightarrow> EncryptionHeader result" where
  "encryption_header E v sender ephemeralKey payloadKey receivers =
     bind_out nonceForSenderKeySecretBox (\<lambda>nonce.
     bind_out (receiver_boxes v ephemeralKey payloadKey 0 receivers) (\<lambda>rs.
       Ok \<lparr>HFormatName = FormatName, HVersion = v, HType = MessageTypeEncryption,
           Ephemeral = boxToKID (boxGetPublicKey ephemeralKey),
           SenderSecretbox = secretboxSeal E (boxToKID (boxGetPublicKey sender)) nonce payloadKey,
           Receivers = rs\<rparr>))"

text \<open>The last part of \<open>init\<close>: header, header hash and MAC keys. On an error the destination is
  returned as it was left.\<close>

definition encrypt_start ::
  "env \<Rightarrow> 'w encoder \<Rightarrow> version \<Rightarrow> 'w \<Rightarrow> BoxSecretKey \<Rightarrow> BoxSecretKey \<Rightarrow> bytes \<Rightarrow> BoxPublicKey list \<Rightarrow>
     (err \<times> 'w, 'w encryptStream) outcome" where
  "encrypt_start E enc v w sender ephemeralKey payloadKey receivers =
     (case encryption_header E v sender ephemeralKey payloadKey receivers of
        Ok eh \<Rightarrow>
          (case marshal E (PEncryptionHeader eh) of
             Inl e \<Rightarrow> Err (e, w)
           | Inr headerBytes \<Rightarrow>
               (case enc (PBytes headerBytes) w of
                  (Some e, w') \<Rightarrow> Err (e, w')
                | (None, w') \<Rightarrow>
                    (case computeMACKeysSender v sender ephemeralKey 0 receivers (sha512 headerBytes) of
                       Ok macKeys \<Rightarrow>
                         Ok \<lparr>esVersion = v, esEncoder = w', esPayloadKey = payloadKey, esBuffer = [],
                             esHeaderHash = sha512 headerBytes, esMacKeys = macKeys,
                             esNumBlocks = 0, esErr = None\<rparr>
                     | _ \<Rightarrow> Panicked)))
      | _ \<Rightarrow> Panicked)"

text \<open>\<open>init\<close>, in the order of the source: the stream that it makes over the destination \<open>w\<close>.\<close>

definition encryptStream_init ::
  "env \<Rightarrow> 'w encoder \<Rightarrow> version \<Rightarrow> 'w \<Rightarrow> BoxSecretKey option \<Rightarrow> BoxPublicKey list \<Rightarrow>
     'r EphemeralKeyCreator \<Rightarrow> 'r encryptRNG \<Rightarrow> 'r \<Rightarrow> (err \<times> 'w + 'w encryptStream, 'r) go" where
  "encryptStream_init E enc v w sender receivers CreateEphemeralKey rng r =
     (case checkKnownVersion v of
        Some e \<Rightarrow> Ret (Inl (e, w)) r
      | None \<Rightarrow>
     (case checkEncryptReceivers receivers of
        Some e \<Rightarrow> Ret (Inl (e, w)) r
      | None \<Rightarrow>
     (case shuffleReceivers rng receivers r of
        Panic \<Rightarrow> Panic
      | Ret (Inl e) r1 \<Rightarrow> Ret (Inl (e, w)) r1
      | Ret (Inr receivers') r1 \<Rightarrow>
     (case CreateEphemeralKey r1 of
        (Inl e, r2) \<Rightarrow> Ret (Inl (e, w)) r2
      | (Inr ephemeralKey, r2) \<Rightarrow>
     (case createSymmetricKey rng r2 of
        (Inl e, r3) \<Rightarrow> Ret (Inl (e, w)) r3
      | (Inr payloadKey, r3) \<Rightarrow>
     (case encrypt_start E enc v w (case sender of None \<Rightarrow> ephemeralKey | Some sk \<Rightarrow> sk)
             ephemeralKey payloadKey receivers' of
        Panicked \<Rightarrow> Panic
      | Err e \<Rightarrow> Ret (Inl e) r3
      | Ok s \<Rightarrow> Ret (Inr s) r3))))))"

definition newEncryptStream ::
  "env \<Rightarrow> 'w encoder \<Rightarrow> version \<Rightarrow> 'w \<Rightarrow> BoxSecretKey option \<Rightarrow> BoxPublicKey list \<Rightarrow>
     'r EphemeralKeyCreator \<Rightarrow> 'r encryptRNG \<Rightarrow> 'r \<Rightarrow> (err \<times> 'w + 'w encryptStream, 'r) go" where
  "newEncryptStream E enc v ciphertext sender receivers ephemeralKeyCreator rng r =
     encryptStream_init E enc v ciphertext sender receivers ephemeralKeyCreator rng r"

section \<open>Whole messages\<close>

text \<open>\<open>seal\<close>, with the buffer it creates.\<close>

definition seal ::
  "env \<Rightarrow> version \<Rightarrow> bytes \<Rightarrow> BoxSecretKey option \<Rightarrow> BoxPublicKey list \<Rightarrow>
     'r EphemeralKeyCreator \<Rightarrow> 'r encryptRNG \<Rightarrow> 'r \<Rightarrow> bytes result" where
  "seal E v plaintext sender receivers CreateEphemeralKey rng r =
     (case newEncryptStream E (newEncoder E) v [] sender receivers CreateEphemeralKey rng r of
        Panic \<Rightarrow> Panicked
      | Ret (Inl (e, _)) _ \<Rightarrow> Err e
      | Ret (Inr es) _ \<Rightarrow>
          (case encryptStream_Write E (newEncoder E) plaintext es of
             Panic \<Rightarrow> Panicked
           | Ret (_, Some e) _ \<Rightarrow> Err e
           | Ret (_, None) es' \<Rightarrow>
               (case encryptStream_Close E (newEncoder E) es' of
                  Panic \<Rightarrow> Panicked
                | Ret (Some e) _ \<Rightarrow> Err e
                | Ret None es'' \<Rightarrow> Ok (esEncoder es''))))"

text \<open>
  \<open>receiversToEphemeralKeyCreator\<close>: the first receiver creates the ephemeral key; \<open>create\<close> is
  that method of a public key.
\<close>

definition receiversToEphemeralKeyCreator ::
  "(BoxPublicKey \<Rightarrow> input EphemeralKeyCreator) \<Rightarrow> BoxPublicKey list \<Rightarrow> err + input EphemeralKeyCreator" where
  "receiversToEphemeralKeyCreator create receivers =
     (if length receivers = 0 then Inl ErrBadReceivers else Inr (create (receivers ! 0)))"

definition NewEncryptStream ::
  "env \<Rightarrow> 'w encoder \<Rightarrow> (BoxPublicKey \<Rightarrow> input EphemeralKeyCreator) \<Rightarrow> version \<Rightarrow> 'w \<Rightarrow>
     BoxSecretKey option \<Rightarrow> BoxPublicKey list \<Rightarrow> input \<Rightarrow> (err \<times> 'w + 'w encryptStream, input) go" where
  "NewEncryptStream E enc create v ciphertext sender receivers rand =
     (case receiversToEphemeralKeyCreator create receivers of
        Inl e \<Rightarrow> Ret (Inl (e, ciphertext)) rand
      | Inr creator \<Rightarrow> newEncryptStream E enc v ciphertext sender receivers creator defaultEncryptRNG rand)"

definition Seal ::
  "env \<Rightarrow> (BoxPublicKey \<Rightarrow> input EphemeralKeyCreator) \<Rightarrow> version \<Rightarrow> bytes \<Rightarrow> BoxSecretKey option \<Rightarrow>
     BoxPublicKey list \<Rightarrow> input \<Rightarrow> bytes result" where
  "Seal E create v plaintext sender receivers rand =
     (case receiversToEphemeralKeyCreator create receivers of
        Inl e \<Rightarrow> Err e
      | Inr creator \<Rightarrow> seal E v plaintext sender receivers creator defaultEncryptRNG rand)"

end
