(* ===== verification/Encrypt_Correct.thy ===== *)
theory Encrypt_Correct
  imports Encrypt Block_Reader
begin

text \<open>
  The encrypting stream as a \<open>block_stream\<close> and an \<open>emitting_stream\<close>, the packets it writes and
  the header and MAC keys that \<open>init\<close> computes.
\<close>

section \<open>The stream as a block stream\<close>

abbreviation es_append :: "bytes \<Rightarrow> 'w encryptStream \<Rightarrow> 'w encryptStream" where
  "es_append x s \<equiv> s\<lparr>esBuffer := esBuffer s @ x\<rparr>"

lemma checkEncryptBlockRead_long:
  "c = encryptionBlockSize \<Longrightarrow>
     checkEncryptBlockRead v False encryptionBlockSize c n = checkEncryptBlockRead v False encryptionBlockSize c m"
  by (simp add: checkEncryptBlockRead_def)

lemma encrypt_packet_buffer [simp]:
  "encrypt_packet E (s\<lparr>esBuffer := x\<rparr>) c f = encrypt_packet E s c f"
  by (simp add: encrypt_packet_def)

lemma encryptBlock_front:
  assumes "encryptionBlockSize < length (esBuffer s)"
  shows "encryptBlock_err E enc False (es_append x s) = go_map (es_append x) (encryptBlock_err E enc False s)"
  using assms checkEncryptBlockRead_long [of encryptionBlockSize "esVersion s"
      "length (esBuffer s) - encryptionBlockSize" "length (esBuffer s) + length x - encryptionBlockSize"]
  by (auto simp: encryptBlock_err_def encryptBlock_def Let_def
      split: outcome.splits prod.splits option.splits)

interpretation es: block_stream esBuffer es_append "encryptBlock_err E enc" "encryptStream_loop E enc"
  encryptionBlockSize for E enc
proof
  show "encryptStream_loop E enc s = (if encryptionBlockSize < length (esBuffer s)
      then (case encryptBlock_err E enc False s of
              Panic \<Rightarrow> Panic
            | Ret (Some e) s' \<Rightarrow> Ret (Some e) s'
            | Ret None s' \<Rightarrow> encryptStream_loop E enc s')
      else Ret None s)" for s
    by (rule encryptStream_loop.simps)
qed (simp_all add: encryptBlock_front encryptBlock_err_buffer)

section \<open>A block when nothing fails\<close>

definition block_ciphertext :: "env \<Rightarrow> bytes \<Rightarrow> encryptionBlockNumber \<Rightarrow> bytes \<Rightarrow> bytes" where
  "block_ciphertext E key i c = secretboxSeal E c (nonceForChunkSecretBox i) key"

definition payload_hash ::
  "env \<Rightarrow> version \<Rightarrow> bytes \<Rightarrow> bytes \<Rightarrow> encryptionBlockNumber \<Rightarrow> bytes \<Rightarrow> bool \<Rightarrow> bytes" where
  "payload_hash E v key hh i c f =
     (case computePayloadHash v hh (nonceForChunkSecretBox i) (block_ciphertext E key i c) f of
        Ok h \<Rightarrow> h | _ \<Rightarrow> [])"

definition authenticator :: "bytes \<Rightarrow> bytes \<Rightarrow> bytes" where
  "authenticator k h = take 32 (hmac_sha512 k h)"

definition es_packet ::
  "env \<Rightarrow> version \<Rightarrow> bytes \<Rightarrow> bytes \<Rightarrow> bytes list \<Rightarrow> encryptionBlockNumber \<Rightarrow> bytes \<Rightarrow> bool \<Rightarrow> packet" where
  "es_packet E v key hh ks i c f =
     (let auths = map (\<lambda>k. authenticator k (payload_hash E v key hh i c f)) ks
      in if v = Version1
         then PEncryptionV1 \<lparr>HashAuthenticators = auths, PayloadCiphertext = block_ciphertext E key i c\<rparr>
         else PEncryptionV2 \<lparr>HashAuthenticators = auths, PayloadCiphertext = block_ciphertext E key i c,
                             EIsFinal = f\<rparr>)"

definition es_emit :: "env \<Rightarrow> 'w encoder \<Rightarrow> bool \<Rightarrow> bytes \<Rightarrow> 'w encryptStream \<Rightarrow> 'w encryptStream" where
  "es_emit E enc f c s =
     s\<lparr>esEncoder := snd (enc (es_packet E (esVersion s) (esPayloadKey s) (esHeaderHash s) (esMacKeys s)
                                (esNumBlocks s) c f) (esEncoder s)),
       esNumBlocks := esNumBlocks s + 1\<rparr>"

text \<open>The counter has room for one block per byte of the buffer and one more.\<close>

definition es_good :: "env \<Rightarrow> 'w encoder \<Rightarrow> 'w encryptStream \<Rightarrow> bool" where
  "es_good E enc s \<longleftrightarrow> writes_all enc \<and> secretbox_ok E \<and>
     (esVersion s = Version1 \<or> esVersion s = Version2) \<and> esErr s = None \<and>
     unat (esNumBlocks s) + length (esBuffer s) < 2 ^ 64 - 1"

lemma authenticators_of_Ok: "authenticators_of ks h = Ok (map (\<lambda>k. authenticator k h) ks)"
  by (induction ks) (simp_all add: authenticator_def)

lemma encrypt_packet_Ok:
  assumes "secretbox_ok E" "v = Version1 \<or> v = Version2" "esVersion s = v"
    and "chunk_rule v (length c) (esNumBlocks s) f"
  shows "encrypt_packet E s c f =
    Ok (es_packet E v (esPayloadKey s) (esHeaderHash s) (esMacKeys s) (esNumBlocks s) c f)"
proof -
  let ?ct = "block_ciphertext E (esPayloadKey s) (esNumBlocks s) c"
  have major: "known_major v" using assms(2) by auto
  have "length ?ct = length c + secretboxOverhead"
    using assms(1) by (simp add: block_ciphertext_def secretbox_ok_def)
  then have a: "assertEncodedChunkState v ?ct secretboxOverhead (esNumBlocks s) f = Ok ()"
    using major assms(4) by (simp add: assertEncodedChunkState_Ok)
  obtain h where h: "computePayloadHash v (esHeaderHash s) (nonceForChunkSecretBox (esNumBlocks s)) ?ct f = Ok h"
    using computePayloadHash_Ok [OF major] by blast
  then have "payload_hash E v (esPayloadKey s) (esHeaderHash s) (esNumBlocks s) c f = h"
    by (simp add: payload_hash_def)
  with a h assms(2,3) show ?thesis
    unfolding block_ciphertext_def
    by (auto simp: encrypt_packet_def Let_def authenticators_of_Ok makeEncryptionBlock_def es_packet_def
        block_ciphertext_def)
qed

lemma block_number_ok:
  "unat i < 2 ^ 64 - 1 \<Longrightarrow> encryptionBlockNumber_check i = None"
  by (simp add: encryptionBlockNumber_check_def word_le_nat_alt)

lemma es_emit_sel [simp]:
  "esVersion (es_emit E enc f c s) = esVersion s" "esHeaderHash (es_emit E enc f c s) = esHeaderHash s"
  "esPayloadKey (es_emit E enc f c s) = esPayloadKey s" "esMacKeys (es_emit E enc f c s) = esMacKeys s"
  "esBuffer (es_emit E enc f c s) = esBuffer s" "esErr (es_emit E enc f c s) = esErr s"
  "esNumBlocks (es_emit E enc f c s) = esNumBlocks s + 1"
  "es_emit E enc f c (s\<lparr>esBuffer := x\<rparr>) = (es_emit E enc f c s)\<lparr>esBuffer := x\<rparr>"
  by (simp_all add: es_emit_def)

lemma encryptBlock_emits:
  assumes "es_good E enc s"
    and "checkEncryptBlockRead (esVersion s) f encryptionBlockSize
           (length (take encryptionBlockSize (esBuffer s))) (length (drop encryptionBlockSize (esBuffer s))) = Ok ()"
    and "chunk_rule (esVersion s) (length (take encryptionBlockSize (esBuffer s))) (esNumBlocks s) f"
  shows "encryptBlock E enc f s = Ret None (es_emit E enc f (take encryptionBlockSize (esBuffer s))
           (s\<lparr>esBuffer := drop encryptionBlockSize (esBuffer s)\<rparr>))"
proof -
  let ?c = "take encryptionBlockSize (esBuffer s)"
  have "encryptionBlockNumber_check (esNumBlocks s) = None"
    using assms(1) by (intro block_number_ok) (simp add: es_good_def)
  moreover have "encrypt_packet E s ?c f = Ok (es_packet E (esVersion s) (esPayloadKey s) (esHeaderHash s)
      (esMacKeys s) (esNumBlocks s) ?c f)"
    using assms by (intro encrypt_packet_Ok) (auto simp: es_good_def)
  moreover have "fst (enc p w) = None" for p w using assms(1) by (simp add: es_good_def writes_all_def)
  ultimately show ?thesis
    using assms(2) by (simp add: encryptBlock_def Let_def es_emit_def split: prod.split option.split)
      (metis fst_conv option.distinct(1))
qed

lemma esErr_same: "esErr s = x \<Longrightarrow> s\<lparr>esErr := x\<rparr> = (s :: 'w encryptStream)"
  by (cases s) simp

lemma esBuffer_same: "esBuffer s = x \<Longrightarrow> s\<lparr>esBuffer := x\<rparr> = (s :: 'w encryptStream)"
  by (cases s) simp

lemma encryptBlock_emits_more:
  assumes "es_good E enc s" "encryptionBlockSize < length (esBuffer s)"
  shows "encryptBlock_err E enc False s = Ret None (es_emit E enc False (take encryptionBlockSize (esBuffer s))
           (s\<lparr>esBuffer := drop encryptionBlockSize (esBuffer s)\<rparr>))"
proof -
  have "encryptBlock E enc False s = Ret None (es_emit E enc False (take encryptionBlockSize (esBuffer s))
           (s\<lparr>esBuffer := drop encryptionBlockSize (esBuffer s)\<rparr>))"
    using assms by (intro encryptBlock_emits)
      (auto simp: es_good_def checkEncryptBlockRead_def chunk_rule_def)
  then show ?thesis using assms(1)
    by (simp add: encryptBlock_err_def esErr_same es_good_def)
qed

lemma unat_plus1: "unat (i :: 64 word) < 2 ^ 64 - 1 \<Longrightarrow> unat (i + 1) = Suc (unat i)"
  by (simp add: unat_word_ariths)

lemma es_good_emit:
  assumes "es_good E enc s" "x < length (esBuffer s)"
  shows "es_good E enc ((es_emit E enc f c s)\<lparr>esBuffer := drop (length (esBuffer s) - x) (esBuffer s)\<rparr>)"
  using assms unat_plus1 [of "esNumBlocks s"] by (simp add: es_good_def)

interpretation ese: emitting_stream esBuffer es_append "encryptBlock_err E enc" "encryptStream_loop E enc"
  encryptionBlockSize "es_good E enc" "\<lambda>x s. s\<lparr>esBuffer := x\<rparr>" "es_emit E enc False" for E enc
proof
  fix s :: "'a encryptStream"
  assume s: "es_good E enc s" "encryptionBlockSize < length (esBuffer s)"
  have "length (esBuffer s) - (length (esBuffer s) - encryptionBlockSize) = encryptionBlockSize"
    "length (esBuffer s) - encryptionBlockSize < length (esBuffer s)"
    using s(2) block_sizes_pos(1) by linarith+
  with es_good_emit [OF s(1), of "length (esBuffer s) - encryptionBlockSize" False
      "take encryptionBlockSize (esBuffer s)"] s(2)
  show "es_good E enc (es_emit E enc False (take encryptionBlockSize (esBuffer s))
      (s\<lparr>esBuffer := drop encryptionBlockSize (esBuffer s)\<rparr>))" by simp
qed (simp_all add: encryptBlock_emits_more esBuffer_same)

section \<open>What a stream writes\<close>

abbreviation es_emits ::
  "env \<Rightarrow> 'w encoder \<Rightarrow> (bytes \<times> bool) list \<Rightarrow> 'w encryptStream \<Rightarrow> 'w encryptStream" where
  "es_emits E enc bs s \<equiv> fold (\<lambda>(c, f). es_emit E enc f c) bs s"

lemma es_emits_False: "fold (es_emit E enc False) cs s = es_emits E enc (map (\<lambda>c. (c, False)) cs) s"
  by (simp add: fold_map comp_def)

lemma es_emits_sel [simp]:
  "esVersion (es_emits E enc bs s) = esVersion s" "esHeaderHash (es_emits E enc bs s) = esHeaderHash s"
  "esPayloadKey (es_emits E enc bs s) = esPayloadKey s" "esMacKeys (es_emits E enc bs s) = esMacKeys s"
  "esBuffer (es_emits E enc bs s) = esBuffer s" "esErr (es_emits E enc bs s) = esErr s"
  "es_emits E enc bs (s\<lparr>esBuffer := x\<rparr>) = (es_emits E enc bs s)\<lparr>esBuffer := x\<rparr>"
  by (induction bs arbitrary: s) auto

lemma encryptBlock_last:
  assumes "es_good E enc s" "length (esBuffer s) \<le> encryptionBlockSize"
    and "esVersion s = Version1 \<longrightarrow> f = (esBuffer s = [])"
    and "esVersion s = Version2 \<longrightarrow> f \<and> (esBuffer s = [] \<longrightarrow> esNumBlocks s = 0)"
  shows "encryptBlock E enc f s = Ret None (es_emit E enc f (esBuffer s) (s\<lparr>esBuffer := []\<rparr>))"
proof -
  have "esVersion s = Version1 \<or> esVersion s = Version2" using assms(1) by (auto simp: es_good_def)
  with assms(2-) have "checkEncryptBlockRead (esVersion s) f encryptionBlockSize (length (esBuffer s)) 0 = Ok ()"
    "chunk_rule (esVersion s) (length (esBuffer s)) (esNumBlocks s) f"
    by (auto simp: checkEncryptBlockRead_def chunk_rule_def)
  with encryptBlock_emits [OF assms(1), of f] assms(2) show ?thesis by simp
qed

text \<open>One write and \<open>Close\<close> on a fresh stream write the blocks of the message.\<close>

lemma encrypt_write_close:
  assumes good: "es_good E enc (s\<lparr>esBuffer := x\<rparr>)" and fresh: "esBuffer s = []" "esNumBlocks s = 0"
  shows "writes_close (encryptStream_Write E enc) (encryptStream_Close E enc) [x] s =
    Ret None (es_emits E enc (message_blocks (esVersion s) encryptionBlockSize x) s)"
proof -
  let ?B = encryptionBlockSize
  let ?l = "last_block ?B x" and ?fs = "full_blocks ?B x"
  let ?s = "es_emits E enc (map (\<lambda>c. (c, False)) ?fs) (s\<lparr>esBuffer := ?l\<rparr>)"
  have err: "esErr s = None" using good by (simp add: es_good_def)
  from ese.loop_emits [OF good] fresh(1)
  have loop: "encryptStream_loop E enc (es_append x s) = Ret None ?s" and good_s: "es_good E enc ?s"
    by (simp_all add: es_emits_False)
  have wr: "encryptStream_Write E enc x s = Ret (length x, None) ?s"
    using err by (simp add: encryptStream_Write_def loop del: es_emits_sel)
  have lB: "length ?l \<le> ?B" by (rule length_last_block) simp
  have close: "encryptStream_Close E enc ?s =
      Ret None (es_emits E enc (message_blocks (esVersion s) ?B x) s)"
  proof (cases "esVersion s = Version1")
    case True
    let ?s1 = "es_emits E enc (map (\<lambda>c. (c, False)) (chunks ?B x)) s"
    have data: "(if length (esBuffer ?s) > 0 then encryptBlock E enc False ?s else Ret None ?s) = Ret None ?s1
        \<and> es_good E enc ?s1"
    proof (cases "x = []")
      case True
      then show ?thesis using fresh(1) good by (simp add: esBuffer_same)
    next
      case False
      then have l: "?l \<noteq> []" by (rule last_block_nonempty)
      then have "encryptBlock E enc False ?s = Ret None (es_emit E enc False ?l (?s\<lparr>esBuffer := []\<rparr>))"
        using encryptBlock_last [OF good_s, of False] lB True by simp
      moreover have "es_emit E enc False ?l (?s\<lparr>esBuffer := []\<rparr>) = ?s1"
        using False fresh(1) chunks_full_last [of ?B x] by (simp add: esBuffer_same)
      moreover have "es_good E enc (es_emit E enc False ?l (?s\<lparr>esBuffer := []\<rparr>))"
        using es_good_emit [OF good_s, of 0 False ?l] l by simp
      ultimately show ?thesis using l by simp
    qed
    have "encryptBlock E enc True ?s1 = Ret None (es_emit E enc True [] ?s1)"
      using encryptBlock_last [OF conjunct2 [OF data], of True] True fresh(1) by (simp add: esBuffer_same)
    moreover have "encryptStream_Close E enc ?s = encryptBlock E enc True ?s1"
      unfolding encryptStream_Close_def conjunct1 [OF data] using True fresh(1) by simp
    ultimately show ?thesis using True by (simp add: message_blocks_def)
  next
    case False
    then have v2: "esVersion s = Version2" using good by (auto simp: es_good_def)
    have "?l = [] \<Longrightarrow> x = []" using last_block_nonempty by blast
    then have "?l = [] \<Longrightarrow> esNumBlocks ?s = 0" using fresh(2) by simp
    then have "encryptBlock E enc True ?s = Ret None (es_emit E enc True ?l (?s\<lparr>esBuffer := []\<rparr>))"
      using encryptBlock_last [OF good_s, of True] lB v2 by simp
    then have "encryptStream_Close E enc ?s = Ret None (es_emit E enc True ?l (?s\<lparr>esBuffer := []\<rparr>))"
      using v2 by (simp add: encryptStream_Close_def)
    also have "es_emit E enc True ?l (?s\<lparr>esBuffer := []\<rparr>) =
        es_emits E enc (message_blocks (esVersion s) ?B x) s"
      using fresh(1) v2 by (simp add: message_blocks_def esBuffer_same)
    finally show ?thesis .
  qed
  show ?thesis by (simp add: writes_close_def wr close del: es_emits_sel)
qed

abbreviation es_encode ::
  "env \<Rightarrow> version \<Rightarrow> bytes \<Rightarrow> bytes \<Rightarrow> bytes list \<Rightarrow> encryptionBlockNumber \<Rightarrow> (bytes \<times> bool) list \<Rightarrow> bytes" where
  "es_encode E v key hh ks \<equiv> encode_blocks (\<lambda>i c f. enc1 E (es_packet E v key hh ks i c f))"

lemma es_emits_encode:
  "codec_ok E \<Longrightarrow> esEncoder (es_emits E (newEncoder E) bs s) = esEncoder s @
     es_encode E (esVersion s) (esPayloadKey s) (esHeaderHash s) (esMacKeys s) (esNumBlocks s) bs"
  by (induction bs arbitrary: s) (auto simp: newEncoder_ok es_emit_def)

end
