(* ===== verification/Decrypt.thy ===== *)
theory Decrypt
  imports Chunk_Reader Common
begin

text \<open>
  \<open>decrypt.go\<close>: reading the header, finding a receiver key, the MAC key and the stream of
  decrypted chunks. Slices that the code indexes without a check (\<open>authenticators[ds.position]\<close>)
  panic in the model too.
\<close>

section \<open>State\<close>

record MessageKeyInfo =
  SenderKey :: "BoxPublicKey option"
  SenderIsAnon :: bool
  ReceiverKey :: "BoxSecretKey option"
  ReceiverIsAnon :: bool
  NamedReceivers :: "bytes list"
  NumAnonReceivers :: nat

text \<open>The validator and the keyring do not change and are arguments; \<open>dsSenderKey\<close> is only used while the header
  is processed.\<close>

record decryptStream =
  dsVersion :: version
  dsMps :: msgpackStream
  dsPayloadKey :: "bytes option"
  dsSenderKey :: "bytes option"
  dsHeaderHash :: bytes
  dsMacKey :: bytes
  dsPosition :: int
  dsMki :: MessageKeyInfo

definition newDecryptStream :: "input \<Rightarrow> decryptStream" where
  "newDecryptStream r =
     \<lparr>dsVersion = \<lparr>Major = 0, Minor = 0\<rparr>, dsMps = newMsgpackStream r, dsPayloadKey = None,
      dsSenderKey = None, dsHeaderHash = replicate 64 0, dsMacKey = replicate 32 0, dsPosition = 0,
      dsMki = \<lparr>SenderKey = None, SenderIsAnon = False, ReceiverKey = None, ReceiverIsAnon = False,
               NamedReceivers = [], NumAnonReceivers = 0\<rparr>\<rparr>"

section \<open>Finding the payload key\<close>

text \<open>
  What both searches return: the key that opened a box, the payload key and the position, or
  nothing. \<open>tab\<close> is the list of the positions of the named receivers.
\<close>

type_synonym found = "(BoxSecretKey \<times> bytes \<times> nat) option"

definition named_positions :: "EncryptionHeader \<Rightarrow> nat list" where
  "named_positions hdr =
     List.filter (\<lambda>i. length (ReceiverKID (Receivers hdr ! i)) \<noteq> 0) [0..<length (Receivers hdr)]"

definition named_kids :: "EncryptionHeader \<Rightarrow> bytes list" where
  "named_kids hdr = map (\<lambda>i. ReceiverKID (Receivers hdr ! i)) (named_positions hdr)"

definition unbox_result :: "(err + bytes) \<Rightarrow> bytes result" where
  "unbox_result r = (case r of Inl e \<Rightarrow> Err e | Inr bs \<Rightarrow> Ok bs)"

definition tryVisibleReceivers ::
  "Keyring \<Rightarrow> EncryptionHeader \<Rightarrow> BoxPublicKey \<Rightarrow> found result" where
  "tryVisibleReceivers ring hdr ephemeralKey =
     (let tab = named_positions hdr
      in case LookupBoxSecretKey ring (named_kids hdr) of (i, sk) \<Rightarrow>
           (case sk of
              None \<Rightarrow> Ok None
            | Some sk \<Rightarrow>
                if i < 0 then Ok None
                else if int (length tab) \<le> i then Err ErrBadLookup
                else let orig = tab ! nat i
                     in bind_out (nonceForPayloadKeyBox (HVersion hdr) (of_nat orig)) (\<lambda>nonce.
                        bind_out (unbox_result (boxUnbox sk ephemeralKey nonce
                                    (PayloadKeyBox (Receivers hdr ! orig)))) (\<lambda>payloadKeySlice.
                        bind_out (symmetricKeyFromSlice payloadKeySlice) (\<lambda>payloadKey.
                          Ok (Some (sk, payloadKey, orig)))))))"

text \<open>The inner loop of \<open>tryHiddenReceivers\<close> for one secret key, from position \<open>i\<close> on.\<close>

primrec try_hidden ::
  "version \<Rightarrow> BoxPrecomputedSharedKey \<Rightarrow> nat \<Rightarrow> receiverKeys list \<Rightarrow> (bytes \<times> nat) option result" where
  "try_hidden v shared i [] = Ok None"
| "try_hidden v shared i (r # rs) =
     (if length (ReceiverKID r) = 0
      then bind_out (nonceForPayloadKeyBox v (of_nat i)) (\<lambda>nonce.
             case sharedUnbox shared nonce (PayloadKeyBox r) of
               Inl _ \<Rightarrow> try_hidden v shared (Suc i) rs
             | Inr payloadKeySlice \<Rightarrow>
                 bind_out (symmetricKeyFromSlice payloadKeySlice) (\<lambda>payloadKey. Ok (Some (payloadKey, i))))
      else try_hidden v shared (Suc i) rs)"

primrec try_hidden_keys ::
  "BoxSecretKey list \<Rightarrow> EncryptionHeader \<Rightarrow> BoxPublicKey \<Rightarrow> found result" where
  "try_hidden_keys [] hdr ephemeralKey = Ok None"
| "try_hidden_keys (sk # sks) hdr ephemeralKey =
     bind_out (try_hidden (HVersion hdr) (boxPrecompute sk ephemeralKey) 0 (Receivers hdr)) (\<lambda>found.
       case found of
         Some (payloadKey, i) \<Rightarrow> Ok (Some (sk, payloadKey, i))
       | None \<Rightarrow> try_hidden_keys sks hdr ephemeralKey)"

definition tryHiddenReceivers ::
  "Keyring \<Rightarrow> EncryptionHeader \<Rightarrow> BoxPublicKey \<Rightarrow> found result" where
  "tryHiddenReceivers ring hdr ephemeralKey =
     try_hidden_keys (GetAllBoxSecretKeys ring) hdr ephemeralKey"

definition count_hidden :: "EncryptionHeader \<Rightarrow> nat" where
  "count_hidden hdr = length (List.filter (\<lambda>r. length (ReceiverKID r) = 0) (Receivers hdr))"

section \<open>The header\<close>

definition computeMACKeyReceiver ::
  "version \<Rightarrow> 64 word \<Rightarrow> BoxSecretKey \<Rightarrow> BoxPublicKey \<Rightarrow> BoxPublicKey \<Rightarrow> bytes \<Rightarrow> bytes result" where
  "computeMACKeyReceiver v index secret public ePublic headerHash =
     (if Major v = 1
      then bind_out (nonceForMACKeyBoxV1 headerHash) (\<lambda>nonce. computeMACKeySingle secret public nonce)
      else if Major v = 2
      then bind_out (nonceForMACKeyBoxV2 headerHash False index) (\<lambda>nonce.
           bind_out (computeMACKeySingle secret public nonce) (\<lambda>mac.
           bind_out (nonceForMACKeyBoxV2 headerHash True index) (\<lambda>eNonce.
           bind_out (computeMACKeySingle secret ePublic eNonce) (\<lambda>eMAC.
             sum512Truncate256 (mac @ eMAC)))))
      else Panicked)"

text \<open>
  The part of \<open>processHeader\<close> after a receiver key was found: the sender's key and the MAC key.
  The error comes with the stream as it is left.
\<close>

definition process_sender ::
  "env \<Rightarrow> Keyring \<Rightarrow> EncryptionHeader \<Rightarrow> BoxPublicKey \<Rightarrow> BoxSecretKey \<Rightarrow> bytes \<Rightarrow> nat \<Rightarrow>
     decryptStream \<Rightarrow> (err option, decryptStream) go" where
  "process_sender E ring hdr ephemeralKey secretKey payloadKey pos ds =
     (case nonceForSenderKeySecretBox of
        Ok nonce \<Rightarrow>
          (case secretboxOpen E (SenderSecretbox hdr) nonce payloadKey of
             None \<Rightarrow> Ret (Some ErrBadSenderKeySecretbox) ds
           | Some senderKeySlice \<Rightarrow>
               (case rawBoxKeyFromSlice senderKeySlice of
                  Panicked \<Rightarrow> Panic
                | Err e \<Rightarrow> Ret (Some e) ds
                | Ok senderKey \<Rightarrow>
                    let ds = ds\<lparr>dsSenderKey := Some senderKey\<rparr>;
                        finish = (\<lambda>public mki.
                          case computeMACKeyReceiver (HVersion hdr) (of_nat pos) secretKey public
                                 ephemeralKey (dsHeaderHash ds) of
                            Ok k \<Rightarrow> Ret None (ds\<lparr>dsMki := mki, dsMacKey := k\<rparr>)
                          | _ \<Rightarrow> Panic)
                    in if Ephemeral hdr \<noteq> senderKey
                       then (case LookupBoxPublicKey ring senderKey of
                               None \<Rightarrow> Ret (Some (ErrNoSenderKey senderKey)) ds
                             | Some longLived \<Rightarrow>
                                 finish longLived ((dsMki ds)\<lparr>SenderKey := Some longLived\<rparr>))
                       else finish ephemeralKey
                              ((dsMki ds)\<lparr>SenderIsAnon := True, SenderKey := Some ephemeralKey\<rparr>)))
      | _ \<Rightarrow> Panic)"

definition processHeader ::
  "env \<Rightarrow> VersionValidator \<Rightarrow> Keyring \<Rightarrow> EncryptionHeader \<Rightarrow> decryptStream \<Rightarrow>
     (err option, decryptStream) go" where
  "processHeader E versionValidator ring hdr ds0 =
     (case EncryptionHeader_validate versionValidator hdr of
        Some e \<Rightarrow> Ret (Some e) ds0
      | None \<Rightarrow>
     let ds = ds0\<lparr>dsVersion := HVersion hdr\<rparr>
     in case ImportBoxEphemeralKey ring (Ephemeral hdr) of
        None \<Rightarrow> Ret (Some ErrBadEphemeralKey) ds
      | Some ephemeralKey \<Rightarrow>
     let ds1 = ds\<lparr>dsMki := (dsMki ds)\<lparr>NamedReceivers := named_kids hdr\<rparr>,
                  dsPayloadKey := None, dsPosition := -1\<rparr>;
         go_on = (\<lambda>sk payloadKey pos ds.
           process_sender E ring hdr ephemeralKey sk payloadKey pos
             (ds\<lparr>dsPayloadKey := Some payloadKey, dsPosition := int pos,
                 dsMki := (dsMki ds)\<lparr>ReceiverKey := Some sk\<rparr>\<rparr>))
     in case tryVisibleReceivers ring hdr ephemeralKey of
          Panicked \<Rightarrow> Panic
        | Err e \<Rightarrow> Ret (Some e) ds1
        | Ok (Some (sk, payloadKey, pos)) \<Rightarrow> go_on sk payloadKey pos ds1
        | Ok None \<Rightarrow>
            (let ds2 = ds1\<lparr>dsMki := (dsMki ds1)\<lparr>NumAnonReceivers := NumAnonReceivers (dsMki ds1) + count_hidden hdr,
                                             ReceiverIsAnon := True\<rparr>\<rparr>
             in case tryHiddenReceivers ring hdr ephemeralKey of
                  Panicked \<Rightarrow> Panic
                | Err e \<Rightarrow> Ret (Some e) ds2
                | Ok (Some (sk, payloadKey, pos)) \<Rightarrow> go_on sk payloadKey pos ds2
                | Ok None \<Rightarrow> Ret (Some ErrNoDecryptionKey) ds2))"

definition readHeader ::
  "env \<Rightarrow> VersionValidator \<Rightarrow> Keyring \<Rightarrow> decryptStream \<Rightarrow> (err option, decryptStream) go" where
  "readHeader E versionValidator ring ds =
     (case mpsRead (decBytes E) (dsMps ds) of
        (Inl _, mps) \<Rightarrow> Ret (Some ErrFailedToReadHeaderBytes) (ds\<lparr>dsMps := mps\<rparr>)
      | (Inr (headerBytes, _), mps) \<Rightarrow>
          (let ds' = ds\<lparr>dsMps := mps, dsHeaderHash := sha512 headerBytes\<rparr>
           in case unmarshalEncryptionHeader E headerBytes of
                Inl e \<Rightarrow> Ret (Some e) ds'
              | Inr header \<Rightarrow> processHeader E versionValidator ring header ds'))"

section \<open>The blocks\<close>

text \<open>Ciphertext, authenticators, final flag and sequence number of the next block.\<close>

definition readEncryptionBlock ::
  "env \<Rightarrow> version \<Rightarrow> msgpackStream \<Rightarrow>
     (err + bytes \<times> bytes list \<times> bool \<times> packetSeqno, msgpackStream) go" where
  "readEncryptionBlock E v mps =
     (if Major v = 1
      then (case mpsRead (decEncryptionV1 E) mps of
              (Inl e, mps') \<Rightarrow> Ret (Inl e) mps'
            | (Inr (eb, seqno), mps') \<Rightarrow>
                Ret (Inr (PayloadCiphertext eb, HashAuthenticators eb,
                          length (PayloadCiphertext eb) = secretboxOverhead, seqno)) mps')
      else if Major v = 2
      then (case mpsRead (decEncryptionV2 E) mps of
              (Inl e, mps') \<Rightarrow> Ret (Inl e) mps'
            | (Inr (eb, seqno), mps') \<Rightarrow>
                Ret (Inr (PayloadCiphertext eb, HashAuthenticators eb, EIsFinal eb, seqno)) mps')
      else Panic)"

definition decryptStream_processBlock ::
  "env \<Rightarrow> decryptStream \<Rightarrow> bytes \<Rightarrow> bytes list \<Rightarrow> bool \<Rightarrow> packetSeqno \<Rightarrow> bytes result" where
  "decryptStream_processBlock E ds ciphertext authenticators isFinal seqno =
     (let blockNum = seqno - 1
      in case encryptionBlockNumber_check blockNum of
           Some e \<Rightarrow> Err e
         | None \<Rightarrow>
             (let nonce = nonceForChunkSecretBox blockNum
              in bind_out (computePayloadHash (dsVersion ds) (dsHeaderHash ds) nonce ciphertext isFinal)
                   (\<lambda>hashToAuthenticate.
                 bind_out (computePayloadAuthenticator (dsMacKey ds) hashToAuthenticate)
                   (\<lambda>ourAuthenticator.
                 if dsPosition ds < 0 \<or> int (length authenticators) \<le> dsPosition ds then Panicked
                 else if ourAuthenticator \<noteq> authenticators ! nat (dsPosition ds) then Err (ErrBadTag seqno)
                 else case dsPayloadKey ds of
                        None \<Rightarrow> Panicked
                      | Some k \<Rightarrow>
                          (case secretboxOpen E ciphertext nonce k of
                             None \<Rightarrow> Err (ErrBadCiphertext seqno)
                           | Some plaintext \<Rightarrow> Ok plaintext)))))"

definition decryptStream_getNextChunk :: "env \<Rightarrow> decryptStream next_chunk" where
  "decryptStream_getNextChunk E ds =
     (case readEncryptionBlock E (dsVersion ds) (dsMps ds) of
        Panic \<Rightarrow> Panic
      | Ret (Inl e) mps \<Rightarrow> Ret ([], Some (if e = EOF then ErrUnexpectedEOF else e)) (ds\<lparr>dsMps := mps\<rparr>)
      | Ret (Inr (ciphertext, authenticators, isFinal, seqno)) mps \<Rightarrow>
          (case decryptStream_processBlock E ds ciphertext authenticators isFinal seqno of
             Panicked \<Rightarrow> Panic
           | Err e \<Rightarrow> Ret ([], Some e) (ds\<lparr>dsMps := mps\<rparr>)
           | Ok chunk \<Rightarrow>
               (case checkDecodedChunkState (dsVersion ds) chunk seqno isFinal of
                  Panicked \<Rightarrow> Panic
                | Err e \<Rightarrow> Ret ([], Some e) (ds\<lparr>dsMps := mps\<rparr>)
                | Ok _ \<Rightarrow>
                    if isFinal
                    then (case assertEndOfStream E mps of
                            (e, mps') \<Rightarrow> Ret (chunk, Some e) (ds\<lparr>dsMps := mps'\<rparr>))
                    else Ret (chunk, None) (ds\<lparr>dsMps := mps\<rparr>))))"

section \<open>Whole messages\<close>

text \<open>The key information is returned in either case.\<close>

definition NewDecryptStream ::
  "env \<Rightarrow> VersionValidator \<Rightarrow> input \<Rightarrow> Keyring \<Rightarrow>
     (err + decryptStream chunkReader, MessageKeyInfo) go" where
  "NewDecryptStream E versionValidator r keyring =
     (case readHeader E versionValidator keyring (newDecryptStream r) of
        Panic \<Rightarrow> Panic
      | Ret (Some e) ds \<Rightarrow> Ret (Inl e) (dsMki ds)
      | Ret None ds \<Rightarrow> Ret (Inr (newChunkReader ds)) (dsMki ds))"

text \<open>\<open>Open\<close>: key information and plaintext; the information is nil when reading fails.\<close>

definition Open ::
  "env \<Rightarrow> (nat \<Rightarrow> nat) \<Rightarrow> VersionValidator \<Rightarrow> bytes \<Rightarrow> Keyring \<Rightarrow>
     (err + bytes, MessageKeyInfo option) go option" where
  "Open E grow versionValidator ciphertext keyring =
     (case NewDecryptStream E versionValidator (bytes_input ciphertext) keyring of
        Panic \<Rightarrow> Some Panic
      | Ret (Inl e) mki \<Rightarrow> Some (Ret (Inl e) (Some mki))
      | Ret (Inr stream) mki \<Rightarrow>
          map_option (\<lambda>r. case r of
                Panic \<Rightarrow> Panic
              | Ret (_, Some e) _ \<Rightarrow> Ret (Inl e) None
              | Ret (ret, None) _ \<Rightarrow> Ret (Inr ret) (Some mki))
            (ReadAll grow (chunkReader_Read (decryptStream_getNextChunk E)) stream))"

end
