(* ===== verification/Box_Laws.thy ===== *)
theory Box_Laws
  imports Encrypt_Correct Decrypt
begin

text \<open>
  The laws of NaCl boxes that opening a sealed message rests on, as predicates on the keys of
  one message, and the parts of the header that depend on them: the payload key boxes and the
  MAC keys, computed by the sender and recomputed by the receiver.
\<close>

section \<open>Laws\<close>

definition box_lengths :: "BoxSecretKey \<Rightarrow> bool" where
  "box_lengths a \<longleftrightarrow> (\<forall>p n m. length (boxBox a p n m) = length m + polyOverhead)"

text \<open>
  Both ends of a pair of keys compute the same box, the other end opens it, and a precomputed
  key works like the key it was computed from.
\<close>

definition box_pair :: "BoxSecretKey \<Rightarrow> BoxSecretKey \<Rightarrow> bool" where
  "box_pair a b \<longleftrightarrow>
     (\<forall>n m. boxBox a (boxGetPublicKey b) n m = boxBox b (boxGetPublicKey a) n m) \<and>
     (\<forall>n m. boxUnbox b (boxGetPublicKey a) n (boxBox a (boxGetPublicKey b) n m) = Inr m) \<and>
     (\<forall>n m. sharedBox (boxPrecompute a (boxGetPublicKey b)) n m = boxBox a (boxGetPublicKey b) n m) \<and>
     (\<forall>n c. sharedUnbox (boxPrecompute b (boxGetPublicKey a)) n c = boxUnbox b (boxGetPublicKey a) n c)"

lemma box_pair_opens:
  assumes "box_pair a b"
  shows "boxUnbox b (boxGetPublicKey a) n (sharedBox (boxPrecompute a (boxGetPublicKey b)) n m) = Inr m"
    and "sharedUnbox (boxPrecompute b (boxGetPublicKey a)) n
           (sharedBox (boxPrecompute a (boxGetPublicKey b)) n m) = Inr m"
  using assms unfolding box_pair_def by metis+

text \<open>\<open>sk\<close> opens no box that the key \<open>a\<close> made for another of the receivers.\<close>

definition opens_only_own :: "BoxSecretKey \<Rightarrow> BoxSecretKey \<Rightarrow> BoxPublicKey set \<Rightarrow> bool" where
  "opens_only_own sk a receivers \<longleftrightarrow>
     (\<forall>r\<in>receivers. r \<noteq> boxGetPublicKey sk \<longrightarrow>
        (\<forall>n n' m. \<exists>e. sharedUnbox (boxPrecompute sk (boxGetPublicKey a)) n
           (sharedBox (boxPrecompute a r) n' m) = Inl e))"

text \<open>
  A keyring that holds \<open>sk\<close> and no other of the keys whose identifiers are in \<open>K\<close>. For a hidden
  receiver it must hold no other secret key at all, because all of them are tried.
\<close>

definition ring_for :: "bytes set \<Rightarrow> Keyring \<Rightarrow> BoxSecretKey \<Rightarrow> bool" where
  "ring_for K ring sk \<longleftrightarrow>
     (\<forall>kids. set kids \<subseteq> K \<longrightarrow>
        (if boxToKID (boxGetPublicKey sk) \<in> set kids
         then \<exists>i<length kids. kids ! i = boxToKID (boxGetPublicKey sk) \<and>
                LookupBoxSecretKey ring kids = (int i, Some sk)
         else snd (LookupBoxSecretKey ring kids) = None)) \<and>
     (boxHideIdentity (boxGetPublicKey sk) \<longrightarrow> GetAllBoxSecretKeys ring = [sk])"

lemma ring_for_found:
  "ring_for K ring sk \<Longrightarrow> set kids \<subseteq> K \<Longrightarrow> boxToKID (boxGetPublicKey sk) \<in> set kids \<Longrightarrow>
     \<exists>i<length kids. kids ! i = boxToKID (boxGetPublicKey sk) \<and>
       LookupBoxSecretKey ring kids = (int i, Some sk)"
  unfolding ring_for_def by meson

lemma ring_for_missing:
  "ring_for K ring sk \<Longrightarrow> set kids \<subseteq> K \<Longrightarrow> boxToKID (boxGetPublicKey sk) \<notin> set kids \<Longrightarrow>
     snd (LookupBoxSecretKey ring kids) = None"
  unfolding ring_for_def by meson

section \<open>The payload key boxes\<close>

definition payload_nonce :: "version \<Rightarrow> nat \<Rightarrow> bytes" where
  "payload_nonce v i = (case nonceForPayloadKeyBox v (of_nat i) of Ok n \<Rightarrow> n | _ \<Rightarrow> [])"

definition receiver_entry :: "version \<Rightarrow> BoxSecretKey \<Rightarrow> bytes \<Rightarrow> nat \<Rightarrow> BoxPublicKey \<Rightarrow> receiverKeys" where
  "receiver_entry v eph key i r =
     \<lparr>ReceiverKID = (if boxHideIdentity r then [] else boxToKID r),
      PayloadKeyBox = sharedBox (boxPrecompute eph r) (payload_nonce v i) key\<rparr>"

lemma payload_nonce_Ok: "known_major v \<Longrightarrow> nonceForPayloadKeyBox v (of_nat i) = Ok (payload_nonce v i)"
  using nonceForPayloadKeyBox_known [of v "of_nat i"] by (auto simp: payload_nonce_def)

lemma receiver_boxes_Ok:
  "known_major v \<Longrightarrow> receiver_boxes v eph key i rs =
     Ok (map (\<lambda>(j, r). receiver_entry v eph key j r) (enumerate i rs))"
  by (induction rs arbitrary: i) (auto simp: payload_nonce_Ok receiver_entry_def Let_def)

section \<open>The MAC keys\<close>

definition mac_single :: "BoxSecretKey \<Rightarrow> BoxPublicKey \<Rightarrow> bytes \<Rightarrow> bytes" where
  "mac_single a p n = take 32 (drop 16 (boxBox a p n (replicate 32 0)))"

definition mac_key :: "version \<Rightarrow> BoxSecretKey \<Rightarrow> BoxSecretKey \<Rightarrow> bytes \<Rightarrow> nat \<Rightarrow> BoxPublicKey \<Rightarrow> bytes" where
  "mac_key v sender eph hh i r =
     (if v = Version1 then mac_single sender r (take 24 hh)
      else take 32 (sha512 (mac_single sender r (flagged_prefix hh False @ be64 (of_nat i)) @
                            mac_single eph r (flagged_prefix hh True @ be64 (of_nat i)))))"

lemma computeMACKeySingle_lengths:
  "box_lengths a \<Longrightarrow> computeMACKeySingle a p n = Ok (mac_single a p n)"
  by (simp add: computeMACKeySingle_def box_lengths_def polyOverhead_def cryptoAuthKeyBytes_def
      sliceToByte_def mac_single_def)

lemma computeMACKeySender_Ok:
  assumes "v = Version1 \<or> v = Version2" "box_lengths s" "box_lengths e" "length hh = 64"
  shows "computeMACKeySender v (of_nat i) s e r hh = Ok (mac_key v s e hh i r)"
  using assms
  by (auto simp: computeMACKeySender_def nonceForMACKeyBoxV1_Ok nonceForMACKeyBoxV2_def
      computeMACKeySingle_lengths mac_key_def)

lemma computeMACKeysSender_Ok:
  assumes "v = Version1 \<or> v = Version2" "box_lengths s" "box_lengths e" "length hh = 64"
  shows "computeMACKeysSender v s e i rs hh = Ok (map (\<lambda>(j, r). mac_key v s e hh j r) (enumerate i rs))"
  by (induction rs arbitrary: i) (auto simp: computeMACKeySender_Ok [OF assms])

text \<open>The receiver computes the sender's MAC key, from its own secret key and the public keys.\<close>

lemma computeMACKeyReceiver_Ok:
  assumes v: "v = Version1 \<or> v = Version2" and hh: "length hh = 64"
    and s: "box_pair s sk" "box_lengths s" and e: "box_pair e sk" "box_lengths e"
  shows "computeMACKeyReceiver v (of_nat i) sk (boxGetPublicKey s) (boxGetPublicKey e) hh =
    Ok (mac_key v s e hh i (boxGetPublicKey sk))"
proof -
  have single: "computeMACKeySingle sk (boxGetPublicKey a) n = Ok (mac_single a (boxGetPublicKey sk) n)"
    if "box_pair a sk" "box_lengths a" for a n
  proof -
    have "boxBox sk (boxGetPublicKey a) n (replicate cryptoAuthKeyBytes 0) =
        boxBox a (boxGetPublicKey sk) n (replicate cryptoAuthKeyBytes 0)"
      using that(1) by (simp add: box_pair_def)
    then show ?thesis
      using computeMACKeySingle_lengths [OF that(2), of "boxGetPublicKey sk" n]
      by (simp add: computeMACKeySingle_def)
  qed
  from v show ?thesis
  proof
    assume "v = Version1"
    with hh single [OF s] show ?thesis
      by (simp add: computeMACKeyReceiver_def nonceForMACKeyBoxV1_Ok mac_key_def)
  next
    assume "v = Version2"
    with hh single [OF s] single [OF e] show ?thesis
      by (simp add: computeMACKeyReceiver_def nonceForMACKeyBoxV2_def mac_key_def)
  qed
qed

section \<open>Finding the payload key\<close>

text \<open>The setting of the searches: a header with entries for \<open>rs\<close>, the one of \<open>sk\<close> at \<open>p\<close>.\<close>

definition entries_for ::
  "version \<Rightarrow> BoxSecretKey \<Rightarrow> bytes \<Rightarrow> BoxPublicKey list \<Rightarrow> BoxSecretKey \<Rightarrow> nat \<Rightarrow> EncryptionHeader \<Rightarrow> bool" where
  "entries_for v eph key rs sk p hdr \<longleftrightarrow>
     HVersion hdr = v \<and> known_major v \<and> length key = 32 \<and> box_pair eph sk \<and>
     Receivers hdr = map (\<lambda>(j, r). receiver_entry v eph key j r) (enumerate 0 rs) \<and>
     p < length rs \<and> rs ! p = boxGetPublicKey sk \<and> distinct (map boxToKID rs) \<and>
     boxToKID (boxGetPublicKey sk) \<noteq> []"

lemma entries_nth:
  "entries_for v eph key rs sk p hdr \<Longrightarrow> i < length rs \<Longrightarrow>
     Receivers hdr ! i = receiver_entry v eph key i (rs ! i)"
  by (simp add: entries_for_def nth_enumerate_eq)

lemma entries_length: "entries_for v eph key rs sk p hdr \<Longrightarrow> length (Receivers hdr) = length rs"
  by (simp add: entries_for_def)

lemma entries_kid:
  assumes "entries_for v eph key rs sk p hdr" "i < length rs"
    and "ReceiverKID (Receivers hdr ! i) = boxToKID (boxGetPublicKey sk)"
  shows "i = p \<and> \<not> boxHideIdentity (boxGetPublicKey sk)"
proof -
  from assms entries_nth [OF assms(1,2)] have "\<not> boxHideIdentity (rs ! i)"
      "map boxToKID rs ! i = map boxToKID rs ! p"
    by (auto simp: receiver_entry_def entries_for_def split: if_splits)
  moreover from this(2) assms have "i = p"
    using nth_eq_iff_index_eq [of "map boxToKID rs" i p] by (simp add: entries_for_def)
  ultimately show ?thesis using assms(1) by (simp add: entries_for_def)
qed

lemma named_kids_subset:
  "entries_for v eph key rs sk p hdr \<Longrightarrow> set (named_kids hdr) \<subseteq> boxToKID ` set rs"
  using entries_length [of v eph key rs sk p hdr] entries_nth [of v eph key rs sk p hdr]
  by (auto simp: named_kids_def named_positions_def receiver_entry_def split: if_splits)

lemma tryVisible_named:
  assumes entries: "entries_for v eph key rs sk p hdr" and ring: "ring_for (boxToKID ` set rs) ring sk"
    and visible: "\<not> boxHideIdentity (boxGetPublicKey sk)"
  shows "tryVisibleReceivers ring hdr (boxGetPublicKey eph) = Ok (Some (sk, key, p))"
proof -
  let ?kid = "boxToKID (boxGetPublicKey sk)"
  have p: "p < length rs" "rs ! p = boxGetPublicKey sk" "?kid \<noteq> []" "length key = 32" "box_pair eph sk"
      "HVersion hdr = v" "known_major v"
    using entries by (simp_all add: entries_for_def)
  have entry: "Receivers hdr ! p = receiver_entry v eph key p (boxGetPublicKey sk)"
    using entries_nth [OF entries p(1)] p(2) by simp
  then have "p \<in> set (named_positions hdr)" "ReceiverKID (Receivers hdr ! p) = ?kid"
    using p visible entries_length [OF entries] by (simp_all add: named_positions_def receiver_entry_def)
  then have "?kid \<in> set (named_kids hdr)" by (force simp: named_kids_def)
  from ring_for_found [OF ring named_kids_subset [OF entries] this] obtain i where i: "i < length (named_kids hdr)"
      "named_kids hdr ! i = ?kid" "LookupBoxSecretKey ring (named_kids hdr) = (int i, Some sk)"
    by blast
  have "named_positions hdr ! i \<in> set (named_positions hdr)"
    using i(1) by (simp add: named_kids_def)
  then have "named_positions hdr ! i < length rs"
    using entries_length [OF entries] by (auto simp: named_positions_def)
  with i(1,2) have pos: "named_positions hdr ! i = p" "i < length (named_positions hdr)"
    using entries_kid [OF entries] by (simp_all add: named_kids_def)
  show ?thesis
    using i(3) pos entry p box_pair_opens(1) [OF p(5)]
    by (simp add: tryVisibleReceivers_def Let_def payload_nonce_Ok receiver_entry_def unbox_result_def)
qed

lemma tryVisible_hidden:
  assumes entries: "entries_for v eph key rs sk p hdr" and ring: "ring_for (boxToKID ` set rs) ring sk"
    and hidden: "boxHideIdentity (boxGetPublicKey sk)"
  shows "tryVisibleReceivers ring hdr (boxGetPublicKey eph) = Ok None"
proof -
  have "boxToKID (boxGetPublicKey sk) \<notin> set (named_kids hdr)"
  proof
    assume "boxToKID (boxGetPublicKey sk) \<in> set (named_kids hdr)"
    then obtain i where "i < length rs" "ReceiverKID (Receivers hdr ! i) = boxToKID (boxGetPublicKey sk)"
      using entries_length [OF entries] by (auto simp: named_kids_def named_positions_def)
    with entries_kid [OF entries] hidden show False by blast
  qed
  from ring_for_missing [OF ring named_kids_subset [OF entries] this] show ?thesis by (cases "LookupBoxSecretKey ring (named_kids hdr)")
    (simp add: tryVisibleReceivers_def Let_def)
qed

lemma try_hidden_finds:
  assumes "known_major v" "box_pair eph sk" "length key = 32"
    and "opens_only_own sk eph (set rs)"
    and "k < length rs" "rs ! k = boxGetPublicKey sk"
    and "boxHideIdentity (boxGetPublicKey sk)" "\<forall>j<k. rs ! j \<noteq> boxGetPublicKey sk"
  shows "try_hidden v (boxPrecompute sk (boxGetPublicKey eph)) i
      (map (\<lambda>(j, r). receiver_entry v eph key j r) (enumerate i rs)) = Ok (Some (key, i + k))"
  using assms(4-6,8)
proof (induction rs arbitrary: i k)
  case (Cons r rs)
  show ?case
  proof (cases k)
    case 0
    then have r: "r = boxGetPublicKey sk" using Cons.prems(3) by simp
    have "sharedUnbox (boxPrecompute sk (boxGetPublicKey eph)) (payload_nonce v i)
        (sharedBox (boxPrecompute eph r) (payload_nonce v i) key) = Inr key"
      using box_pair_opens(2) [OF assms(2)] r by simp
    then show ?thesis using 0 r assms(1,3,7)
      by (simp add: receiver_entry_def payload_nonce_Ok)
  next
    case (Suc k')
    have "r \<noteq> boxGetPublicKey sk" using Cons.prems(4) Suc by auto
    with Cons.prems(1) obtain e where "sharedUnbox (boxPrecompute sk (boxGetPublicKey eph)) (payload_nonce v i)
        (sharedBox (boxPrecompute eph r) (payload_nonce v i) key) = Inl e"
      unfolding opens_only_own_def by (metis list.set_intros(1))
    moreover have "try_hidden v (boxPrecompute sk (boxGetPublicKey eph)) (Suc i)
        (map (\<lambda>(j, r). receiver_entry v eph key j r) (enumerate (Suc i) rs)) = Ok (Some (key, Suc i + k'))"
      by (rule Cons.IH) (use Cons.prems Suc in \<open>auto simp: opens_only_own_def\<close>)
    ultimately show ?thesis
      using Suc assms(1) by (simp add: receiver_entry_def payload_nonce_Ok)
  qed
qed simp

lemma tryHidden_finds:
  assumes entries: "entries_for v eph key rs sk p hdr" and ring: "ring_for (boxToKID ` set rs) ring sk"
    and own: "opens_only_own sk eph (set rs)" and hidden: "boxHideIdentity (boxGetPublicKey sk)"
  shows "tryHiddenReceivers ring hdr (boxGetPublicKey eph) = Ok (Some (sk, key, p))"
proof -
  have p: "p < length rs" "rs ! p = boxGetPublicKey sk" "distinct (map boxToKID rs)"
    using entries by (simp_all add: entries_for_def)
  have "\<forall>j<p. rs ! j \<noteq> boxGetPublicKey sk"
  proof (intro allI impI)
    fix j assume "j < p"
    then have "map boxToKID rs ! j \<noteq> map boxToKID rs ! p"
      using p nth_eq_iff_index_eq [of "map boxToKID rs" j p] by simp
    with \<open>j < p\<close> p show "rs ! j \<noteq> boxGetPublicKey sk" by auto
  qed
  then have "try_hidden v (boxPrecompute sk (boxGetPublicKey eph)) 0
      (map (\<lambda>(j, r). receiver_entry v eph key j r) (enumerate 0 rs)) = Ok (Some (key, 0 + p))"
    using entries own hidden p by (intro try_hidden_finds) (simp_all add: entries_for_def)
  with entries ring hidden show ?thesis
    by (simp add: tryHiddenReceivers_def entries_for_def ring_for_def)
qed

end
