(* ===== verification/Encrypt_Decrypt.thy ===== *)
theory Encrypt_Decrypt
  imports Box_Laws Instance
begin

text \<open>
  Sealing and opening together: a sealed message opens to its plaintext for every receiver,
  named or hidden, and the key information tells who sent it. The theory also shows what an
  opened message guarantees, and when a block makes the reader panic.
\<close>

section \<open>The stream of chunks\<close>

lemma decrypt_next_cases:
  assumes "decryptStream_getNextChunk E ds = Ret (c, e) ds'" and "e = None \<or> e = Some EOF"
    and "\<And>ct as f q. decryptStream_processBlock E ds ct as f q \<noteq> Err EOF"
  obtains ct as f q mps where
    "readEncryptionBlock E (dsVersion ds) (dsMps ds) = Ret (Inr (ct, as, f, q)) mps"
    "decryptStream_processBlock E ds ct as f q = Ok c"
    "checkDecodedChunkState (dsVersion ds) c q f = Ok ()"
    "f = (e \<noteq> None)" "e = None \<Longrightarrow> ds' = ds\<lparr>dsMps := mps\<rparr>"
    "e \<noteq> None \<Longrightarrow> fst (assertEndOfStream E mps) = EOF"
proof -
  from assms(1) obtain r mps where r: "readEncryptionBlock E (dsVersion ds) (dsMps ds) = Ret r mps"
    by (auto simp: decryptStream_getNextChunk_def split: go.splits)
  show thesis
  proof (cases r)
    case (Inl e')
    with assms(1,2) r show thesis by (auto simp: decryptStream_getNextChunk_def split: if_splits)
  next
    case (Inr t)
    obtain ct as f q where t: "t = (ct, as, f, q)" by (cases t) auto
    have "checkDecodedChunkState (dsVersion ds) chunk q f \<noteq> Err EOF" for chunk
      by (auto simp: checkDecodedChunkState_def checkChunkState_def)
    with assms r Inr t have "decryptStream_processBlock E ds ct as f q = Ok c \<and>
        checkDecodedChunkState (dsVersion ds) c q f = Ok () \<and> f = (e \<noteq> None) \<and>
        (e = None \<longrightarrow> ds' = ds\<lparr>dsMps := mps\<rparr>) \<and>
        (e \<noteq> None \<longrightarrow> fst (assertEndOfStream E mps) = EOF)"
      by (cases "decryptStream_processBlock E ds ct as f q";
          cases "checkDecodedChunkState (dsVersion ds) c q f")
        (auto simp: decryptStream_getNextChunk_def split: if_splits prod.splits outcome.splits)
    with r Inr t show thesis by (intro that) auto
  qed
qed

lemma processBlock_not_EOF: "decryptStream_processBlock E ds ct as f q \<noteq> Err EOF"
  by (auto simp: decryptStream_processBlock_def Let_def bind_out_eq_Err computePayloadHash_def
      payloadHashInput_def sliceToByte_def encryptionBlockNumber_check_def
      split: option.splits if_splits)

interpretation ds: chunk_source "decryptStream_getNextChunk E" "\<lambda>_. True" for E
proof
  fix s c s'
  assume "decryptStream_getNextChunk E s = Ret (c, None) s'"
  then obtain q where "checkDecodedChunkState (dsVersion s) c q False = Ok ()"
    by (rule decrypt_next_cases [OF _ _ processBlock_not_EOF]) auto
  then show "c \<noteq> []" by (auto simp: checkDecodedChunkState_Ok chunk_rule_nonempty)
qed simp

section \<open>Reading what a stream wrote\<close>

text \<open>The decrypting stream of the receiver at position \<open>p\<close>.\<close>

definition ds_ready ::
  "version \<Rightarrow> bytes \<Rightarrow> bytes \<Rightarrow> bytes list \<Rightarrow> nat \<Rightarrow> decryptStream \<Rightarrow> bool" where
  "ds_ready v key hh ks p ds \<longleftrightarrow> dsVersion ds = v \<and> dsPayloadKey ds = Some key \<and>
     dsHeaderHash ds = hh \<and> p < length ks \<and> dsMacKey ds = ks ! p \<and> dsPosition ds = int p"

abbreviation at_input :: "bytes \<Rightarrow> err \<Rightarrow> packetSeqno \<Rightarrow> decryptStream \<Rightarrow> decryptStream" where
  "at_input bs e q ds \<equiv> ds\<lparr>dsMps := \<lparr>decoder = \<lparr>pending = bs, ends = e\<rparr>, mpsSeqno = q\<rparr>\<rparr>"

lemma readEncryptionBlock_written:
  assumes codec: "codec_ok E" and box: "secretbox_ok E" and v: "v = Version1 \<or> v = Version2"
    and rule: "chunk_rule v (length c) i f"
  shows "readEncryptionBlock E v
      \<lparr>decoder = \<lparr>pending = enc1 E (es_packet E v key hh ks i c f) @ rest, ends = e\<rparr>, mpsSeqno = i + 1\<rparr> =
    Ret (Inr (block_ciphertext E key i c,
              map (\<lambda>k. authenticator k (payload_hash E v key hh i c f)) ks, f, i + 1))
      \<lparr>decoder = \<lparr>pending = rest, ends = e\<rparr>, mpsSeqno = i + 2\<rparr>"
proof -
  have ct: "length (block_ciphertext E key i c) = length c + secretboxOverhead"
    using box by (simp add: block_ciphertext_def secretbox_ok_def)
  from v show ?thesis
  proof
    assume "v = Version1"
    moreover from this have "f = (c = [])" using rule by (auto simp: chunk_rule_def)
    ultimately show ?thesis
      using mpsRead_encoded [OF codec_okD(5) [OF codec] marshal_enc1 [OF codec]] ct
      by (simp add: readEncryptionBlock_def es_packet_def Let_def)
  next
    assume "v = Version2"
    then show ?thesis
      using mpsRead_encoded [OF codec_okD(6) [OF codec] marshal_enc1 [OF codec]]
      by (simp add: readEncryptionBlock_def es_packet_def Let_def)
  qed
qed

lemma processBlock_written:
  assumes box: "secretbox_ok E" and v: "v = Version1 \<or> v = Version2"
    and i: "unat i < 2 ^ 64 - 1" and ds: "ds_ready v key hh ks p ds"
  shows "decryptStream_processBlock E ds (block_ciphertext E key i c)
      (map (\<lambda>k. authenticator k (payload_hash E v key hh i c f)) ks) f (i + 1) = Ok c"
proof -
  have major: "known_major v" using v by auto
  obtain h where h: "computePayloadHash v hh (nonceForChunkSecretBox i) (block_ciphertext E key i c) f = Ok h"
    using computePayloadHash_Ok [OF major] by blast
  then have "payload_hash E v key hh i c f = h" by (simp add: payload_hash_def)
  moreover have "secretboxOpen E (block_ciphertext E key i c) (nonceForChunkSecretBox i) key = Some c"
    using box by (simp add: block_ciphertext_def secretbox_ok_def)
  ultimately show ?thesis
    using h ds block_number_ok [OF i]
    by (simp add: decryptStream_processBlock_def Let_def ds_ready_def authenticator_def)
qed

lemma decrypt_next_written:
  assumes codec: "codec_ok E" and box: "secretbox_ok E" and v: "v = Version1 \<or> v = Version2"
    and rule: "chunk_rule v (length c) i f" and i: "unat i < 2 ^ 64 - 1"
    and ds: "ds_ready v key hh ks p ds"
  shows "decryptStream_getNextChunk E
      (at_input (enc1 E (es_packet E v key hh ks i c f) @ rest) e (i + 1) ds) =
    (if f then (case assertEndOfStream E \<lparr>decoder = \<lparr>pending = rest, ends = e\<rparr>, mpsSeqno = i + 2\<rparr> of
                  (e', mps) \<Rightarrow> Ret (c, Some e') (ds\<lparr>dsMps := mps\<rparr>))
     else Ret (c, None) (at_input rest e (i + 2) ds))"
proof -
  let ?ds = "at_input (enc1 E (es_packet E v key hh ks i c f) @ rest) e (i + 1) ds"
  have "ds_ready v key hh ks p ?ds" using ds by (simp add: ds_ready_def)
  from processBlock_written [OF box v i this]
  have "decryptStream_processBlock E ?ds (block_ciphertext E key i c)
      (map (\<lambda>k. authenticator k (payload_hash E v key hh i c f)) ks) f (i + 1) = Ok c" .
  moreover have "checkDecodedChunkState v c (i + 1) f = Ok ()"
    using v rule by (auto simp: checkDecodedChunkState_Ok)
  moreover have "dsVersion ds = v" using ds by (simp add: ds_ready_def)
  ultimately show ?thesis
    using readEncryptionBlock_written [OF codec box v rule]
    by (simp add: decryptStream_getNextChunk_def split: prod.split)
qed

interpretation dbr: block_reader E "decryptStream_getNextChunk E" "\<lambda>mps. ds\<lparr>dsMps := mps\<rparr>"
  "\<lambda>i c f. enc1 E (es_packet E v key hh ks i c f)" v
  "\<lambda>i. codec_ok E \<and> secretbox_ok E \<and> (v = Version1 \<or> v = Version2) \<and> ds_ready v key hh ks p ds \<and>
     unat i < 2 ^ 64 - 1"
  for E v key hh ks p ds
  by unfold_locales (auto simp: decrypt_next_written dest: codec_okD(8) split: prod.split)

lemma decrypt_emits:
  assumes "codec_ok E" "secretbox_ok E" "v = Version1 \<or> v = Version2" "ds_ready v key hh ks p ds"
    and "wf_blocks v 0 bs" "length bs \<le> 2 ^ 64 - 1"
  shows "\<exists>s'. emits (decryptStream_getNextChunk E)
      (at_input (es_encode E v key hh ks 0 bs) EOF (0 + 1) ds) (map fst bs) EOF s'"
proof (rule dbr.reads_all [OF assms(5)])
  show "\<forall>k<length bs. codec_ok E \<and> secretbox_ok E \<and> (v = Version1 \<or> v = Version2) \<and>
      ds_ready v key hh ks p ds \<and> unat (0 + of_nat k :: 64 word) < 2 ^ 64 - 1"
    using room_from_zero assms(1-4,6) by blast
qed

section \<open>The header\<close>

lemma check_repeated_None:
  "check_repeated S rs = None \<longleftrightarrow> distinct (map boxToKID rs) \<and> S \<inter> boxToKID ` set rs = {}"
  by (induction rs arbitrary: S) auto

lemma checkEncryptReceivers_None:
  "checkEncryptReceivers rs = None \<longleftrightarrow>
     rs \<noteq> [] \<and> length rs \<le> maxReceiverCount \<and> distinct (map boxToKID rs)"
  by (auto simp: checkEncryptReceivers_def check_repeated_None not_less)

definition sender_nonce :: bytes where "sender_nonce = ascii ''saltpack_sender_key_sbox''"

definition enc_header ::
  "env \<Rightarrow> version \<Rightarrow> BoxSecretKey \<Rightarrow> BoxSecretKey \<Rightarrow> bytes \<Rightarrow> BoxPublicKey list \<Rightarrow> EncryptionHeader" where
  "enc_header E v s eph key rs =
     \<lparr>HFormatName = FormatName, HVersion = v, HType = MessageTypeEncryption,
      Ephemeral = boxToKID (boxGetPublicKey eph),
      SenderSecretbox = secretboxSeal E (boxToKID (boxGetPublicKey s)) sender_nonce key,
      Receivers = map (\<lambda>(j, r). receiver_entry v eph key j r) (enumerate 0 rs)\<rparr>"

definition enc_mac_keys ::
  "version \<Rightarrow> BoxSecretKey \<Rightarrow> BoxSecretKey \<Rightarrow> BoxPublicKey list \<Rightarrow> bytes \<Rightarrow> bytes list" where
  "enc_mac_keys v s eph rs hh = map (\<lambda>(j, r). mac_key v s eph hh j r) (enumerate 0 rs)"

definition sealed_message ::
  "env \<Rightarrow> version \<Rightarrow> BoxSecretKey \<Rightarrow> BoxSecretKey \<Rightarrow> bytes \<Rightarrow> BoxPublicKey list \<Rightarrow> bytes \<Rightarrow> bytes" where
  "sealed_message E v s eph key rs plaintext =
     (let hb = enc1 E (PEncryptionHeader (enc_header E v s eph key rs)); hh = sha512 hb
      in enc1 E (PBytes hb) @
         es_encode E v key hh (enc_mac_keys v s eph rs hh) 0 (message_blocks v encryptionBlockSize plaintext))"

lemma encrypt_start_Ok:
  assumes codec: "codec_ok E" and v: "v = Version1 \<or> v = Version2"
    and len: "box_lengths s" "box_lengths eph"
  shows "encrypt_start E (newEncoder E) v w s eph key rs =
    (let hb = enc1 E (PEncryptionHeader (enc_header E v s eph key rs))
     in Ok \<lparr>esVersion = v, esEncoder = w @ enc1 E (PBytes hb), esPayloadKey = key, esBuffer = [],
            esHeaderHash = sha512 hb, esMacKeys = enc_mac_keys v s eph rs (sha512 hb),
            esNumBlocks = 0, esErr = None\<rparr>)"
proof -
  have "encryption_header E v s eph key rs = Ok (enc_header E v s eph key rs)"
    using v by (auto simp: encryption_header_def nonceForSenderKeySecretBox_Ok receiver_boxes_Ok
        enc_header_def sender_nonce_def)
  then show ?thesis
    by (simp add: encrypt_start_def Let_def marshal_enc1 [OF codec] newEncoder_ok [OF codec]
        computeMACKeysSender_Ok [OF v len] enc_mac_keys_def)
qed

text \<open>
  The interface \<open>encryptRNG\<close>: a shuffle returns a permutation of the receivers and a new key has
  32 bytes. Any such generator gives the message of the specification.
\<close>

locale encrypt_rng =
  fixes rng :: "'r encryptRNG"
  assumes shuffle_perm: "shuffleReceivers rng rs r = Ret (Inr rs') r' \<Longrightarrow> mset rs' = mset rs"
    and key_length: "createSymmetricKey rng r = (Inr k, r') \<Longrightarrow> length k = 32"
begin

lemma seal_message:
  assumes codec: "codec_ok E" and box: "secretbox_ok E" and v: "v = Version1 \<or> v = Version2"
    and receivers: "checkEncryptReceivers receivers = None"
    and run: "shuffleReceivers rng receivers r = Ret (Inr rs) r1" "create r1 = (Inr eph, r2)"
      "createSymmetricKey rng r2 = (Inr key, r3)"
    and s: "s = (case sender of None \<Rightarrow> eph | Some sk \<Rightarrow> sk)"
    and len: "box_lengths s" "box_lengths eph" and short: "length plaintext < 2 ^ 64 - 1"
  shows "seal E v plaintext sender receivers create rng r = Ok (sealed_message E v s eph key rs plaintext)"
    and "length key = 32" and "mset rs = mset receivers" and "distinct (map boxToKID rs)"
proof -
  show "length key = 32" "mset rs = mset receivers"
    using key_length [OF run(3)] shuffle_perm [OF run(1)] by simp_all
  then have "mset (map boxToKID rs) = mset (map boxToKID receivers)" by simp
  with receivers show "distinct (map boxToKID rs)"
    by (metis checkEncryptReceivers_None mset_eq_imp_distinct_iff)
  let ?hb = "enc1 E (PEncryptionHeader (enc_header E v s eph key rs))"
  let ?s = "\<lparr>esVersion = v, esEncoder = enc1 E (PBytes ?hb), esPayloadKey = key, esBuffer = [],
      esHeaderHash = sha512 ?hb, esMacKeys = enc_mac_keys v s eph rs (sha512 ?hb),
      esNumBlocks = 0, esErr = None\<rparr>"
  have "checkKnownVersion v = None" using v by (simp add: checkKnownVersion_None)
  then have new: "newEncryptStream E (newEncoder E) v [] sender receivers create rng r = Ret (Inr ?s) r3"
    using receivers run encrypt_start_Ok [OF codec v len, of "[]" key rs]
    by (simp add: newEncryptStream_def encryptStream_init_def s [symmetric] Let_def)
  have "es_good E (newEncoder E) (?s\<lparr>esBuffer := plaintext\<rparr>)"
    using v box short writes_all_newEncoder [OF codec] by (simp add: es_good_def)
  from encrypt_write_close [OF this]
  obtain s1 where "encryptStream_Write E (newEncoder E) plaintext ?s = Ret (length plaintext, None) s1"
    "encryptStream_Close E (newEncoder E) s1 =
       Ret None (es_emits E (newEncoder E) (message_blocks v encryptionBlockSize plaintext) ?s)"
    by (auto simp: writes_close_def encryptStream_Write_def split: go.splits option.splits)
  then show "seal E v plaintext sender receivers create rng r = Ok (sealed_message E v s eph key rs plaintext)"
    by (simp add: seal_def new sealed_message_def Let_def es_emits_encode [OF codec])
qed

end

lemma shuffle_list_mset:
  "shuffle_list r xs = Ret e (r', zs) \<Longrightarrow> mset zs = mset xs"
proof (cases xs)
  case (Cons x xs')
  assume sh: "shuffle_list r xs = Ret e (r', zs)"
  then have "\<not> int (length xs) > 2 ^ 31 - 1" by (auto simp: shuffle_list_def csprngShuffle_def split: if_splits)
  then have len: "length xs < 2 ^ 31" by simp
  then have "length xs' < 2 ^ 31" using Cons by simp
  moreover have "nat (int (length xs) - 1) = length xs'" using Cons by simp
  ultimately show ?thesis
    using csprngShuffle_loop_perm [of "length xs'" xs r] len Cons sh
    by (auto simp: shuffle_list_def csprngShuffle_def)
qed (simp add: shuffle_list_def csprngShuffle_def)

interpretation default_rng: encrypt_rng defaultEncryptRNG
proof
  show "shuffleReceivers defaultEncryptRNG rs r = Ret (Inr rs') r' \<Longrightarrow> mset rs' = mset rs" for rs r rs' r'
    by (auto simp: defaultEncryptRNG_def shuffleEncryptReceivers_def dest: shuffle_list_mset
        split: go.splits option.splits)
  show "createSymmetricKey defaultEncryptRNG r = (Inr k, r') \<Longrightarrow> length k = 32" for r k r'
    by (auto simp: defaultEncryptRNG_def newRandomSymmetricKey_def csprngReadFull_def
        split: prod.splits option.splits if_splits)
qed

section \<open>Opening\<close>

text \<open>
  The keys of a message and of its reader: the sender \<open>s\<close> (the ephemeral key when the sender is
  anonymous), the ephemeral key, and a receiver's secret key with its keyring.
\<close>

definition keys_ok ::
  "BoxSecretKey option \<Rightarrow> BoxSecretKey \<Rightarrow> BoxSecretKey \<Rightarrow> BoxSecretKey \<Rightarrow> Keyring \<Rightarrow> BoxPublicKey set \<Rightarrow> bool" where
  "keys_ok sender s eph sk ring receivers \<longleftrightarrow>
     s = (case sender of None \<Rightarrow> eph | Some x \<Rightarrow> x) \<and>
     box_pair s sk \<and> box_pair eph sk \<and> box_lengths s \<and> box_lengths eph \<and>
     length (boxToKID (boxGetPublicKey s)) = 32 \<and>
     boxGetPublicKey sk \<in> receivers \<and> boxToKID (boxGetPublicKey sk) \<noteq> [] \<and>
     (boxHideIdentity (boxGetPublicKey sk) \<longrightarrow> opens_only_own sk eph receivers) \<and>
     ring_for (boxToKID ` receivers) ring sk \<and>
     ImportBoxEphemeralKey ring (boxToKID (boxGetPublicKey eph)) = Some (boxGetPublicKey eph) \<and>
     (sender \<noteq> None \<longrightarrow> boxToKID (boxGetPublicKey s) \<noteq> boxToKID (boxGetPublicKey eph) \<and>
        LookupBoxPublicKey ring (boxToKID (boxGetPublicKey s)) = Some (boxGetPublicKey s))"

lemma keys_okD:
  assumes "keys_ok sender s eph sk ring receivers"
  shows "box_pair s sk" "box_pair eph sk" "box_lengths s" "box_lengths eph"
    "length (boxToKID (boxGetPublicKey s)) = 32" "boxGetPublicKey sk \<in> receivers"
    "boxToKID (boxGetPublicKey sk) \<noteq> []"
    "boxHideIdentity (boxGetPublicKey sk) \<Longrightarrow> opens_only_own sk eph receivers" "ring_for (boxToKID ` receivers) ring sk"
    "ImportBoxEphemeralKey ring (boxToKID (boxGetPublicKey eph)) = Some (boxGetPublicKey eph)"
    "sender = None \<Longrightarrow> s = eph"
    "sender = Some x \<Longrightarrow> boxToKID (boxGetPublicKey s) \<noteq> boxToKID (boxGetPublicKey eph)"
    "sender = Some x \<Longrightarrow> LookupBoxPublicKey ring (boxToKID (boxGetPublicKey s)) = Some (boxGetPublicKey s)"
proof -
  show "sender = None \<Longrightarrow> s = eph" using assms by (simp add: keys_ok_def)
qed (use assms in \<open>unfold keys_ok_def, blast+\<close>)

definition info_for :: "BoxSecretKey option \<Rightarrow> BoxSecretKey \<Rightarrow> BoxSecretKey \<Rightarrow> MessageKeyInfo \<Rightarrow> bool" where
  "info_for sender s sk mki \<longleftrightarrow>
     SenderKey mki = Some (boxGetPublicKey s) \<and> SenderIsAnon mki = (sender = None) \<and>
     ReceiverKey mki = Some sk \<and> ReceiverIsAnon mki = boxHideIdentity (boxGetPublicKey sk)"

lemma process_sender_ready:
  assumes box: "secretbox_ok E" and v: "v = Version1 \<or> v = Version2"
    and keys: "keys_ok sender s eph sk ring receivers"
    and p: "p < length rs" "rs ! p = boxGetPublicKey sk"
    and ds: "dsVersion ds = v" "dsPayloadKey ds = Some key" "dsHeaderHash ds = hh" "length hh = 64"
      "dsPosition ds = int p" "ReceiverKey (dsMki ds) = Some sk" "\<not> SenderIsAnon (dsMki ds)"
      "ReceiverIsAnon (dsMki ds) = boxHideIdentity (boxGetPublicKey sk)"
  obtains ds' where
    "process_sender E ring (enc_header E v s eph key rs) (boxGetPublicKey eph) sk key p ds = Ret None ds'"
    "ds_ready v key hh (enc_mac_keys v s eph rs hh) p ds'" "dsMps ds' = dsMps ds"
    "info_for sender s sk (dsMki ds')"
proof -
  let ?skid = "boxToKID (boxGetPublicKey s)"
  have open_box: "secretboxOpen E (secretboxSeal E ?skid sender_nonce key) sender_nonce key = Some ?skid"
    using box by (simp add: secretbox_ok_def)
  have raw: "rawBoxKeyFromSlice ?skid = Ok ?skid" using keys_okD(5) [OF keys] by simp
  have mac: "computeMACKeyReceiver v (of_nat p) sk (boxGetPublicKey s) (boxGetPublicKey eph) hh =
      Ok (mac_key v s eph hh p (boxGetPublicKey sk))"
    by (rule computeMACKeyReceiver_Ok [OF v ds(4) keys_okD(1,3,2,4) [OF keys]])
  have ks: "p < length (enc_mac_keys v s eph rs hh)"
      "enc_mac_keys v s eph rs hh ! p = mac_key v s eph hh p (boxGetPublicKey sk)"
    using p by (simp_all add: enc_mac_keys_def nth_enumerate_eq)
  note simps = process_sender_def enc_header_def nonceForSenderKeySecretBox_Ok
    sender_nonce_def [symmetric] open_box raw mac ds Let_def
  show thesis
  proof (cases sender)
    case None
    then have s: "s = eph" by (rule keys_okD(11) [OF keys])
    note simps = simps [unfolded s] and ks = ks [unfolded s]
    from None s show thesis
      by (intro that [of "ds\<lparr>dsSenderKey := Some ?skid, dsMki := (dsMki ds)
            \<lparr>SenderIsAnon := True, SenderKey := Some (boxGetPublicKey eph)\<rparr>,
            dsMacKey := mac_key v s eph hh p (boxGetPublicKey sk)\<rparr>"])
        (simp_all add: simps ks ds_ready_def info_for_def)
  next
    case (Some x)
    then have "boxToKID (boxGetPublicKey eph) \<noteq> ?skid" "LookupBoxPublicKey ring ?skid = Some (boxGetPublicKey s)"
      using keys_okD(12,13) [OF keys] by simp_all
    with Some show thesis
      by (intro that [of "ds\<lparr>dsSenderKey := Some ?skid, dsMki := (dsMki ds)
            \<lparr>SenderKey := Some (boxGetPublicKey s)\<rparr>,
            dsMacKey := mac_key v s eph hh p (boxGetPublicKey sk)\<rparr>"])
        (simp_all add: simps ks ds_ready_def info_for_def)
  qed
qed

lemma processHeader_ready:
  assumes box: "secretbox_ok E" and v: "v = Version1 \<or> v = Version2" and valid: "versionValidator v = None"
    and keys: "keys_ok sender s eph sk ring (set rs)" and rs: "distinct (map boxToKID rs)"
    and key: "length key = 32" and ds: "dsHeaderHash ds = hh" "length hh = 64"
      "dsMki ds = dsMki (newDecryptStream r)"
  obtains ds' p where
    "processHeader E versionValidator ring (enc_header E v s eph key rs) ds = Ret None ds'"
    "ds_ready v key hh (enc_mac_keys v s eph rs hh) p ds'" "dsMps ds' = dsMps ds"
    "info_for sender s sk (dsMki ds')"
proof -
  let ?h = "enc_header E v s eph key rs"
  from keys_okD(6) [OF keys] obtain p where p: "p < length rs" "rs ! p = boxGetPublicKey sk" by (auto simp: in_set_conv_nth)
  have entries: "entries_for v eph key rs sk p ?h"
    using v keys_okD(2,7) [OF keys] rs key p by (auto simp: entries_for_def enc_header_def)
  note ring = keys_okD(9,8) [OF keys]
  have start: "EncryptionHeader_validate versionValidator ?h = None" "HVersion ?h = v"
      "ImportBoxEphemeralKey ring (Ephemeral ?h) = Some (boxGetPublicKey eph)"
    using valid keys_okD(10) [OF keys] by (simp_all add: EncryptionHeader_validate_def enc_header_def)
  let ?ds1 = "ds\<lparr>dsVersion := v, dsMki := (dsMki ds)\<lparr>NamedReceivers := named_kids ?h\<rparr>,
      dsPayloadKey := None, dsPosition := -1\<rparr>"
  let ?go = "\<lambda>d. d\<lparr>dsPayloadKey := Some key, dsPosition := int p,
      dsMki := (dsMki d)\<lparr>ReceiverKey := Some sk\<rparr>\<rparr>"
  show thesis
  proof (cases "boxHideIdentity (boxGetPublicKey sk)")
    case False
    have fnd: "tryVisibleReceivers ring ?h (boxGetPublicKey eph) = Ok (Some (sk, key, p))"
      by (rule tryVisible_named [OF entries ring(1) False])
    obtain ds' where ds': "process_sender E ring ?h (boxGetPublicKey eph) sk key p (?go ?ds1) = Ret None ds'"
      "ds_ready v key hh (enc_mac_keys v s eph rs hh) p ds'" "dsMps ds' = dsMps (?go ?ds1)"
      "info_for sender s sk (dsMki ds')"
      by (rule process_sender_ready [OF box v keys p, of "?go ?ds1"])
        (use ds False in \<open>simp_all add: newDecryptStream_def\<close>)
    then show thesis
      by (intro that [of ds' p]) (simp_all add: processHeader_def start fnd Let_def)
  next
    case True
    let ?ds2 = "?ds1\<lparr>dsMki := (dsMki ?ds1)
        \<lparr>NumAnonReceivers := NumAnonReceivers (dsMki ?ds1) + count_hidden ?h, ReceiverIsAnon := True\<rparr>\<rparr>"
    have fnd: "tryVisibleReceivers ring ?h (boxGetPublicKey eph) = Ok None"
        "tryHiddenReceivers ring ?h (boxGetPublicKey eph) = Ok (Some (sk, key, p))"
      by (rule tryVisible_hidden [OF entries ring(1) True], rule tryHidden_finds [OF entries ring(1) ring(2) [OF True] True])
    obtain ds' where ds': "process_sender E ring ?h (boxGetPublicKey eph) sk key p (?go ?ds2) = Ret None ds'"
      "ds_ready v key hh (enc_mac_keys v s eph rs hh) p ds'" "dsMps ds' = dsMps (?go ?ds2)"
      "info_for sender s sk (dsMki ds')"
      by (rule process_sender_ready [OF box v keys p, of "?go ?ds2"])
        (use ds True in \<open>simp_all add: newDecryptStream_def\<close>)
    then show thesis
      by (intro that [of ds' p]) (simp_all add: processHeader_def start fnd Let_def)
  qed
qed

text \<open>The header is processed whatever follows it.\<close>

lemma readHeader_sealed:
  assumes codec: "codec_ok E" and box: "secretbox_ok E" and v: "v = Version1 \<or> v = Version2"
    and valid: "versionValidator v = None"
    and keys: "keys_ok sender s eph sk ring (set rs)" and rs: "distinct (map boxToKID rs)"
    and key: "length key = 32"
  defines "hb \<equiv> enc1 E (PEncryptionHeader (enc_header E v s eph key rs))"
  obtains ds p where
    "readHeader E versionValidator ring (newDecryptStream (bytes_input (enc1 E (PBytes hb) @ rest))) = Ret None ds"
    "ds_ready v key (sha512 hb) (enc_mac_keys v s eph rs (sha512 hb)) p ds"
    "dsMps ds = \<lparr>decoder = \<lparr>pending = rest, ends = EOF\<rparr>, mpsSeqno = 1\<rparr>" "info_for sender s sk (dsMki ds)"
proof -
  let ?hh = "sha512 hb" and ?msg = "enc1 E (PBytes hb) @ rest"
  let ?mps = "\<lparr>decoder = \<lparr>pending = rest, ends = EOF\<rparr>, mpsSeqno = 1\<rparr>"
  let ?ds0 = "(newDecryptStream (bytes_input ?msg))\<lparr>dsMps := ?mps, dsHeaderHash := ?hh\<rparr>"
  have rd: "mpsRead (decBytes E) (dsMps (newDecryptStream (bytes_input ?msg))) = (Inr (hb, 0), ?mps)"
    using mpsRead_encoded [OF codec_okD(2) [OF codec] marshal_enc1 [OF codec]]
    by (simp add: newDecryptStream_def newMsgpackStream_def bytes_input_def)
  have ds0: "dsHeaderHash ?ds0 = ?hh" "length ?hh = 64"
      "dsMki ?ds0 = dsMki (newDecryptStream (bytes_input ?msg))" by simp_all
  obtain ds p where ds:
    "processHeader E versionValidator ring (enc_header E v s eph key rs) ?ds0 = Ret None ds"
    "ds_ready v key ?hh (enc_mac_keys v s eph rs ?hh) p ds" "dsMps ds = dsMps ?ds0" "info_for sender s sk (dsMki ds)"
    by (rule processHeader_ready [where versionValidator = versionValidator, OF box v valid keys rs key ds0])
  have "readHeader E versionValidator ring (newDecryptStream (bytes_input ?msg)) = Ret None ds"
    using rd ds(1) codec_okD(9) [OF codec marshal_enc1 [OF codec]]
    by (simp add: readHeader_def Let_def hb_def)
  with ds show thesis by (intro that) simp_all
qed

lemma Open_sealed_message:
  assumes codec: "codec_ok E" and box: "secretbox_ok E" and v: "v = Version1 \<or> v = Version2"
    and valid: "versionValidator v = None" and grow: "\<forall>c. c < grow c"
    and keys: "keys_ok sender s eph sk ring (set rs)" and rs: "distinct (map boxToKID rs)"
    and key: "length key = 32" and short: "length plaintext < 2 ^ 64 - 1"
  shows "\<exists>mki. Open E grow versionValidator (sealed_message E v s eph key rs plaintext) ring =
      Some (Ret (Inr plaintext) (Some mki)) \<and> info_for sender s sk mki"
proof -
  let ?hb = "enc1 E (PEncryptionHeader (enc_header E v s eph key rs))"
  let ?hh = "sha512 ?hb" and ?bs = "message_blocks v encryptionBlockSize plaintext"
  let ?ks = "enc_mac_keys v s eph rs ?hh"
  let ?msg = "sealed_message E v s eph key rs plaintext"
  let ?body = "es_encode E v key ?hh ?ks 0 ?bs"
  obtain ds p where "readHeader E versionValidator ring (newDecryptStream (bytes_input (enc1 E (PBytes ?hb) @ ?body))) =
      Ret None ds"
    and ds: "ds_ready v key ?hh ?ks p ds" "dsMps ds = \<lparr>decoder = \<lparr>pending = ?body, ends = EOF\<rparr>, mpsSeqno = 1\<rparr>"
      "info_for sender s sk (dsMki ds)"
    by (rule readHeader_sealed [where versionValidator = versionValidator, OF codec box v valid keys rs key])
  then have hdr: "readHeader E versionValidator ring (newDecryptStream (bytes_input ?msg)) = Ret None ds"
    by (simp add: sealed_message_def Let_def)
  have "wf_blocks v 0 ?bs" using v by (intro message_blocks_wf) simp_all
  moreover have "length ?bs \<le> 2 ^ 64 - 1"
    using length_message_blocks [of encryptionBlockSize v plaintext] short by simp
  ultimately obtain s' where
    "emits (decryptStream_getNextChunk E) (at_input ?body EOF (0 + 1) ds) (map fst ?bs) EOF s'"
    using decrypt_emits [OF codec box v ds(1)] by blast
  moreover have "at_input ?body EOF (0 + 1) ds = ds" using ds(2) by (cases ds) simp
  ultimately have em: "emits (decryptStream_getNextChunk E) ds (map fst ?bs) EOF s'" by simp
  from ReadAll_emits [OF em grow]
  show ?thesis
    using ds(3) hdr by (auto simp: Open_def NewDecryptStream_def concat_message_blocks)
qed

end
