(* ===== verification/Encrypt_Props.thy ===== *)
theory Encrypt_Props
  imports Encrypt_Decrypt
begin

text \<open>
  The properties of encryption: round trip, independence of the writes, what an opened message
  guarantees, the counter that guards the nonces, and a block that makes the reader panic.
\<close>

section \<open>Example keys\<close>

text \<open>
  Keys for the witnesses, made from one byte: a box is a tag that both ends can compute, in
  front of the message.
\<close>

definition toy_boxpk :: "byte \<Rightarrow> bool \<Rightarrow> BoxPublicKey" where
  "toy_boxpk k hide = \<lparr>boxToKID = replicate 32 k, boxRaw = replicate 32 k, boxHideIdentity = hide\<rparr>"

definition toy_box :: "byte \<Rightarrow> BoxPublicKey \<Rightarrow> bytes \<Rightarrow> bytes" where
  "toy_box k pk m = replicate 16 (k + boxToKID pk ! 0) @ m"

definition toy_unbox :: "byte \<Rightarrow> BoxPublicKey \<Rightarrow> bytes \<Rightarrow> err + bytes" where
  "toy_unbox k pk c =
     (if take 16 c = replicate 16 (k + boxToKID pk ! 0) then Inr (drop 16 c) else Inl ErrDecryptionFailed)"

definition toy_boxsk :: "byte \<Rightarrow> bool \<Rightarrow> BoxSecretKey" where
  "toy_boxsk k hide =
     \<lparr>boxBox = (\<lambda>pk n. toy_box k pk), boxUnbox = (\<lambda>pk n. toy_unbox k pk),
      boxGetPublicKey = toy_boxpk k hide,
      boxPrecompute = (\<lambda>pk. \<lparr>sharedUnbox = (\<lambda>n. toy_unbox k pk), sharedBox = (\<lambda>n. toy_box k pk)\<rparr>)\<rparr>"

definition toy_ring :: "BoxSecretKey \<Rightarrow> Keyring" where
  "toy_ring sk =
     \<lparr>LookupBoxSecretKey = (\<lambda>kids.
        (case find (\<lambda>i. kids ! i = boxToKID (boxGetPublicKey sk)) [0..<length kids] of
           None \<Rightarrow> (-1, None) | Some i \<Rightarrow> (int i, Some sk))),
      LookupBoxPublicKey = (\<lambda>kid. Some (toy_boxpk (kid ! 0) False)),
      GetAllBoxSecretKeys = [sk],
      ImportBoxEphemeralKey = (\<lambda>kid. Some (toy_boxpk (kid ! 0) False))\<rparr>"

lemma toy_box_sel [simp]:
  "boxToKID (toy_boxpk k h) = replicate 32 k" "boxHideIdentity (toy_boxpk k h) = h"
  "boxGetPublicKey (toy_boxsk k h) = toy_boxpk k h"
  by (simp_all add: toy_boxpk_def toy_boxsk_def)

lemma toy_box_pair: "box_pair (toy_boxsk a f) (toy_boxsk b g)"
  by (simp add: box_pair_def toy_boxsk_def toy_box_def toy_unbox_def toy_boxpk_def add.commute)

lemma toy_box_lengths: "box_lengths (toy_boxsk a f)"
  by (simp add: box_lengths_def toy_boxsk_def toy_box_def polyOverhead_def)

lemma find_index:
  "(case find (\<lambda>i. kids ! i = k) [0..<length kids] of
      None \<Rightarrow> k \<notin> set kids
    | Some i \<Rightarrow> k \<in> set kids \<and> i < length kids \<and> kids ! i = k)"
proof (cases "find (\<lambda>i. kids ! i = k) [0..<length kids]")
  case None
  then have "\<forall>i<length kids. kids ! i \<noteq> k" by (simp add: find_None_iff)
  with None show ?thesis by (auto simp: in_set_conv_nth)
next
  case (Some i)
  then have "i < length kids \<and> kids ! i = k" by (auto simp: find_Some_iff)
  with Some show ?thesis by auto
qed

lemma toy_ring_for: "ring_for K (toy_ring sk) sk"
  unfolding ring_for_def
proof (intro conjI allI impI)
  fix kids
  show "if boxToKID (boxGetPublicKey sk) \<in> set kids
    then \<exists>i<length kids. kids ! i = boxToKID (boxGetPublicKey sk) \<and>
           LookupBoxSecretKey (toy_ring sk) kids = (int i, Some sk)
    else snd (LookupBoxSecretKey (toy_ring sk) kids) = None"
    using find_index [where kids = kids and k = "boxToKID (boxGetPublicKey sk)"]
    by (cases "find (\<lambda>i. kids ! i = boxToKID (boxGetPublicKey sk)) [0..<length kids]")
      (auto simp: toy_ring_def)
qed (simp add: toy_ring_def)

lemma toy_opens_only_own:
  assumes "\<forall>r\<in>R. \<exists>b g. r = toy_boxpk b g \<and> (b = k \<longrightarrow> g = f)"
  shows "opens_only_own (toy_boxsk k f) (toy_boxsk a g) R"
  unfolding opens_only_own_def
proof (intro ballI impI allI)
  fix r n n' m
  assume r: "r \<in> R" "r \<noteq> boxGetPublicKey (toy_boxsk k f)"
  with assms obtain b g' where b: "r = toy_boxpk b g'" "b \<noteq> k" by fastforce
  have "replicate 16 (a + b) \<noteq> replicate 16 (k + a)" using b(2) by (simp add: add.commute)
  then show "\<exists>e. sharedUnbox (boxPrecompute (toy_boxsk k f) (boxGetPublicKey (toy_boxsk a g))) n
      (sharedBox (boxPrecompute (toy_boxsk a g) r) n' m) = Inl e"
    by (simp add: toy_boxsk_def toy_box_def toy_unbox_def toy_boxpk_def b(1) del: replicate_eq_replicate)
qed

lemma toy_keys_ok:
  "keys_ok (Some (toy_boxsk 5 False)) (toy_boxsk 5 False) (toy_boxsk 9 False) (toy_boxsk 2 True)
     (toy_ring (toy_boxsk 2 True)) {toy_boxpk 1 False, toy_boxpk 2 True}"
proof -
  have "opens_only_own (toy_boxsk 2 True) (toy_boxsk 9 False) {toy_boxpk 1 False, toy_boxpk 2 True}"
  proof (rule toy_opens_only_own)
    have "\<exists>b g. toy_boxpk 1 False = toy_boxpk b g \<and> (b = 2 \<longrightarrow> g = True)"
      by (rule exI [of _ 1], rule exI [of _ False]) simp
    then show "\<forall>r\<in>{toy_boxpk 1 False, toy_boxpk 2 True}. \<exists>b g. r = toy_boxpk b g \<and> (b = 2 \<longrightarrow> g = True)"
      by blast
  qed
  moreover have "LookupBoxPublicKey (toy_ring sk) (replicate 32 k) = Some (toy_boxpk k False)"
    "ImportBoxEphemeralKey (toy_ring sk) (replicate 32 k) = Some (toy_boxpk k False)" for sk k
    by (simp_all add: toy_ring_def)
  ultimately show ?thesis by (simp add: keys_ok_def toy_box_pair toy_box_lengths toy_ring_for)
qed

section \<open>Round trip\<close>

lemma sealed_opens:
  assumes codec: "codec_ok E" and box: "secretbox_ok E" and v: "v = Version1 \<or> v = Version2"
    and valid: "versionValidator v = None" and grow: "\<forall>c. c < grow c"
    and receivers: "checkEncryptReceivers receivers = None"
    and run: "shuffleEncryptReceivers receivers rand = Ret (Inr rs) r1"
      "create (receivers ! 0) r1 = (Inr eph, r2)" "newRandomSymmetricKey r2 = (Inr key, r3)"
    and keys: "keys_ok sender s eph sk ring (set receivers)"
    and short: "length plaintext < 2 ^ 64 - 1"
  shows "\<exists>msg mki. Seal E create v plaintext sender receivers rand = Ok msg \<and>
    Open E grow versionValidator msg ring = Some (Ret (Inr plaintext) (Some mki)) \<and>
    info_for sender s sk mki"
proof -
  have s: "s = (case sender of None \<Rightarrow> eph | Some x \<Rightarrow> x)" using keys by (simp add: keys_ok_def)
  note sealed = default_rng.seal_message [where create = "create (receivers ! 0)" and r = rand and
      sender = sender, OF codec box v receivers _ run(2) _ s keys_okD(3,4) [OF keys] short,
      unfolded defaultEncryptRNG_def encryptRNG.select_convs, OF run(1,3)]
  have "set rs = set receivers" using sealed(3) by (rule mset_eq_setD)
  with keys have "keys_ok sender s eph sk ring (set rs)" by simp
  from Open_sealed_message [where versionValidator = versionValidator, OF codec box v valid grow this
      sealed(4,2) short]
  obtain mki where "Open E grow versionValidator (sealed_message E v s eph key rs plaintext) ring =
      Some (Ret (Inr plaintext) (Some mki))" "info_for sender s sk mki" by blast
  moreover have "receivers \<noteq> []" using receivers by (simp add: checkEncryptReceivers_None)
  ultimately show ?thesis
    using sealed(1) by (simp add: Seal_def receiversToEphemeralKeyCreator_def defaultEncryptRNG_def)
qed

text \<open>
  C2: a sealed message opens. In both versions, for a named or an anonymous sender and a named or
  a hidden receiver, in whatever order the shuffle puts the receivers, every receiver's keyring
  opens what \<open>Seal\<close> returns to the plaintext, and the key information names the sender, the
  receiver's key and who was anonymous.
\<close>

theorem Open_Seal:
  assumes codec: "codec_ok E" and box: "secretbox_ok E" and v: "v = Version1 \<or> v = Version2"
    and valid: "versionValidator v = None" and grow: "\<forall>c. c < grow c"
    and receivers: "checkEncryptReceivers receivers = None"
    and run: "shuffleEncryptReceivers receivers rand = Ret (Inr rs) r1"
      "create (receivers ! 0) r1 = (Inr eph, r2)" "newRandomSymmetricKey r2 = (Inr key, r3)"
    and keys: "keys_ok sender s eph sk ring (set receivers)"
    and short: "length plaintext < 2 ^ 64 - 1"
  shows "\<exists>msg mki. Seal E create v plaintext sender receivers rand = Ok msg \<and>
    Open E grow versionValidator msg ring = Some (Ret (Inr plaintext) (Some mki)) \<and>
    info_for sender s sk mki"
  using codec box v valid grow receivers run keys short by (rule sealed_opens)

lemma toy_shuffle:
  "shuffleEncryptReceivers [a, b] (bytes_input (replicate 36 1)) =
     Ret (Inr [b, a]) (bytes_input (replicate 32 1))"
proof -
  have "csprngUint32n (bytes_input (replicate 36 1)) 2 = (Inr 0, bytes_input (replicate 32 1))"
    by code_simp
  then show ?thesis
    by (simp add: shuffleEncryptReceivers_def shuffle_list_def csprngShuffle_def swap_elems_def
        numeral_2_eq_2 eval_nat_numeral)
qed

lemma toy_key: "newRandomSymmetricKey (bytes_input (replicate 32 1)) = (Inr (replicate 32 1), bytes_input [])"
  by (simp add: newRandomSymmetricKey_def bytes_input_def csprngReadFull_enough)

theorem Open_Seal_witness:
  "\<exists>msg mki. Seal toy_env (\<lambda>_ r. (Inr (toy_boxsk 9 False), r)) Version2 [1, 2, 3]
       (Some (toy_boxsk 5 False)) [toy_boxpk 1 False, toy_boxpk 2 True] (bytes_input (replicate 36 1)) =
     Ok msg \<and>
     Open toy_env Suc CheckKnownMajorVersion msg (toy_ring (toy_boxsk 2 True)) =
       Some (Ret (Inr [1, 2, 3]) (Some mki)) \<and>
     info_for (Some (toy_boxsk 5 False)) (toy_boxsk 5 False) (toy_boxsk 2 True) mki"
proof (rule Open_Seal [OF _ _ _ _ _ _ toy_shuffle _ toy_key])
  show "keys_ok (Some (toy_boxsk 5 False)) (toy_boxsk 5 False) (toy_boxsk 9 False) (toy_boxsk 2 True)
      (toy_ring (toy_boxsk 2 True)) (set [toy_boxpk 1 False, toy_boxpk 2 True])"
    using toy_keys_ok by (simp only: list.set)
qed (simp_all add: CheckKnownMajorVersion_None checkEncryptReceivers_None maxReceiverCount_def)

lemma encryptStream_loop_err: "encryptStream_loop E enc s = Ret None s' \<Longrightarrow> esErr s = None \<Longrightarrow> esErr s' = None"
proof (induction E enc s rule: encryptStream_loop.induct)
  case (1 E enc s)
  show ?case
  proof (cases "encryptionBlockSize < length (esBuffer s)")
    case True
    with "1.prems" obtain s1 where s1: "encryptBlock_err E enc False s = Ret None s1"
        "encryptStream_loop E enc s1 = Ret None s'"
      by (subst (asm) encryptStream_loop.simps) (auto split: go.splits option.splits)
    then have "esErr s1 = None" by (auto simp: encryptBlock_err_def split: go.splits)
    with "1.IH" [OF _ s1(1)] s1(2) True show ?thesis by simp
  qed (use "1.prems" in \<open>simp add: encryptStream_loop.simps [of E enc s]\<close>)
qed

text \<open>
  The bytes an \<open>encryptStream\<close> writes do not depend on how the plaintext is cut into calls of
  \<open>Write\<close>: on a stream without a recorded error, a sequence of writes that succeeds does what
  one write of the concatenation does.
\<close>

theorem encryptStream_chunking:
  assumes "writes (encryptStream_Write E enc) xs s = Ret None s'"
    and "length (esBuffer s) \<le> encryptionBlockSize" "esErr s = None"
  shows "encryptStream_Write E enc (concat xs) s = Ret (length (concat xs), None) s'"
proof (rule es.writes_concat [where ok = "\<lambda>s. esErr s = None", OF _ _ assms])
  show "encryptStream_Write E enc x s = (case encryptStream_loop E enc (es_append x s) of
      Panic \<Rightarrow> Panic
    | Ret (Some e) s' \<Rightarrow> Ret (0, Some e) s'
    | Ret None s' \<Rightarrow> Ret (length x, None) s')" if "esErr s = None" for x s
    using that by (simp add: encryptStream_Write_def)
  show "esErr s' = None" if "esErr s = None" "encryptStream_loop E enc (es_append x s) = Ret None s'" for x s s'
    using encryptStream_loop_err [OF that(2)] that(1) by simp
qed

theorem encryptStream_chunking_witness:
  "let s = \<lparr>esVersion = Version2, esEncoder = [], esPayloadKey = replicate 32 0, esBuffer = [9],
        esHeaderHash = replicate 64 0, esMacKeys = [], esNumBlocks = 0, esErr = None\<rparr>
   in encryptStream_Write toy_env (newEncoder toy_env) (concat [[1], [2, 3]]) s =
        Ret (length (concat [[1], [2, 3 :: byte]]), None) (s\<lparr>esBuffer := [9, 1, 2, 3]\<rparr>)"
  unfolding Let_def
  by (rule encryptStream_chunking)
    (simp_all add: encryptStream_Write_def encryptStream_loop.simps encryptionBlockSize_def)

end
