(* ===== verification/Decrypt_Props.thy ===== *)
theory Decrypt_Props
  imports Encrypt_Props
begin

text \<open>
  What an opened message guarantees, the counter that guards the nonces, their freshness, and a
  block that makes the reader panic.
\<close>

section \<open>Blocks\<close>

text \<open>
  A packet (ciphertext, authenticators, final flag) and the block it was read as: the
  authenticator at the receiver's position is the MAC of this header, position, ciphertext and
  flag, and the ciphertext opens under the payload key with the nonce of its position.
\<close>

definition authentic_block ::
  "env \<Rightarrow> version \<Rightarrow> bytes \<Rightarrow> bytes \<Rightarrow> nat \<Rightarrow> bytes \<Rightarrow> encryptionBlockNumber \<Rightarrow>
     (bytes \<times> bytes list \<times> bool) \<times> bytes \<times> bool \<Rightarrow> bool" where
  "authentic_block E v key macKey p hh i pb \<longleftrightarrow>
     (case pb of ((ct, auths, f), b) \<Rightarrow> snd b = f \<and> p < length auths \<and>
        (\<exists>h. computePayloadHash v hh (nonceForChunkSecretBox i) ct f = Ok h \<and>
             auths ! p = authenticator macKey h) \<and>
        secretboxOpen E ct (nonceForChunkSecretBox i) key = Some (fst b))"

definition dec_packet ::
  "env \<Rightarrow> version \<Rightarrow> msgpackStream \<Rightarrow> ((bytes \<times> bytes list \<times> bool) \<times> msgpackStream) option" where
  "dec_packet E v mps =
     (case readEncryptionBlock E v mps of
        Ret (Inr (ct, auths, f, q)) mps' \<Rightarrow> Some ((ct, auths, f), mps') | _ \<Rightarrow> None)"

definition ds_reads :: "version \<Rightarrow> bytes \<Rightarrow> bytes \<Rightarrow> nat \<Rightarrow> bytes \<Rightarrow> decryptStream \<Rightarrow> bool" where
  "ds_reads v key macKey p hh ds \<longleftrightarrow> dsVersion ds = v \<and> dsPayloadKey ds = Some key \<and>
     dsMacKey ds = macKey \<and> dsPosition ds = int p \<and> dsHeaderHash ds = hh"

lemma readEncryptionBlock_seqno:
  "readEncryptionBlock E v mps = Ret (Inr (ct, as, f, q)) mps' \<Longrightarrow>
     q = mpsSeqno mps \<and> mpsSeqno mps' = q + 1"
  by (auto simp: readEncryptionBlock_def dest: mpsRead_seqno split: if_splits prod.splits sum.splits)

lemma processBlock_authentic:
  assumes "ds_reads v key macKey p hh ds" "decryptStream_processBlock E ds ct as f q = Ok c"
  shows "authentic_block E v key macKey p hh (q - 1) ((ct, as, f), c, f)"
  using assms
  by (auto simp: decryptStream_processBlock_def ds_reads_def authentic_block_def authenticator_def Let_def
      split: option.splits if_splits)

interpretation dbs: block_source E "decryptStream_getNextChunk E" dsMps "dec_packet E v" v
  "ds_reads v key macKey p hh" "authentic_block E v key macKey p hh" for E v key macKey p hh
proof
  fix s c s'
  assume ok: "ds_reads v key macKey p hh s" and "decryptStream_getNextChunk E s = Ret (c, None) s'"
  then obtain ct as q mps where r: "readEncryptionBlock E v (dsMps s) = Ret (Inr (ct, as, False, q)) mps"
    and b: "decryptStream_processBlock E s ct as False q = Ok c"
      "checkDecodedChunkState v c q False = Ok ()" "s' = s\<lparr>dsMps := mps\<rparr>"
    by (auto simp: ds_reads_def elim: decrypt_next_cases [OF _ _ processBlock_not_EOF])
  with ok readEncryptionBlock_seqno [OF r] processBlock_authentic [OF ok b(1)]
  show "\<exists>pk. ds_reads v key macKey p hh s' \<and> mpsSeqno (dsMps s') = mpsSeqno (dsMps s) + 1 \<and>
      dec_packet E v (dsMps s) = Some (pk, dsMps s') \<and>
      chunk_rule v (length c) (mpsSeqno (dsMps s) - 1) False \<and>
      authentic_block E v key macKey p hh (mpsSeqno (dsMps s) - 1) (pk, c, False)"
    by (intro exI [of _ "(ct, as, False)"]) (auto simp: ds_reads_def checkDecodedChunkState_Ok dec_packet_def)
next
  fix s c s'
  assume ok: "ds_reads v key macKey p hh s" and "decryptStream_getNextChunk E s = Ret (c, Some EOF) s'"
  then obtain ct as q mps where r: "readEncryptionBlock E v (dsMps s) = Ret (Inr (ct, as, True, q)) mps"
    and b: "decryptStream_processBlock E s ct as True q = Ok c"
      "checkDecodedChunkState v c q True = Ok ()" "fst (assertEndOfStream E mps) = EOF"
    by (auto simp: ds_reads_def elim: decrypt_next_cases [OF _ _ processBlock_not_EOF])
  with readEncryptionBlock_seqno [OF r] processBlock_authentic [OF ok b(1)]
  show "\<exists>pk m. dec_packet E v (dsMps s) = Some (pk, m) \<and> fst (assertEndOfStream E m) = EOF \<and>
      chunk_rule v (length c) (mpsSeqno (dsMps s) - 1) True \<and>
      authentic_block E v key macKey p hh (mpsSeqno (dsMps s) - 1) (pk, c, True)"
    by (intro exI [of _ "(ct, as, True)"]) (auto simp: checkDecodedChunkState_Ok dec_packet_def)
qed

section \<open>The header\<close>

text \<open>
  What the header and the key information of an opened message have to do with each other: the
  sender box opens under the payload key to the identifier of the sender, which is the ephemeral
  key exactly for an anonymous sender and is looked up in the keyring otherwise.
\<close>

definition sender_of :: "Keyring \<Rightarrow> EncryptionHeader \<Rightarrow> BoxPublicKey \<Rightarrow> bytes \<Rightarrow> MessageKeyInfo \<Rightarrow> bool" where
  "sender_of ring h eph kid mki \<longleftrightarrow>
     (if Ephemeral h = kid then SenderIsAnon mki \<and> SenderKey mki = Some eph
      else \<not> SenderIsAnon mki \<and> SenderKey mki \<noteq> None \<and> LookupBoxPublicKey ring kid = SenderKey mki)"

lemma process_sender_sound:
  assumes "process_sender E ring h eph sk key p ds = Ret None ds'" and "\<not> SenderIsAnon (dsMki ds)"
  obtains kid spk macKey where "secretboxOpen E (SenderSecretbox h) sender_nonce key = Some kid"
    "sender_of ring h eph kid (dsMki ds')" "SenderKey (dsMki ds') = Some spk"
    "computeMACKeyReceiver (HVersion h) (of_nat p) sk spk eph (dsHeaderHash ds) = Ok macKey"
    "dsMacKey ds' = macKey" "dsHeaderHash ds' = dsHeaderHash ds" "dsVersion ds' = dsVersion ds"
    "dsPayloadKey ds' = dsPayloadKey ds" "dsPosition ds' = dsPosition ds" "dsMps ds' = dsMps ds"
    "ReceiverKey (dsMki ds') = ReceiverKey (dsMki ds)"
  using assms
  by (auto simp: process_sender_def nonceForSenderKeySecretBox_Ok sender_nonce_def sender_of_def Let_def
      split: option.splits outcome.splits if_splits intro!: that)

lemma processHeader_sound:
  assumes "processHeader E versionValidator ring h ds = Ret None ds'" and "\<not> SenderIsAnon (dsMki ds)"
  obtains eph sk key p d where "EncryptionHeader_validate versionValidator h = None"
    "ImportBoxEphemeralKey ring (Ephemeral h) = Some eph"
    "process_sender E ring h eph sk key p d = Ret None ds'" "\<not> SenderIsAnon (dsMki d)"
    "dsVersion d = HVersion h" "dsPayloadKey d = Some key" "dsPosition d = int p"
    "dsHeaderHash d = dsHeaderHash ds" "dsMps d = dsMps ds" "ReceiverKey (dsMki d) = Some sk"
proof -
  from assms(1) obtain eph where valid: "EncryptionHeader_validate versionValidator h = None"
    and eph: "ImportBoxEphemeralKey ring (Ephemeral h) = Some eph"
    by (auto simp: processHeader_def Let_def split: option.splits)
  note simps = processHeader_def valid eph Let_def
  let ?d1 = "ds\<lparr>dsVersion := HVersion h, dsMki := (dsMki ds)\<lparr>NamedReceivers := named_kids h\<rparr>,
      dsPayloadKey := None, dsPosition := -1\<rparr>"
  let ?d2 = "?d1\<lparr>dsMki := (dsMki ?d1)
      \<lparr>NumAnonReceivers := NumAnonReceivers (dsMki ?d1) + count_hidden h, ReceiverIsAnon := True\<rparr>\<rparr>"
  let ?go = "\<lambda>sk key p d. d\<lparr>dsPayloadKey := Some key, dsPosition := int p,
      dsMki := (dsMki d)\<lparr>ReceiverKey := Some sk\<rparr>\<rparr>"
  from assms(1) consider
      (visible) sk key p where "process_sender E ring h eph sk key p (?go sk key p ?d1) = Ret None ds'"
    | (hidden) sk key p where "process_sender E ring h eph sk key p (?go sk key p ?d2) = Ret None ds'"
    by (auto simp: simps split: outcome.splits option.splits prod.splits)
  then show thesis
  proof cases
    case visible
    from that [OF valid eph this] assms(2) show thesis by simp
  next
    case hidden
    from that [OF valid eph this] assms(2) show thesis by simp
  qed
qed

lemma readHeader_sound:
  assumes "readHeader E versionValidator ring (newDecryptStream r) = Ret None ds"
  obtains headerBytes h eph sk spk key kid p macKey where
    "mpsRead (decBytes E) (newMsgpackStream r) = (Inr (headerBytes, 0), dsMps ds)"
    "unmarshalEncryptionHeader E headerBytes = Inr h"
    "EncryptionHeader_validate versionValidator h = None"
    "ImportBoxEphemeralKey ring (Ephemeral h) = Some eph"
    "secretboxOpen E (SenderSecretbox h) sender_nonce key = Some kid" "sender_of ring h eph kid (dsMki ds)"
    "SenderKey (dsMki ds) = Some spk" "ReceiverKey (dsMki ds) = Some sk"
    "computeMACKeyReceiver (HVersion h) (of_nat p) sk spk eph (sha512 headerBytes) = Ok macKey"
    "ds_reads (HVersion h) key macKey p (sha512 headerBytes) ds" "mpsSeqno (dsMps ds) = 1"
proof -
  from assms obtain headerBytes q mps h where
    rd: "mpsRead (decBytes E) (newMsgpackStream r) = (Inr (headerBytes, q), mps)"
    and h: "unmarshalEncryptionHeader E headerBytes = Inr h"
    and ph: "processHeader E versionValidator ring h
      ((newDecryptStream r)\<lparr>dsMps := mps, dsHeaderHash := sha512 headerBytes\<rparr>) = Ret None ds"
    by (auto simp: readHeader_def newDecryptStream_def Let_def split: prod.splits sum.splits)
  let ?s0 = "(newDecryptStream r)\<lparr>dsMps := mps, dsHeaderHash := sha512 headerBytes\<rparr>"
  have q: "q = 0" "mpsSeqno mps = 1"
    using mpsRead_seqno [OF rd] by (simp_all add: newMsgpackStream_def)
  have "\<not> SenderIsAnon (dsMki ?s0)" by (simp add: newDecryptStream_def)
  from processHeader_sound [OF ph this] obtain eph sk key p d where d:
    "EncryptionHeader_validate versionValidator h = None"
    "ImportBoxEphemeralKey ring (Ephemeral h) = Some eph"
    "process_sender E ring h eph sk key p d = Ret None ds" "\<not> SenderIsAnon (dsMki d)"
    "dsVersion d = HVersion h" "dsPayloadKey d = Some key" "dsPosition d = int p"
    "dsHeaderHash d = dsHeaderHash ?s0" "dsMps d = dsMps ?s0" "ReceiverKey (dsMki d) = Some sk" .
  from process_sender_sound [OF d(3,4)] obtain kid spk macKey where s:
    "secretboxOpen E (SenderSecretbox h) sender_nonce key = Some kid"
    "sender_of ring h eph kid (dsMki ds)" "SenderKey (dsMki ds) = Some spk"
    "computeMACKeyReceiver (HVersion h) (of_nat p) sk spk eph (dsHeaderHash d) = Ok macKey"
    "dsMacKey ds = macKey" "dsHeaderHash ds = dsHeaderHash d" "dsVersion ds = dsVersion d"
    "dsPayloadKey ds = dsPayloadKey d" "dsPosition ds = dsPosition d" "dsMps ds = dsMps d"
    "ReceiverKey (dsMki ds) = ReceiverKey (dsMki d)" .
  show thesis
    by (rule that [OF _ h d(1,2) s(1-3)]) (use rd q s d in \<open>simp_all add: ds_reads_def\<close>)
qed

lemma Open_Ok:
  assumes "Open E grow versionValidator msg ring = Some (Ret (Inr plaintext) mki)"
  obtains ds r where "readHeader E versionValidator ring (newDecryptStream (bytes_input msg)) = Ret None ds"
    "mki = Some (dsMki ds)"
    "ReadAll grow (chunkReader_Read (decryptStream_getNextChunk E)) (newChunkReader ds) =
       Some (Ret (plaintext, None) r)"
proof -
  from assms obtain ds where
    ds: "readHeader E versionValidator ring (newDecryptStream (bytes_input msg)) = Ret None ds"
    by (auto simp: Open_def NewDecryptStream_def split: go.splits option.splits)
  let ?all = "ReadAll grow (chunkReader_Read (decryptStream_getNextChunk E)) (newChunkReader ds)"
  from assms ds obtain res where "?all = Some res" by (auto simp: Open_def NewDecryptStream_def)
  with assms ds show thesis
    by (cases res) (auto simp: Open_def NewDecryptStream_def intro: that split: option.splits)
qed

section \<open>What an opened message guarantees\<close>

text \<open>
  C3: what \<open>Open\<close> returns was authenticated as a whole, from the sender it names to the receiver's
  key it names. The message is a header packet the validator accepts, whose sender box opens under
  the payload key to the sender's identifier, then block packets and nothing else; for a MAC key
  that only the two keys (and the ephemeral one) and the header determine, each packet carries at
  the receiver's position the MAC of header, position, ciphertext and flag, and opens under the
  payload key; the blocks form a complete sequence that ends with the only final one, and their
  chunks make up the plaintext.
\<close>

theorem Open_sound:
  assumes "Open E grow versionValidator msg ring = Some (Ret (Inr plaintext) (Some mki))"
  shows "\<exists>headerBytes mps h eph sk spk key kid p macKey ps bs.
    mpsRead (decBytes E) (newMsgpackStream (bytes_input msg)) = (Inr (headerBytes, 0), mps) \<and>
    unmarshalEncryptionHeader E headerBytes = Inr h \<and>
    EncryptionHeader_validate versionValidator h = None \<and>
    ImportBoxEphemeralKey ring (Ephemeral h) = Some eph \<and>
    secretboxOpen E (SenderSecretbox h) sender_nonce key = Some kid \<and> sender_of ring h eph kid mki \<and>
    SenderKey mki = Some spk \<and> ReceiverKey mki = Some sk \<and>
    computeMACKeyReceiver (HVersion h) (of_nat p) sk spk eph (sha512 headerBytes) = Ok macKey \<and>
    parsed E (dec_packet E (HVersion h)) mps ps \<and> length ps = length bs \<and>
    all_from (authentic_block E (HVersion h) key macKey p (sha512 headerBytes)) 0 (zip ps bs) \<and>
    wf_blocks (HVersion h) 0 bs \<and> plaintext = concat (map fst bs)"
proof -
  obtain ds r where ds: "readHeader E versionValidator ring (newDecryptStream (bytes_input msg)) = Ret None ds"
    "Some mki = Some (dsMki ds)"
    and read: "ReadAll grow (chunkReader_Read (decryptStream_getNextChunk E)) (newChunkReader ds) =
      Some (Ret (plaintext, None) r)"
    by (rule Open_Ok [OF assms])
  obtain headerBytes h eph sk spk key kid p macKey where hd:
    "mpsRead (decBytes E) (newMsgpackStream (bytes_input msg)) = (Inr (headerBytes, 0), dsMps ds)"
    "unmarshalEncryptionHeader E headerBytes = Inr h"
    "EncryptionHeader_validate versionValidator h = None"
    "ImportBoxEphemeralKey ring (Ephemeral h) = Some eph"
    "secretboxOpen E (SenderSecretbox h) sender_nonce key = Some kid" "sender_of ring h eph kid mki"
    "SenderKey mki = Some spk" "ReceiverKey mki = Some sk"
    "computeMACKeyReceiver (HVersion h) (of_nat p) sk spk eph (sha512 headerBytes) = Ok macKey"
    and reads: "ds_reads (HVersion h) key macKey p (sha512 headerBytes) ds" "mpsSeqno (dsMps ds) = 1"
    by (rule readHeader_sound [where versionValidator = versionValidator, OF ds(1)]) (use ds(2) in simp_all)
  obtain ps bs where "plaintext = concat (map fst bs)" "length ps = length bs"
    "parsed E (dec_packet E (HVersion h)) (dsMps ds) ps" "wf_blocks (HVersion h) 0 bs"
    "all_from (authentic_block E (HVersion h) key macKey p (sha512 headerBytes)) 0 (zip ps bs)"
    by (rule dbs.ReadAll_checked [OF read reads])
  with hd show ?thesis by blast
qed

lemma toy_opened:
  "\<exists>msg mki. Open toy_env Suc CheckKnownMajorVersion msg (toy_ring (toy_boxsk 2 True)) =
     Some (Ret (Inr [1, 2, 3]) (Some mki))"
proof -
  have rs: "{toy_boxpk 1 False, toy_boxpk 2 True} = set [toy_boxpk 2 True, toy_boxpk 1 False]" by auto
  note keys = toy_keys_ok [unfolded rs]
  have d: "distinct (map boxToKID [toy_boxpk 2 True, toy_boxpk 1 False])" by simp
  have v: "CheckKnownMajorVersion Version2 = None" by (simp add: CheckKnownMajorVersion_None)
  show ?thesis
    using Open_sealed_message [where versionValidator = CheckKnownMajorVersion and v = Version2 and
        E = toy_env and grow = Suc and key = "replicate 32 1" and plaintext = "[1, 2, 3]",
        OF _ _ _ v _ keys d] by auto
qed

theorem Open_sound_witness:
  "\<exists>msg mki headerBytes mps h eph sk spk key kid p macKey ps bs.
    mpsRead (decBytes toy_env) (newMsgpackStream (bytes_input msg)) = (Inr (headerBytes, 0), mps) \<and>
    unmarshalEncryptionHeader toy_env headerBytes = Inr h \<and>
    EncryptionHeader_validate CheckKnownMajorVersion h = None \<and>
    ImportBoxEphemeralKey (toy_ring (toy_boxsk 2 True)) (Ephemeral h) = Some eph \<and>
    secretboxOpen toy_env (SenderSecretbox h) sender_nonce key = Some kid \<and>
    sender_of (toy_ring (toy_boxsk 2 True)) h eph kid mki \<and>
    SenderKey mki = Some spk \<and> ReceiverKey mki = Some sk \<and>
    computeMACKeyReceiver (HVersion h) (of_nat p) sk spk eph (sha512 headerBytes) = Ok macKey \<and>
    parsed toy_env (dec_packet toy_env (HVersion h)) mps ps \<and> length ps = length bs \<and>
    all_from (authentic_block toy_env (HVersion h) key macKey p (sha512 headerBytes)) 0 (zip ps bs) \<and>
    wf_blocks (HVersion h) 0 bs \<and> [1, 2, 3] = concat (map fst bs)"
proof -
  obtain msg mki where "Open toy_env Suc CheckKnownMajorVersion msg (toy_ring (toy_boxsk 2 True)) =
      Some (Ret (Inr [1, 2, 3]) (Some mki))" using toy_opened by blast
  from Open_sound [where versionValidator = CheckKnownMajorVersion, OF this]
  show ?thesis by (rule exI [of _ mki, THEN exI [of _ msg]])
qed

section \<open>Too few authenticators\<close>

text \<open>
  C23: the number of authenticators of a block is not checked. When a message's header gives the
  receiver a position and the first block has no authenticator there, \<open>Open\<close> panics with an
  index out of range; anyone who can make a header the receiver can open can send such a block.
\<close>

theorem Open_short_authenticators_panics:
  assumes "readHeader E versionValidator ring (newDecryptStream (bytes_input msg)) = Ret None ds"
    and "readEncryptionBlock E (dsVersion ds) (dsMps ds) = Ret (Inr (ct, auths, f, q)) mps"
    and "q = 1" "int (length auths) \<le> dsPosition ds" and "known_major (dsVersion ds)"
  shows "Open E grow versionValidator msg ring = Some Panic"
proof -
  obtain h where "computePayloadHash (dsVersion ds) (dsHeaderHash ds) (nonceForChunkSecretBox 0) ct f = Ok h"
    using computePayloadHash_Ok [OF assms(5)] by blast
  then have "decryptStream_processBlock E ds ct auths f q = Panicked"
    using assms(3,4) by (simp add: decryptStream_processBlock_def Let_def encryptionBlockNumber_check_def)
  then have "decryptStream_getNextChunk E ds = Panic"
    using assms(2) by (simp add: decryptStream_getNextChunk_def)
  then have "chunkReader_Read (decryptStream_getNextChunk E) n (newChunkReader ds) = Panic" for n
    by (simp add: chunkReader_Read_def newChunkReader_def chunkReader_loop.simps)
  then have "ReadAll grow (chunkReader_Read (decryptStream_getNextChunk E)) (newChunkReader ds) = Some Panic"
    by (simp add: ReadAll_def ReadAll_loop.simps)
  then show ?thesis using assms(1) by (simp add: Open_def NewDecryptStream_def)
qed

theorem Open_short_authenticators_panics_witness:
  "\<exists>msg. Open toy_env Suc CheckKnownMajorVersion msg (toy_ring (toy_boxsk 2 True)) = Some Panic"
proof -
  have rs: "{toy_boxpk 1 False, toy_boxpk 2 True} = set [toy_boxpk 2 True, toy_boxpk 1 False]" by auto
  let ?rs = "[toy_boxpk 2 True, toy_boxpk 1 False]" and ?key = "replicate 32 1"
  let ?hb = "enc1 toy_env (PEncryptionHeader (enc_header toy_env Version2 (toy_boxsk 5 False) (toy_boxsk 9 False) ?key ?rs))"
  let ?bad = "\<lparr>HashAuthenticators = [], PayloadCiphertext = [], EIsFinal = True\<rparr>"
  let ?msg = "enc1 toy_env (PBytes ?hb) @ enc1 toy_env (PEncryptionV2 ?bad)"
  obtain ds p where
    hdr: "readHeader toy_env CheckKnownMajorVersion (toy_ring (toy_boxsk 2 True)) (newDecryptStream (bytes_input ?msg)) =
      Ret None ds"
    and ds: "ds_ready Version2 ?key (sha512 ?hb)
        (enc_mac_keys Version2 (toy_boxsk 5 False) (toy_boxsk 9 False) ?rs (sha512 ?hb)) p ds"
      "dsMps ds = \<lparr>decoder = \<lparr>pending = enc1 toy_env (PEncryptionV2 ?bad), ends = EOF\<rparr>, mpsSeqno = 1\<rparr>"
    by (rule readHeader_sealed [where versionValidator = CheckKnownMajorVersion and v = Version2 and key = ?key
          and rest = "enc1 toy_env (PEncryptionV2 ?bad)", OF toy_codec_ok toy_secretbox_ok _ _ toy_keys_ok [unfolded rs]])
      (simp_all add: CheckKnownMajorVersion_None)
  have "readEncryptionBlock toy_env (dsVersion ds) (dsMps ds) =
      Ret (Inr ([], [], True, 1)) \<lparr>decoder = \<lparr>pending = [], ends = EOF\<rparr>, mpsSeqno = 2\<rparr>"
    using ds mpsRead_encoded [OF codec_okD(6) [OF toy_codec_ok] marshal_enc1 [OF toy_codec_ok], of ?bad "[]" EOF 1]
    by (simp add: readEncryptionBlock_def ds_ready_def)
  from Open_short_authenticators_panics [OF hdr this] ds(1) show ?thesis
    by (intro exI [of _ ?msg]) (simp add: ds_ready_def)
qed

section \<open>The counter\<close>

text \<open>
  C9: the block number never wraps. At the last value of the 64-bit counter, \<open>encryptBlock\<close> returns
  \<open>ErrPacketOverflow\<close> and writes nothing, and the error is sticky for \<open>Write\<close>; so no nonce is
  used twice under one payload key.
\<close>

theorem encryptBlock_overflow:
  assumes "esNumBlocks s = - 1" "encryptionBlockSize < length (esBuffer s)"
    and "esVersion s = Version1 \<or> esVersion s = Version2"
  shows "\<exists>s'. encryptBlock_err E enc False s = Ret (Some ErrPacketOverflow) s' \<and>
    esEncoder s' = esEncoder s \<and> esNumBlocks s' = esNumBlocks s \<and>
    (\<forall>p. encryptStream_Write E enc p s' = Ret (0, Some ErrPacketOverflow) s')"
proof -
  have "encryptionBlockNumber_check (esNumBlocks s) = Some ErrPacketOverflow"
    by (simp add: assms(1) encryptionBlockNumber_check_def)
  moreover have "checkEncryptBlockRead (esVersion s) False encryptionBlockSize
      (length (take encryptionBlockSize (esBuffer s))) (length (drop encryptionBlockSize (esBuffer s))) = Ok ()"
    using assms(2,3) block_sizes_pos(1) by (auto simp: checkEncryptBlockRead_def simp del: block_sizes_pos)
  ultimately show ?thesis
    by (simp add: encryptBlock_err_def encryptBlock_def Let_def encryptStream_Write_def)
qed

theorem encryptBlock_overflow_witness:
  "let s = \<lparr>esVersion = Version2, esEncoder = [], esPayloadKey = replicate 32 0,
        esBuffer = replicate (Suc encryptionBlockSize) 7, esHeaderHash = replicate 64 0, esMacKeys = [],
        esNumBlocks = - 1, esErr = None\<rparr>
   in \<exists>s'. encryptBlock_err toy_env (newEncoder toy_env) False s = Ret (Some ErrPacketOverflow) s' \<and>
    esEncoder s' = esEncoder s \<and> esNumBlocks s' = esNumBlocks s \<and>
    (\<forall>p. encryptStream_Write toy_env (newEncoder toy_env) p s' = Ret (0, Some ErrPacketOverflow) s')"
  unfolding Let_def by (rule encryptBlock_overflow) simp_all

end
