(* ===== verification/Signcrypt_Seal.thy ===== *)
theory Signcrypt_Seal
  imports Encrypt
begin

text \<open>
  \<open>signcrypt_seal.go\<close>: the stream that signs and then encrypts each block, the keys derived for
  the two kinds of receivers, the header and the whole-message function. The version is
  always \<open>Version2\<close>.
\<close>

section \<open>The blocks\<close>

text \<open>\<open>ed25519.SignatureSize\<close> and \<open>ed25519.PublicKeySize\<close>.\<close>

definition SignatureSize :: nat where "SignatureSize = 64"
definition PublicKeySize :: nat where "PublicKeySize = 32"

record 'w signcryptSealStream =
  ssVersion :: version
  ssEncoder :: 'w
  ssEncryptionKey :: bytes
  ssSigningKey :: "SigningSecretKey option"
  ssBuffer :: bytes
  ssHeaderHash :: bytes
  ssNumBlocks :: encryptionBlockNumber
  ssErr :: "err option"

text \<open>The signature of a chunk; an anonymous sender puts zeros in its place.\<close>

definition signcrypt_signature ::
  "SigningSecretKey option \<Rightarrow> bytes \<Rightarrow> bytes \<Rightarrow> bool \<Rightarrow> bytes \<Rightarrow> bytes result" where
  "signcrypt_signature signingKey headerHash nonce isFinal plaintext =
     (case signingKey of
        None \<Rightarrow> Ok (replicate SignatureSize 0)
      | Some k \<Rightarrow>
          (case sigSign k (computeSigncryptionSignatureInput headerHash nonce isFinal plaintext) of
             Inl e \<Rightarrow> Err e
           | Inr detachedSig \<Rightarrow> Ok detachedSig))"

text \<open>From the chunk to the packet.\<close>

definition signcrypt_packet ::
  "env \<Rightarrow> 'w signcryptSealStream \<Rightarrow> bytes \<Rightarrow> bool \<Rightarrow> packet result" where
  "signcrypt_packet E s plaintext isFinal =
     bind_out (nonceForChunkSigncryption (ssHeaderHash s) isFinal (ssNumBlocks s)) (\<lambda>nonce.
     bind_out (signcrypt_signature (ssSigningKey s) (ssHeaderHash s) nonce isFinal plaintext)
       (\<lambda>detachedSig.
     let attachedSig = detachedSig @ plaintext;
         ciphertext = secretboxSeal E attachedSig nonce (ssEncryptionKey s)
     in bind_out (assertEncodedChunkState (ssVersion s) ciphertext secretboxOverhead
                    (ssNumBlocks s) isFinal) (\<lambda>_.
        Ok (PSigncryption \<lparr>SCPayloadCiphertext = ciphertext, SCIsFinal = isFinal\<rparr>))))"

definition signcryptBlock ::
  "env \<Rightarrow> 'w encoder \<Rightarrow> bool \<Rightarrow> 'w signcryptSealStream \<Rightarrow> (err option, 'w signcryptSealStream) go" where
  "signcryptBlock E enc isFinal s0 =
     (let plaintext = take encryptionBlockSize (ssBuffer s0);
          s = s0\<lparr>ssBuffer := drop encryptionBlockSize (ssBuffer s0)\<rparr>
      in if isFinal \<and> length (ssBuffer s) \<noteq> 0 then Panic
         else case encryptionBlockNumber_check (ssNumBlocks s) of
                Some e \<Rightarrow> Ret (Some e) s
              | None \<Rightarrow>
                  (case signcrypt_packet E s plaintext isFinal of
                     Panicked \<Rightarrow> Panic
                   | Err e \<Rightarrow> Ret (Some e) s
                   | Ok block \<Rightarrow>
                       (case enc block (ssEncoder s) of
                          (Some e, w) \<Rightarrow> Ret (Some e) (s\<lparr>ssEncoder := w\<rparr>)
                        | (None, w) \<Rightarrow>
                            Ret None (s\<lparr>ssEncoder := w, ssNumBlocks := ssNumBlocks s + 1\<rparr>))))"

text \<open>\<open>sss.err = sss.signcryptBlock(false)\<close>, as the loop of \<open>Write\<close> does.\<close>

definition signcryptBlock_err ::
  "env \<Rightarrow> 'w encoder \<Rightarrow> bool \<Rightarrow> 'w signcryptSealStream \<Rightarrow> (err option, 'w signcryptSealStream) go" where
  "signcryptBlock_err E enc isFinal s =
     (case signcryptBlock E enc isFinal s of
        Panic \<Rightarrow> Panic
      | Ret e s' \<Rightarrow> Ret e (s'\<lparr>ssErr := e\<rparr>))"

lemma signcryptBlock_buffer:
  "signcryptBlock E enc f s = Ret r s' \<Longrightarrow> ssBuffer s' = drop encryptionBlockSize (ssBuffer s)"
  by (auto simp: signcryptBlock_def Let_def split: if_splits outcome.splits prod.splits option.splits)

lemma signcryptBlock_err_buffer:
  "signcryptBlock_err E enc f s = Ret r s' \<Longrightarrow> ssBuffer s' = drop encryptionBlockSize (ssBuffer s)"
  by (auto simp: signcryptBlock_err_def dest: signcryptBlock_buffer split: go.splits)

function signcryptSealStream_loop ::
  "env \<Rightarrow> 'w encoder \<Rightarrow> 'w signcryptSealStream \<Rightarrow> (err option, 'w signcryptSealStream) go" where
  "signcryptSealStream_loop E enc s =
     (if length (ssBuffer s) > encryptionBlockSize
      then (case signcryptBlock_err E enc False s of
              Panic \<Rightarrow> Panic
            | Ret (Some e) s' \<Rightarrow> Ret (Some e) s'
            | Ret None s' \<Rightarrow> signcryptSealStream_loop E enc s')
      else Ret None s)"
  by pat_completeness auto
termination
  by (relation "measure (\<lambda>(E, enc, s). length (ssBuffer s))")
    (auto dest!: signcryptBlock_err_buffer intro!: diff_less)

declare signcryptSealStream_loop.simps [simp del]

definition signcryptSealStream_Write ::
  "env \<Rightarrow> 'w encoder \<Rightarrow> bytes \<Rightarrow> 'w signcryptSealStream \<Rightarrow>
     (nat \<times> err option, 'w signcryptSealStream) go" where
  "signcryptSealStream_Write E enc plaintext s =
     (case ssErr s of
        Some e \<Rightarrow> Ret (0, Some e) s
      | None \<Rightarrow>
          (case signcryptSealStream_loop E enc (s\<lparr>ssBuffer := ssBuffer s @ plaintext\<rparr>) of
             Panic \<Rightarrow> Panic
           | Ret (Some e) s' \<Rightarrow> Ret (0, Some e) s'
           | Ret None s' \<Rightarrow> Ret (length plaintext, None) s'))"

definition signcryptSealStream_Close ::
  "env \<Rightarrow> 'w encoder \<Rightarrow> 'w signcryptSealStream \<Rightarrow> (err option, 'w signcryptSealStream) go" where
  "signcryptSealStream_Close E enc s =
     (case signcryptBlock E enc True s of
        Panic \<Rightarrow> Panic
      | Ret (Some e) s' \<Rightarrow> Ret (Some e) s'
      | Ret None s' \<Rightarrow> if length (ssBuffer s') > 0 then Panic else Ret None s')"

section \<open>Derived keys\<close>

text \<open>
  The key derived from a pair of box keys: the last 32 bytes of a box of zeros. The slice panics
  when the box is shorter, and an error of the conversion becomes a panic.
\<close>

definition derivedEphemeralKeyFromBoxKeys :: "BoxPublicKey \<Rightarrow> BoxSecretKey \<Rightarrow> bytes result" where
  "derivedEphemeralKeyFromBoxKeys public private =
     bind_out nonceForDerivedSharedKey (\<lambda>nonce.
       let sharedSecretBox = boxBox private public nonce (replicate 32 0)
       in if length sharedSecretBox < 32 then Panicked
          else case symmetricKeyFromSlice (drop (length sharedSecretBox - 32) sharedSecretBox) of
                 Ok derivedKey \<Rightarrow> Ok derivedKey
               | _ \<Rightarrow> Panicked)"

definition keyIdentifierFromDerivedKey :: "bytes \<Rightarrow> 64 word \<Rightarrow> bytes" where
  "keyIdentifierFromDerivedKey derivedKey recipientIndex =
     take 32 (hmac_sha512 signcryptionBoxKeyIdentifierContext
                (derivedKey @ nonceForPayloadKeyBoxV2 recipientIndex))"

text \<open>
  The key derived from a receiver's symmetric key and the ephemeral public key, as both
  \<open>makeReceiverKeys\<close> and \<open>trySharedSymmetricKeys\<close> compute it.
\<close>

definition derived_symmetric_key :: "BoxPublicKey \<Rightarrow> bytes \<Rightarrow> bytes result" where
  "derived_symmetric_key ephemeralPub key =
     (case rawBoxKeyFromSlice
             (take 32 (hmac_sha512 signcryptionSymmetricKeyContext (boxToKID ephemeralPub @ key))) of
        Ok derivedKey \<Rightarrow> Ok derivedKey
      | _ \<Rightarrow> Panicked)"

section \<open>Receivers\<close>

record ReceiverSymmetricKey =
  RKey :: bytes
  RIdentifier :: bytes

text \<open>The two implementations of \<open>receiverKeysMaker\<close>.\<close>

datatype receiverKeysMaker =
    receiverBoxKey BoxPublicKey
  | receiverSymmetric ReceiverSymmetricKey

primrec makeReceiverKeys ::
  "env \<Rightarrow> BoxSecretKey \<Rightarrow> bytes \<Rightarrow> 64 word \<Rightarrow> receiverKeysMaker \<Rightarrow> receiverKeys result" where
  "makeReceiverKeys E ephemeralPriv payloadKey index (receiverBoxKey pk) =
     bind_out (derivedEphemeralKeyFromBoxKeys pk ephemeralPriv) (\<lambda>derivedKey.
       Ok \<lparr>ReceiverKID = keyIdentifierFromDerivedKey derivedKey index,
           PayloadKeyBox = secretboxSeal E payloadKey (nonceForPayloadKeyBoxV2 index) derivedKey\<rparr>)"
| "makeReceiverKeys E ephemeralPriv payloadKey index (receiverSymmetric r) =
     bind_out (derived_symmetric_key (boxGetPublicKey ephemeralPriv) (RKey r)) (\<lambda>derivedKey.
       Ok \<lparr>ReceiverKID = RIdentifier r,
           PayloadKeyBox = secretboxSeal E payloadKey (nonceForPayloadKeyBoxV2 index) derivedKey\<rparr>)"

text \<open>The counts are lengths, so the panics on negative ones are unreachable from the callers.\<close>

definition checkSigncryptReceiverCount :: "int \<Rightarrow> int \<Rightarrow> (err, unit) outcome" where
  "checkSigncryptReceiverCount c1 c2 =
     (if c1 < 0 then Panicked
      else if c2 < 0 then Panicked
      else if c1 > int maxReceiverCount then Err ErrBadReceivers
      else if c2 > int maxReceiverCount then Err ErrBadReceivers
      else if c1 + c2 \<le> 0 \<or> c1 + c2 > int maxReceiverCount then Err ErrBadReceivers
      else Ok ())"

text \<open>The second loop of \<open>checkSigncryptReceivers\<close>; the first is the one of \<open>checkEncryptReceivers\<close>.\<close>

primrec check_repeated_symmetric :: "bytes set \<Rightarrow> ReceiverSymmetricKey list \<Rightarrow> err option" where
  "check_repeated_symmetric receiverSet [] = None"
| "check_repeated_symmetric receiverSet (r # rs) =
     (if RIdentifier r \<in> receiverSet then Some (ErrRepeatedKey (RIdentifier r))
      else check_repeated_symmetric (insert (RIdentifier r) receiverSet) rs)"

definition checkSigncryptReceivers ::
  "BoxPublicKey list \<Rightarrow> ReceiverSymmetricKey list \<Rightarrow> (err, unit) outcome" where
  "checkSigncryptReceivers receiverBoxKeys receiverSymmetricKeys =
     bind_out (checkSigncryptReceiverCount (int (length receiverBoxKeys))
                 (int (length receiverSymmetricKeys))) (\<lambda>_.
       case check_repeated {} receiverBoxKeys of
         Some e \<Rightarrow> Err e
       | None \<Rightarrow>
           (case check_repeated_symmetric (set (map boxToKID receiverBoxKeys)) receiverSymmetricKeys of
              Some e \<Rightarrow> Err e
            | None \<Rightarrow> Ok ()))"

definition shuffleSigncryptReceivers ::
  "BoxPublicKey list \<Rightarrow> ReceiverSymmetricKey list \<Rightarrow> input \<Rightarrow> (err + receiverKeysMaker list, input) go" where
  "shuffleSigncryptReceivers receiverBoxKeys receiverSymmetricKeys rand =
     (case shuffle_list rand
             (map receiverBoxKey receiverBoxKeys @ map receiverSymmetric receiverSymmetricKeys) of
        Panic \<Rightarrow> Panic
      | Ret (Some e) (rand', _) \<Rightarrow> Ret (Inl e) rand'
      | Ret None (rand', shuffled) \<Rightarrow> Ret (Inr shuffled) rand')"

record 'r signcryptRNG =
  scCreateSymmetricKey :: "'r \<Rightarrow> (err + bytes) \<times> 'r"
  scShuffleReceivers ::
    "BoxPublicKey list \<Rightarrow> ReceiverSymmetricKey list \<Rightarrow> 'r \<Rightarrow> (err + receiverKeysMaker list, 'r) go"

definition defaultSigncryptRNG :: "input signcryptRNG" where
  "defaultSigncryptRNG =
     \<lparr>scCreateSymmetricKey = newRandomSymmetricKey, scShuffleReceivers = shuffleSigncryptReceivers\<rparr>"

section \<open>The header\<close>

text \<open>
  The secret box with the sender's public key, or with zeros for an anonymous sender. A key
  identifier of another length panics, and so does a nil public key.
\<close>

definition sender_secretbox :: "env \<Rightarrow> SigningSecretKey option \<Rightarrow> bytes \<Rightarrow> bytes result" where
  "sender_secretbox E signingKey encryptionKey =
     bind_out nonceForSenderKeySecretBox (\<lambda>nonce.
       case signingKey of
         None \<Rightarrow> Ok (secretboxSeal E (replicate PublicKeySize 0) nonce encryptionKey)
       | Some k \<Rightarrow>
           (case sigGetPublicKey k of
              None \<Rightarrow> Panicked
            | Some pk \<Rightarrow>
                if length (sigToKID pk) \<noteq> PublicKeySize then Panicked
                else Ok (secretboxSeal E (sigToKID pk) nonce encryptionKey)))"

text \<open>The loop over the shuffled receivers, from index \<open>i\<close> on.\<close>

primrec make_receivers ::
  "env \<Rightarrow> BoxSecretKey \<Rightarrow> bytes \<Rightarrow> nat \<Rightarrow> receiverKeysMaker list \<Rightarrow> receiverKeys list result" where
  "make_receivers E ephemeralKey encryptionKey i [] = Ok []"
| "make_receivers E ephemeralKey encryptionKey i (r # rs) =
     bind_out (makeReceiverKeys E ephemeralKey encryptionKey (of_nat i) r) (\<lambda>k.
     bind_out (make_receivers E ephemeralKey encryptionKey (Suc i) rs) (\<lambda>ks. Ok (k # ks)))"

definition signcryption_header ::
  "env \<Rightarrow> version \<Rightarrow> SigningSecretKey option \<Rightarrow> BoxSecretKey \<Rightarrow> bytes \<Rightarrow> receiverKeysMaker list \<Rightarrow>
     SigncryptionHeader result" where
  "signcryption_header E v signingKey ephemeralKey encryptionKey receivers =
     bind_out (sender_secretbox E signingKey encryptionKey) (\<lambda>box.
     bind_out (make_receivers E ephemeralKey encryptionKey 0 receivers) (\<lambda>rs.
       Ok \<lparr>HFormatName = FormatName, HVersion = v, HType = MessageTypeSigncryption,
           Ephemeral = boxToKID (boxGetPublicKey ephemeralKey),
           SenderSecretbox = box, Receivers = rs\<rparr>))"

text \<open>The last part of \<open>init\<close>: the header, encoded twice, and its hash.\<close>

definition signcrypt_start ::
  "env \<Rightarrow> 'w encoder \<Rightarrow> 'w \<Rightarrow> SigningSecretKey option \<Rightarrow> BoxSecretKey \<Rightarrow> bytes \<Rightarrow> receiverKeysMaker list \<Rightarrow>
     (err \<times> 'w, 'w signcryptSealStream) outcome" where
  "signcrypt_start E enc w signingKey ephemeralKey encryptionKey receivers =
     (case signcryption_header E Version2 signingKey ephemeralKey encryptionKey receivers of
        Ok eh \<Rightarrow>
          (case marshal E (PEncryptionHeader eh) of
             Inl e \<Rightarrow> Err (e, w)
           | Inr headerBytes \<Rightarrow>
               (case enc (PBytes headerBytes) w of
                  (Some e, w') \<Rightarrow> Err (e, w')
                | (None, w') \<Rightarrow>
                    Ok \<lparr>ssVersion = Version2, ssEncoder = w', ssEncryptionKey = encryptionKey,
                        ssSigningKey = signingKey, ssBuffer = [], ssHeaderHash = sha512 headerBytes,
                        ssNumBlocks = 0, ssErr = None\<rparr>))
      | _ \<Rightarrow> Panicked)"

text \<open>\<open>init\<close>, in the order of the source: the stream that it makes over the destination \<open>w\<close>.\<close>

definition signcryptSealStream_init ::
  "env \<Rightarrow> 'w encoder \<Rightarrow> 'w \<Rightarrow> SigningSecretKey option \<Rightarrow> BoxPublicKey list \<Rightarrow> ReceiverSymmetricKey list \<Rightarrow>
     'r EphemeralKeyCreator \<Rightarrow> 'r signcryptRNG \<Rightarrow> 'r \<Rightarrow> (err \<times> 'w + 'w signcryptSealStream, 'r) go" where
  "signcryptSealStream_init E enc w sender boxKeys symmetricKeys CreateEphemeralKey rng r =
     (case checkSigncryptReceivers boxKeys symmetricKeys of
        Panicked \<Rightarrow> Panic
      | Err e \<Rightarrow> Ret (Inl (e, w)) r
      | Ok _ \<Rightarrow>
     (case scShuffleReceivers rng boxKeys symmetricKeys r of
        Panic \<Rightarrow> Panic
      | Ret (Inl e) r1 \<Rightarrow> Ret (Inl (e, w)) r1
      | Ret (Inr receivers) r1 \<Rightarrow>
     (case CreateEphemeralKey r1 of
        (Inl e, r2) \<Rightarrow> Ret (Inl (e, w)) r2
      | (Inr ephemeralKey, r2) \<Rightarrow>
     (case scCreateSymmetricKey rng r2 of
        (Inl e, r3) \<Rightarrow> Ret (Inl (e, w)) r3
      | (Inr encryptionKey, r3) \<Rightarrow>
     (case signcrypt_start E enc w sender ephemeralKey encryptionKey receivers of
        Panicked \<Rightarrow> Panic
      | Err e \<Rightarrow> Ret (Inl e) r3
      | Ok s \<Rightarrow> Ret (Inr s) r3)))))"

definition newSigncryptSealStream ::
  "env \<Rightarrow> 'w encoder \<Rightarrow> 'w \<Rightarrow> SigningSecretKey option \<Rightarrow> BoxPublicKey list \<Rightarrow> ReceiverSymmetricKey list \<Rightarrow>
     'r EphemeralKeyCreator \<Rightarrow> 'r signcryptRNG \<Rightarrow> 'r \<Rightarrow> (err \<times> 'w + 'w signcryptSealStream, 'r) go" where
  "newSigncryptSealStream E enc ciphertext sender boxKeys symmetricKeys ephemeralKeyCreator rng r =
     signcryptSealStream_init E enc ciphertext sender boxKeys symmetricKeys ephemeralKeyCreator rng r"

definition NewSigncryptSealStream ::
  "env \<Rightarrow> 'w encoder \<Rightarrow> 'w \<Rightarrow> input EphemeralKeyCreator \<Rightarrow> SigningSecretKey option \<Rightarrow> BoxPublicKey list \<Rightarrow>
     ReceiverSymmetricKey list \<Rightarrow> input \<Rightarrow> (err \<times> 'w + 'w signcryptSealStream, input) go" where
  "NewSigncryptSealStream E enc ciphertext ephemeralKeyCreator sender boxKeys symmetricKeys rand =
     newSigncryptSealStream E enc ciphertext sender boxKeys symmetricKeys ephemeralKeyCreator
       defaultSigncryptRNG rand"

section \<open>Whole messages\<close>

definition signcryptSeal ::
  "env \<Rightarrow> bytes \<Rightarrow> SigningSecretKey option \<Rightarrow> BoxPublicKey list \<Rightarrow> ReceiverSymmetricKey list \<Rightarrow>
     'r EphemeralKeyCreator \<Rightarrow> 'r signcryptRNG \<Rightarrow> 'r \<Rightarrow> bytes result" where
  "signcryptSeal E plaintext sender boxKeys symmetricKeys CreateEphemeralKey rng r =
     (case newSigncryptSealStream E (newEncoder E) [] sender boxKeys symmetricKeys
             CreateEphemeralKey rng r of
        Panic \<Rightarrow> Panicked
      | Ret (Inl (e, _)) _ \<Rightarrow> Err e
      | Ret (Inr sss) _ \<Rightarrow>
          (case signcryptSealStream_Write E (newEncoder E) plaintext sss of
             Panic \<Rightarrow> Panicked
           | Ret (_, Some e) _ \<Rightarrow> Err e
           | Ret (_, None) sss' \<Rightarrow>
               (case signcryptSealStream_Close E (newEncoder E) sss' of
                  Panic \<Rightarrow> Panicked
                | Ret (Some e) _ \<Rightarrow> Err e
                | Ret None sss'' \<Rightarrow> Ok (ssEncoder sss''))))"

definition SigncryptSeal ::
  "env \<Rightarrow> bytes \<Rightarrow> input EphemeralKeyCreator \<Rightarrow> SigningSecretKey option \<Rightarrow> BoxPublicKey list \<Rightarrow>
     ReceiverSymmetricKey list \<Rightarrow> input \<Rightarrow> bytes result" where
  "SigncryptSeal E plaintext ephemeralKeyCreator sender boxKeys symmetricKeys rand =
     signcryptSeal E plaintext sender boxKeys symmetricKeys ephemeralKeyCreator
       defaultSigncryptRNG rand"

end
