(* ===== verification/Signcrypt_Open.thy ===== *)
theory Signcrypt_Open
  imports Signcrypt_Seal Chunk_Reader Blocks
begin

text \<open>
  \<open>signcrypt_open.go\<close>: finding the payload key with box keys or with the caller's resolver,
  the sender, the stream of verified chunks and the whole-message function. The theory ends
  with the stream as a source of chunks for the reader.
\<close>

section \<open>Interfaces and state\<close>

text \<open>
  A \<open>SymmetricKeyResolver\<close> returns one key or nil per identifier; a nil resolver is \<open>None\<close>.
\<close>

record SigncryptKeyring = Keyring +
  LookupSigningPublicKey :: SigKeyring

type_synonym SymmetricKeyResolver = "bytes list \<Rightarrow> err + bytes option list"

record signcryptOpenStream =
  soMps :: msgpackStream
  soPayloadKey :: "bytes option"
  soSigningPublicKey :: "SigningPublicKey option"
  soSenderAnonymous :: bool
  soHeaderHash :: bytes

section \<open>Finding the payload key\<close>

text \<open>
  The keys derived from every secret key of the keyring. \<open>ImportBoxEphemeralKey\<close> may return nil
  and \<open>processHeader\<close> does not look: the nil key reaches the method \<open>Box\<close> of the first secret key,
  and the implementations of it under \<open>src/\<close> dereference it. The panic is written here, as \<open>boxBox\<close>
  takes a key that is not nil.
\<close>

primrec derived_keys :: "BoxPublicKey option \<Rightarrow> BoxSecretKey list \<Rightarrow> bytes list result" where
  "derived_keys ephemeralPub [] = Ok []"
| "derived_keys ephemeralPub (sk # sks) =
     (case ephemeralPub of
        None \<Rightarrow> Panicked
      | Some pub \<Rightarrow>
          bind_out (derivedEphemeralKeyFromBoxKeys pub sk) (\<lambda>k.
          bind_out (derived_keys ephemeralPub sks) (\<lambda>ks. Ok (k # ks))))"

text \<open>The inner loop, over the derived keys, for one receiver.\<close>

primrec try_derived_keys :: "env \<Rightarrow> nat \<Rightarrow> receiverKeys \<Rightarrow> bytes list \<Rightarrow> bytes option result" where
  "try_derived_keys E receiverIndex receiver [] = Ok None"
| "try_derived_keys E receiverIndex receiver (derivedKey # ks) =
     (if keyIdentifierFromDerivedKey derivedKey (of_nat receiverIndex) = ReceiverKID receiver
      then (case secretboxOpen E (PayloadKeyBox receiver)
                   (nonceForPayloadKeyBoxV2 (of_nat receiverIndex)) derivedKey of
              None \<Rightarrow> Err ErrDecryptionFailed
            | Some payloadKey \<Rightarrow> bind_out (symmetricKeyFromSlice payloadKey) (\<lambda>k. Ok (Some k)))
      else try_derived_keys E receiverIndex receiver ks)"

primrec try_receivers :: "env \<Rightarrow> bytes list \<Rightarrow> nat \<Rightarrow> receiverKeys list \<Rightarrow> bytes option result" where
  "try_receivers E derivedKeys receiverIndex [] = Ok None"
| "try_receivers E derivedKeys receiverIndex (r # rs) =
     bind_out (try_derived_keys E receiverIndex r derivedKeys) (\<lambda>found.
       case found of
         Some k \<Rightarrow> Ok (Some k)
       | None \<Rightarrow> try_receivers E derivedKeys (Suc receiverIndex) rs)"

definition tryBoxSecretKeys ::
  "env \<Rightarrow> SigncryptKeyring \<Rightarrow> SigncryptionHeader \<Rightarrow> BoxPublicKey option \<Rightarrow> bytes option result" where
  "tryBoxSecretKeys E keyring hdr ephemeralPub =
     bind_out (derived_keys ephemeralPub (GetAllBoxSecretKeys keyring)) (\<lambda>derivedKeys.
       try_receivers E derivedKeys 0 (Receivers hdr))"

text \<open>The loop over the resolved keys: the first one that is not nil decides.\<close>

primrec try_resolved ::
  "env \<Rightarrow> SigncryptionHeader \<Rightarrow> BoxPublicKey option \<Rightarrow> nat \<Rightarrow> bytes option list \<Rightarrow> bytes option result" where
  "try_resolved E hdr ephemeralPub index [] = Ok None"
| "try_resolved E hdr ephemeralPub index (resolved # rest) =
     (case resolved of
        None \<Rightarrow> try_resolved E hdr ephemeralPub (Suc index) rest
      | Some key \<Rightarrow>
          (case ephemeralPub of
             None \<Rightarrow> Panicked
           | Some pub \<Rightarrow>
               bind_out (derived_symmetric_key pub key) (\<lambda>derivedKey.
                 case secretboxOpen E (PayloadKeyBox (Receivers hdr ! index))
                        (nonceForPayloadKeyBoxV2 (of_nat index)) derivedKey of
                   None \<Rightarrow> Err ErrDecryptionFailed
                 | Some payloadKey \<Rightarrow>
                     bind_out (symmetricKeyFromSlice payloadKey) (\<lambda>k. Ok (Some k)))))"

definition trySharedSymmetricKeys ::
  "env \<Rightarrow> SymmetricKeyResolver option \<Rightarrow> SigncryptionHeader \<Rightarrow> BoxPublicKey option \<Rightarrow>
     bytes option result" where
  "trySharedSymmetricKeys E resolver hdr ephemeralPub =
     (let identifiers = map ReceiverKID (Receivers hdr)
      in case resolver of
           None \<Rightarrow> Ok None
         | Some ResolveKeys \<Rightarrow>
             (case ResolveKeys identifiers of
                Inl e \<Rightarrow> Err e
              | Inr resolvedKeys \<Rightarrow>
                  if length resolvedKeys \<noteq> length identifiers then Err ErrWrongNumberOfKeys
                  else try_resolved E hdr ephemeralPub 0 resolvedKeys))"

section \<open>The header\<close>

text \<open>The part of \<open>processHeader\<close> after the payload key was found: an all-zero key is anonymous.\<close>

definition signcrypt_sender ::
  "env \<Rightarrow> SigncryptKeyring \<Rightarrow> SigncryptionHeader \<Rightarrow> bytes \<Rightarrow> signcryptOpenStream \<Rightarrow>
     signcryptOpenStream result" where
  "signcrypt_sender E keyring hdr payloadKey sos =
     bind_out nonceForSenderKeySecretBox (\<lambda>nonce.
       case secretboxOpen E (SenderSecretbox hdr) nonce payloadKey of
         None \<Rightarrow> Err ErrBadSenderKeySecretbox
       | Some senderKeySlice \<Rightarrow>
           if senderKeySlice = replicate (length senderKeySlice) 0
           then Ok (sos\<lparr>soSenderAnonymous := True\<rparr>)
           else (case LookupSigningPublicKey keyring senderKeySlice of
                   None \<Rightarrow> Err (ErrNoSenderKey senderKeySlice)
                 | Some spk \<Rightarrow> Ok (sos\<lparr>soSigningPublicKey := Some spk\<rparr>)))"

definition signcrypt_processHeader ::
  "env \<Rightarrow> SigncryptKeyring \<Rightarrow> SymmetricKeyResolver option \<Rightarrow> SigncryptionHeader \<Rightarrow>
     signcryptOpenStream \<Rightarrow> signcryptOpenStream result" where
  "signcrypt_processHeader E keyring resolver hdr sos =
     (case SigncryptionHeader_validate hdr of
        Some e \<Rightarrow> Err e
      | None \<Rightarrow>
     let ephemeralPub = ImportBoxEphemeralKey keyring (Ephemeral hdr)
     in bind_out (tryBoxSecretKeys E keyring hdr ephemeralPub) (\<lambda>boxed.
        bind_out (case boxed of
                    Some k \<Rightarrow> Ok (Some k)
                  | None \<Rightarrow> trySharedSymmetricKeys E resolver hdr ephemeralPub) (\<lambda>found.
          case found of
            None \<Rightarrow> Err ErrNoDecryptionKey
          | Some payloadKey \<Rightarrow>
              signcrypt_sender E keyring hdr payloadKey (sos\<lparr>soPayloadKey := Some payloadKey\<rparr>))))"

definition signcrypt_readHeader ::
  "env \<Rightarrow> SigncryptKeyring \<Rightarrow> SymmetricKeyResolver option \<Rightarrow> signcryptOpenStream \<Rightarrow>
     signcryptOpenStream result" where
  "signcrypt_readHeader E keyring resolver sos =
     (case mpsRead (decBytes E) (soMps sos) of
        (Inl _, _) \<Rightarrow> Err ErrFailedToReadHeaderBytes
      | (Inr (headerBytes, _), mps) \<Rightarrow>
          (case unmarshalEncryptionHeader E headerBytes of
             Inl e \<Rightarrow> Err e
           | Inr header \<Rightarrow>
               signcrypt_processHeader E keyring resolver header
                 (sos\<lparr>soMps := mps, soHeaderHash := sha512 headerBytes\<rparr>)))"

section \<open>The blocks\<close>

text \<open>A nil payload key or a nil signing key panics; \<open>readHeader\<close> leaves neither behind.\<close>

definition signcrypt_processBlock ::
  "env \<Rightarrow> signcryptOpenStream \<Rightarrow> bytes \<Rightarrow> bool \<Rightarrow> packetSeqno \<Rightarrow> bytes result" where
  "signcrypt_processBlock E sos payloadCiphertext isFinal seqno =
     (let blockNum = seqno - 1
      in case encryptionBlockNumber_check blockNum of
           Some e \<Rightarrow> Err e
         | None \<Rightarrow>
             bind_out (nonceForChunkSigncryption (soHeaderHash sos) isFinal blockNum) (\<lambda>nonce.
               case soPayloadKey sos of
                 None \<Rightarrow> Panicked
               | Some payloadKey \<Rightarrow>
                   (case secretboxOpen E payloadCiphertext nonce payloadKey of
                      None \<Rightarrow> Err (ErrBadCiphertext seqno)
                    | Some attachedSig \<Rightarrow>
                        if length attachedSig < SignatureSize then Err (ErrBadCiphertext seqno)
                        else bind_out (sliceToByte 64 (take SignatureSize attachedSig)) (\<lambda>detachedSig.
                          let chunkPlaintext = drop SignatureSize attachedSig
                          in if soSenderAnonymous sos then Ok chunkPlaintext
                             else (case soSigningPublicKey sos of
                                     None \<Rightarrow> Panicked
                                   | Some spk \<Rightarrow>
                                       (case sigVerify spk (computeSigncryptionSignatureInput
                                                 (soHeaderHash sos) nonce isFinal chunkPlaintext)
                                               detachedSig of
                                          Some _ \<Rightarrow> Err ErrBadSignature
                                        | None \<Rightarrow> Ok chunkPlaintext))))))"

definition signcrypt_getNextChunk :: "env \<Rightarrow> signcryptOpenStream next_chunk" where
  "signcrypt_getNextChunk E sos =
     (case mpsRead (decSigncryption E) (soMps sos) of
        (Inl e, mps) \<Rightarrow> Ret ([], Some (if e = EOF then ErrUnexpectedEOF else e)) (sos\<lparr>soMps := mps\<rparr>)
      | (Inr (sb, seqno), mps) \<Rightarrow>
          (case signcrypt_processBlock E sos (SCPayloadCiphertext sb) (SCIsFinal sb) seqno of
             Panicked \<Rightarrow> Panic
           | Err e \<Rightarrow> Ret ([], Some e) (sos\<lparr>soMps := mps\<rparr>)
           | Ok chunk \<Rightarrow>
               (case checkDecodedChunkState Version2 chunk seqno (SCIsFinal sb) of
                  Panicked \<Rightarrow> Panic
                | Err e \<Rightarrow> Ret ([], Some e) (sos\<lparr>soMps := mps\<rparr>)
                | Ok _ \<Rightarrow>
                    if SCIsFinal sb
                    then (case assertEndOfStream E mps of
                            (e, mps') \<Rightarrow> Ret (chunk, Some e) (sos\<lparr>soMps := mps'\<rparr>))
                    else Ret (chunk, None) (sos\<lparr>soMps := mps\<rparr>))))"

section \<open>Whole messages\<close>

definition new_open_stream :: "input \<Rightarrow> signcryptOpenStream" where
  "new_open_stream r =
     \<lparr>soMps = newMsgpackStream r, soPayloadKey = None, soSigningPublicKey = None,
      soSenderAnonymous = False, soHeaderHash = replicate 64 0\<rparr>"

definition NewSigncryptOpenStream ::
  "env \<Rightarrow> input \<Rightarrow> SigncryptKeyring \<Rightarrow> SymmetricKeyResolver option \<Rightarrow>
     (SigningPublicKey option \<times> signcryptOpenStream chunkReader) result" where
  "NewSigncryptOpenStream E r keyring resolver =
     bind_out (signcrypt_readHeader E keyring resolver (new_open_stream r)) (\<lambda>sos.
       Ok (soSigningPublicKey sos, newChunkReader sos))"

text \<open>\<open>SigncryptOpen\<close>: the sender's key (nil for an anonymous one) and the plaintext.\<close>

definition SigncryptOpen ::
  "env \<Rightarrow> (nat \<Rightarrow> nat) \<Rightarrow> bytes \<Rightarrow> SigncryptKeyring \<Rightarrow> SymmetricKeyResolver option \<Rightarrow>
     (SigningPublicKey option \<times> bytes) result option" where
  "SigncryptOpen E grow ciphertext keyring resolver =
     (case NewSigncryptOpenStream E (bytes_input ciphertext) keyring resolver of
        Panicked \<Rightarrow> Some Panicked
      | Err e \<Rightarrow> Some (Err e)
      | Ok (senderPub, plaintextStream) \<Rightarrow>
          map_option (\<lambda>r. case r of
                Panic \<Rightarrow> Panicked
              | Ret (_, Some e) _ \<Rightarrow> Err e
              | Ret (ret, None) _ \<Rightarrow> Ok (senderPub, ret))
            (ReadAll grow (chunkReader_Read (signcrypt_getNextChunk E)) plaintextStream))"

section \<open>The stream as a source of chunks\<close>

text \<open>What \<open>readHeader\<close> leaves: a payload key, and a signing key unless the sender is anonymous.\<close>

definition so_inv :: "signcryptOpenStream \<Rightarrow> bool" where
  "so_inv s \<longleftrightarrow> soPayloadKey s \<noteq> None \<and> (soSenderAnonymous s \<or> soSigningPublicKey s \<noteq> None) \<and>
     16 \<le> length (soHeaderHash s)"

lemma signcrypt_next_cases:
  assumes "signcrypt_getNextChunk E s = Ret (c, e) s'" and "e = None \<or> e = Some EOF"
    and "\<And>ct f q. signcrypt_processBlock E s ct f q \<noteq> Err EOF"
  obtains sb q mps where
    "mpsRead (decSigncryption E) (soMps s) = (Inr (sb, q), mps)"
    "signcrypt_processBlock E s (SCPayloadCiphertext sb) (SCIsFinal sb) q = Ok c"
    "chunk_rule Version2 (length c) (q - 1) (SCIsFinal sb)"
    "SCIsFinal sb = (e \<noteq> None)" "e = None \<Longrightarrow> s' = s\<lparr>soMps := mps\<rparr>"
    "e \<noteq> None \<Longrightarrow> fst (assertEndOfStream E mps) = EOF"
proof -
  obtain r mps where r: "mpsRead (decSigncryption E) (soMps s) = (r, mps)" by fastforce
  show thesis
  proof (cases r)
    case (Inl e')
    with assms(1,2) r show thesis by (auto simp: signcrypt_getNextChunk_def split: if_splits)
  next
    case (Inr t)
    obtain sb q where t: "t = (sb, q)" by (cases t) auto
    let ?p = "signcrypt_processBlock E s (SCPayloadCiphertext sb) (SCIsFinal sb) q"
    have "checkDecodedChunkState Version2 chunk q (SCIsFinal sb) \<noteq> Err EOF" for chunk
      by (auto simp: checkDecodedChunkState_def checkChunkState_def)
    with assms r Inr t have "?p = Ok c \<and> checkDecodedChunkState Version2 c q (SCIsFinal sb) = Ok () \<and>
        SCIsFinal sb = (e \<noteq> None) \<and> (e = None \<longrightarrow> s' = s\<lparr>soMps := mps\<rparr>) \<and>
        (e \<noteq> None \<longrightarrow> fst (assertEndOfStream E mps) = EOF)"
      by (cases ?p; cases "checkDecodedChunkState Version2 c q (SCIsFinal sb)")
        (auto simp: signcrypt_getNextChunk_def split: if_splits prod.splits outcome.splits)
    with r Inr t show thesis by (intro that) (auto simp: checkDecodedChunkState_Ok)
  qed
qed

lemma signcrypt_processBlock_not_EOF: "signcrypt_processBlock E s ct f q \<noteq> Err EOF"
  by (auto simp: signcrypt_processBlock_def Let_def bind_out_eq_Err nonceForChunkSigncryption_def
      sliceToByte_def encryptionBlockNumber_check_def split: option.splits if_splits)

lemmas signcrypt_next = signcrypt_next_cases [OF _ _ signcrypt_processBlock_not_EOF]

interpretation so: chunk_source "signcrypt_getNextChunk E" so_inv for E
proof
  fix s c s'
  assume inv: "so_inv s" and nxt: "signcrypt_getNextChunk E s = Ret (c, None) s'"
  from nxt obtain q mps where "chunk_rule Version2 (length c) (q - 1) False" "s' = s\<lparr>soMps := mps\<rparr>"
    by (rule signcrypt_next) auto
  with inv show "c \<noteq> []" "so_inv s'" by (auto simp: chunk_rule_nonempty so_inv_def)
qed

lemma signcrypt_no_panic: "so_inv s \<Longrightarrow> signcrypt_getNextChunk E s \<noteq> Panic"
proof -
  assume inv: "so_inv s"
  have "signcrypt_processBlock E s ct f q \<noteq> Panicked" for ct f q
    using inv by (auto simp: signcrypt_processBlock_def so_inv_def Let_def bind_out_eq_Panicked
        nonceForChunkSigncryption_def sliceToByte_def SignatureSize_def
        split: option.splits if_splits)
  moreover have "checkDecodedChunkState Version2 c q f \<noteq> Panicked" for c q f
    by (simp add: checkDecodedChunkState_def checkChunkState_V2)
  ultimately show ?thesis
    by (auto simp: signcrypt_getNextChunk_def split: prod.splits sum.splits outcome.splits if_splits)
qed

lemma signcrypt_next_consumes:
  assumes "codec_consumes E" "signcrypt_getNextChunk E s = Ret (c, None) s'"
  shows "length (pending (decoder (soMps s'))) < length (pending (decoder (soMps s)))"
proof -
  from assms(2) obtain sb q mps where "mpsRead (decSigncryption E) (soMps s) = (Inr (sb, q), mps)"
    "s' = s\<lparr>soMps := mps\<rparr>" by (rule signcrypt_next) auto
  with assms(1) show ?thesis by (auto simp: codec_consumes_def dest: mpsRead_consumes)
qed

end
