(* ===== verification/Signcrypt_Correct.thy ===== *)
theory Signcrypt_Correct
  imports Signcrypt_Open Box_Laws Block_Reader
begin

text \<open>
  The signcrypting stream as a \<open>block_stream\<close> and an \<open>emitting_stream\<close>, the packets it writes, and
  the opening stream reading them back.
\<close>

section \<open>The stream as a block stream\<close>

abbreviation ss_append :: "bytes \<Rightarrow> 'w signcryptSealStream \<Rightarrow> 'w signcryptSealStream" where
  "ss_append x s \<equiv> s\<lparr>ssBuffer := ssBuffer s @ x\<rparr>"

lemma signcrypt_packet_buffer [simp]:
  "signcrypt_packet E (s\<lparr>ssBuffer := x\<rparr>) c f = signcrypt_packet E s c f"
  by (simp add: signcrypt_packet_def)

lemma signcryptBlock_front:
  assumes "encryptionBlockSize < length (ssBuffer s)"
  shows "signcryptBlock_err E enc False (ss_append x s) =
    go_map (ss_append x) (signcryptBlock_err E enc False s)"
  using assms
  by (auto simp: signcryptBlock_err_def signcryptBlock_def Let_def
      split: outcome.splits prod.splits option.splits)

interpretation ss: block_stream ssBuffer ss_append "signcryptBlock_err E enc"
  "signcryptSealStream_loop E enc" encryptionBlockSize for E enc
proof
  show "signcryptSealStream_loop E enc s = (if encryptionBlockSize < length (ssBuffer s)
      then (case signcryptBlock_err E enc False s of
              Panic \<Rightarrow> Panic
            | Ret (Some e) s' \<Rightarrow> Ret (Some e) s'
            | Ret None s' \<Rightarrow> signcryptSealStream_loop E enc s')
      else Ret None s)" for s
    by (rule signcryptSealStream_loop.simps)
qed (simp_all add: signcryptBlock_front signcryptBlock_err_buffer)

section \<open>A block when nothing fails\<close>

text \<open>
  A sender's key that works: it signs every message with 64 bytes that the public key accepts,
  and its identifier has 32 bytes, not all of them zero. An anonymous sender has no key.
\<close>

definition sender_ok :: "SigningSecretKey option \<Rightarrow> SigningPublicKey option \<Rightarrow> bool" where
  "sender_ok sender spk \<longleftrightarrow>
     (case sender of
        None \<Rightarrow> spk = None
      | Some sk \<Rightarrow> \<exists>pk. spk = Some pk \<and> signs_for sk pk \<and>
          (\<forall>m sig. sigSign sk m = Inr sig \<longrightarrow> length sig = SignatureSize) \<and>
          length (sigToKID pk) = PublicKeySize \<and> sigToKID pk \<noteq> replicate PublicKeySize 0)"

definition sc_nonce :: "bytes \<Rightarrow> bool \<Rightarrow> encryptionBlockNumber \<Rightarrow> bytes" where
  "sc_nonce hh f i = flagged_prefix hh f @ be64 i"

definition sc_signature ::
  "SigningSecretKey option \<Rightarrow> bytes \<Rightarrow> encryptionBlockNumber \<Rightarrow> bytes \<Rightarrow> bool \<Rightarrow> bytes" where
  "sc_signature sender hh i c f =
     (case signcrypt_signature sender hh (sc_nonce hh f i) f c of Ok sig \<Rightarrow> sig | _ \<Rightarrow> [])"

definition sc_ciphertext ::
  "env \<Rightarrow> bytes \<Rightarrow> SigningSecretKey option \<Rightarrow> bytes \<Rightarrow> encryptionBlockNumber \<Rightarrow> bytes \<Rightarrow> bool \<Rightarrow> bytes" where
  "sc_ciphertext E key sender hh i c f =
     secretboxSeal E (sc_signature sender hh i c f @ c) (sc_nonce hh f i) key"

definition sc_packet ::
  "env \<Rightarrow> bytes \<Rightarrow> SigningSecretKey option \<Rightarrow> bytes \<Rightarrow> encryptionBlockNumber \<Rightarrow> bytes \<Rightarrow> bool \<Rightarrow> packet" where
  "sc_packet E key sender hh i c f =
     PSigncryption \<lparr>SCPayloadCiphertext = sc_ciphertext E key sender hh i c f, SCIsFinal = f\<rparr>"

definition ss_emit ::
  "env \<Rightarrow> 'w encoder \<Rightarrow> bool \<Rightarrow> bytes \<Rightarrow> 'w signcryptSealStream \<Rightarrow> 'w signcryptSealStream" where
  "ss_emit E enc f c s =
     s\<lparr>ssEncoder := snd (enc (sc_packet E (ssEncryptionKey s) (ssSigningKey s) (ssHeaderHash s)
                                (ssNumBlocks s) c f) (ssEncoder s)),
       ssNumBlocks := ssNumBlocks s + 1\<rparr>"

definition ss_good :: "env \<Rightarrow> 'w encoder \<Rightarrow> 'w signcryptSealStream \<Rightarrow> bool" where
  "ss_good E enc s \<longleftrightarrow> writes_all enc \<and> secretbox_ok E \<and> ssVersion s = Version2 \<and> ssErr s = None \<and>
     (\<exists>spk. sender_ok (ssSigningKey s) spk) \<and> length (ssHeaderHash s) = 64 \<and>
     unat (ssNumBlocks s) + length (ssBuffer s) < 2 ^ 64 - 1"

lemma nonceForChunkSigncryption_Ok:
  "16 \<le> length hh \<Longrightarrow> nonceForChunkSigncryption hh f i = Ok (sc_nonce hh f i)"
  by (simp add: nonceForChunkSigncryption_def sc_nonce_def)

lemma sc_signature_Ok:
  assumes "sender_ok sender spk"
  shows "signcrypt_signature sender hh (sc_nonce hh f i) f c = Ok (sc_signature sender hh i c f)"
    and "length (sc_signature sender hh i c f) = SignatureSize"
    and "spk = Some pk \<Longrightarrow> sigVerify pk (computeSigncryptionSignatureInput hh (sc_nonce hh f i) f c)
           (sc_signature sender hh i c f) = None"
proof -
  let ?i = "computeSigncryptionSignatureInput hh (sc_nonce hh f i) f c"
  have "signcrypt_signature sender hh (sc_nonce hh f i) f c = Ok (sc_signature sender hh i c f) \<and>
    length (sc_signature sender hh i c f) = SignatureSize \<and>
    (\<forall>pk. spk = Some pk \<longrightarrow> sigVerify pk ?i (sc_signature sender hh i c f) = None)"
  proof (cases sender)
    case None
    then show ?thesis using assms by (simp add: sc_signature_def signcrypt_signature_def sender_ok_def)
  next
    case (Some sk)
    with assms obtain p where p: "spk = Some p" "signs_for sk p"
      "\<forall>m sig. sigSign sk m = Inr sig \<longrightarrow> length sig = SignatureSize"
      by (auto simp: sender_ok_def)
    moreover from p(2) obtain sig where "sigSign sk ?i = Inr sig" "sigVerify p ?i sig = None"
      unfolding signs_for_def by blast
    ultimately show ?thesis using Some
      by (simp add: sc_signature_def signcrypt_signature_def)
  qed
  then show "signcrypt_signature sender hh (sc_nonce hh f i) f c = Ok (sc_signature sender hh i c f)"
    "length (sc_signature sender hh i c f) = SignatureSize"
    "spk = Some pk \<Longrightarrow> sigVerify pk ?i (sc_signature sender hh i c f) = None" by auto
qed

text \<open>The signature makes every block long enough for the check of the encoder.\<close>

lemma signcrypt_packet_Ok:
  assumes "ss_good E enc s"
  shows "signcrypt_packet E s c f =
    Ok (sc_packet E (ssEncryptionKey s) (ssSigningKey s) (ssHeaderHash s) (ssNumBlocks s) c f)"
proof -
  from assms obtain spk where spk: "sender_ok (ssSigningKey s) spk" by (auto simp: ss_good_def)
  let ?ct = "sc_ciphertext E (ssEncryptionKey s) (ssSigningKey s) (ssHeaderHash s) (ssNumBlocks s) c f"
  have "length ?ct = SignatureSize + length c + secretboxOverhead"
    using assms sc_signature_Ok(2) [OF spk] by (simp add: sc_ciphertext_def ss_good_def secretbox_ok_def)
  then have "assertEncodedChunkState Version2 ?ct secretboxOverhead (ssNumBlocks s) f = Ok ()"
    by (simp add: assertEncodedChunkState_Ok chunk_rule_def SignatureSize_def)
  then show ?thesis
    using assms sc_signature_Ok(1) [OF spk, of "ssHeaderHash s" f "ssNumBlocks s" c]
    by (simp add: signcrypt_packet_def ss_good_def nonceForChunkSigncryption_Ok sc_packet_def
        sc_ciphertext_def Let_def)
qed

lemma ss_emit_sel [simp]:
  "ssVersion (ss_emit E enc f c s) = ssVersion s" "ssHeaderHash (ss_emit E enc f c s) = ssHeaderHash s"
  "ssEncryptionKey (ss_emit E enc f c s) = ssEncryptionKey s"
  "ssSigningKey (ss_emit E enc f c s) = ssSigningKey s"
  "ssBuffer (ss_emit E enc f c s) = ssBuffer s" "ssErr (ss_emit E enc f c s) = ssErr s"
  "ssNumBlocks (ss_emit E enc f c s) = ssNumBlocks s + 1"
  "ss_emit E enc f c (s\<lparr>ssBuffer := x\<rparr>) = (ss_emit E enc f c s)\<lparr>ssBuffer := x\<rparr>"
  by (simp_all add: ss_emit_def)

lemma ssErr_same: "ssErr s = x \<Longrightarrow> s\<lparr>ssErr := x\<rparr> = (s :: 'w signcryptSealStream)"
  by (cases s) simp

lemma ssBuffer_same: "ssBuffer s = x \<Longrightarrow> s\<lparr>ssBuffer := x\<rparr> = (s :: 'w signcryptSealStream)"
  by (cases s) simp

lemma signcryptBlock_emits:
  assumes "ss_good E enc s" "f \<longrightarrow> length (ssBuffer s) \<le> encryptionBlockSize"
  shows "signcryptBlock E enc f s = Ret None (ss_emit E enc f (take encryptionBlockSize (ssBuffer s))
           (s\<lparr>ssBuffer := drop encryptionBlockSize (ssBuffer s)\<rparr>))"
proof -
  let ?c = "take encryptionBlockSize (ssBuffer s)"
  have "encryptionBlockNumber_check (ssNumBlocks s) = None"
    using assms(1) by (intro block_number_ok) (simp add: ss_good_def)
  moreover note signcrypt_packet_Ok [OF assms(1), of ?c f]
  moreover have "fst (enc p w) = None" for p w using assms(1) by (simp add: ss_good_def writes_all_def)
  ultimately show ?thesis
    using assms(2) by (simp add: signcryptBlock_def Let_def ss_emit_def split: prod.split option.split)
      (metis fst_conv option.distinct(1))
qed

lemma signcryptBlock_emits_more:
  assumes "ss_good E enc s" "encryptionBlockSize < length (ssBuffer s)"
  shows "signcryptBlock_err E enc False s = Ret None (ss_emit E enc False (take encryptionBlockSize (ssBuffer s))
           (s\<lparr>ssBuffer := drop encryptionBlockSize (ssBuffer s)\<rparr>))"
  using assms signcryptBlock_emits [of E enc s False]
  by (simp add: signcryptBlock_err_def ssErr_same ss_good_def)

lemma ss_good_emit:
  assumes "ss_good E enc s" "x < length (ssBuffer s)"
  shows "ss_good E enc ((ss_emit E enc f c s)\<lparr>ssBuffer := drop (length (ssBuffer s) - x) (ssBuffer s)\<rparr>)"
  using assms unat_plus1 [of "ssNumBlocks s"] by (simp add: ss_good_def)

interpretation sse: emitting_stream ssBuffer ss_append "signcryptBlock_err E enc"
  "signcryptSealStream_loop E enc" encryptionBlockSize "ss_good E enc" "\<lambda>x s. s\<lparr>ssBuffer := x\<rparr>"
  "ss_emit E enc False" for E enc
proof
  fix s :: "'a signcryptSealStream"
  assume s: "ss_good E enc s" "encryptionBlockSize < length (ssBuffer s)"
  have "length (ssBuffer s) - (length (ssBuffer s) - encryptionBlockSize) = encryptionBlockSize"
    "length (ssBuffer s) - encryptionBlockSize < length (ssBuffer s)"
    using s(2) block_sizes_pos(1) by linarith+
  with ss_good_emit [OF s(1), of "length (ssBuffer s) - encryptionBlockSize" False
      "take encryptionBlockSize (ssBuffer s)"] s(2)
  show "ss_good E enc (ss_emit E enc False (take encryptionBlockSize (ssBuffer s))
      (s\<lparr>ssBuffer := drop encryptionBlockSize (ssBuffer s)\<rparr>))" by simp
qed (simp_all add: signcryptBlock_emits_more ssBuffer_same)

section \<open>What a stream writes\<close>

abbreviation ss_emits ::
  "env \<Rightarrow> 'w encoder \<Rightarrow> (bytes \<times> bool) list \<Rightarrow> 'w signcryptSealStream \<Rightarrow> 'w signcryptSealStream" where
  "ss_emits E enc bs s \<equiv> fold (\<lambda>(c, f). ss_emit E enc f c) bs s"

lemma ss_emits_False: "fold (ss_emit E enc False) cs s = ss_emits E enc (map (\<lambda>c. (c, False)) cs) s"
  by (simp add: fold_map comp_def)

lemma ss_emits_sel [simp]:
  "ssVersion (ss_emits E enc bs s) = ssVersion s" "ssHeaderHash (ss_emits E enc bs s) = ssHeaderHash s"
  "ssEncryptionKey (ss_emits E enc bs s) = ssEncryptionKey s"
  "ssSigningKey (ss_emits E enc bs s) = ssSigningKey s"
  "ssBuffer (ss_emits E enc bs s) = ssBuffer s" "ssErr (ss_emits E enc bs s) = ssErr s"
  "ss_emits E enc bs (s\<lparr>ssBuffer := x\<rparr>) = (ss_emits E enc bs s)\<lparr>ssBuffer := x\<rparr>"
  by (induction bs arbitrary: s) auto

lemma signcrypt_write_close:
  assumes good: "ss_good E enc (s\<lparr>ssBuffer := x\<rparr>)" and fresh: "ssBuffer s = []"
  shows "writes_close (signcryptSealStream_Write E enc) (signcryptSealStream_Close E enc) [x] s =
    Ret None (ss_emits E enc (message_blocks Version2 encryptionBlockSize x) s)"
proof -
  let ?B = encryptionBlockSize
  let ?l = "last_block ?B x" and ?fs = "full_blocks ?B x"
  let ?s = "ss_emits E enc (map (\<lambda>c. (c, False)) ?fs) (s\<lparr>ssBuffer := ?l\<rparr>)"
  have err: "ssErr s = None" using good by (simp add: ss_good_def)
  from sse.loop_emits [OF good] fresh
  have loop: "signcryptSealStream_loop E enc (ss_append x s) = Ret None ?s" and good_s: "ss_good E enc ?s"
    by (simp_all add: ss_emits_False)
  have wr: "signcryptSealStream_Write E enc x s = Ret (length x, None) ?s"
    using err by (simp add: signcryptSealStream_Write_def loop del: ss_emits_sel)
  have lB: "length ?l \<le> ?B" by (rule length_last_block) simp
  have "signcryptBlock E enc True ?s = Ret None (ss_emit E enc True ?l (?s\<lparr>ssBuffer := []\<rparr>))"
    using signcryptBlock_emits [OF good_s, of True] lB by simp
  then have "signcryptSealStream_Close E enc ?s = Ret None (ss_emit E enc True ?l (?s\<lparr>ssBuffer := []\<rparr>))"
    by (simp add: signcryptSealStream_Close_def)
  also have "ss_emit E enc True ?l (?s\<lparr>ssBuffer := []\<rparr>) = ss_emits E enc (message_blocks Version2 ?B x) s"
    using fresh by (simp add: message_blocks_def ssBuffer_same)
  finally show ?thesis by (simp add: writes_close_def wr del: ss_emits_sel)
qed

abbreviation sc_encode ::
  "env \<Rightarrow> bytes \<Rightarrow> SigningSecretKey option \<Rightarrow> bytes \<Rightarrow> encryptionBlockNumber \<Rightarrow> (bytes \<times> bool) list \<Rightarrow> bytes" where
  "sc_encode E key sender hh \<equiv> encode_blocks (\<lambda>i c f. enc1 E (sc_packet E key sender hh i c f))"

lemma ss_emits_encode:
  "codec_ok E \<Longrightarrow> ssEncoder (ss_emits E (newEncoder E) bs s) = ssEncoder s @
     sc_encode E (ssEncryptionKey s) (ssSigningKey s) (ssHeaderHash s) (ssNumBlocks s) bs"
  by (induction bs arbitrary: s) (auto simp: newEncoder_ok ss_emit_def)

end
