(* ===== verification/Signcrypt_Roundtrip.thy ===== *)
theory Signcrypt_Roundtrip
  imports Signcrypt_Correct Encrypt_Decrypt
begin

text \<open>
  Signcryption and opening together: every receiver, with a box key or with a symmetric key,
  finds the payload key in the header, recognises the sender and reads the blocks back.
\<close>

section \<open>Reading what a stream wrote\<close>

definition so_ready :: "bytes \<Rightarrow> SigningPublicKey option \<Rightarrow> bytes \<Rightarrow> signcryptOpenStream \<Rightarrow> bool" where
  "so_ready key spk hh s \<longleftrightarrow> soPayloadKey s = Some key \<and> soHeaderHash s = hh \<and> length hh = 64 \<and>
     soSigningPublicKey s = spk \<and> soSenderAnonymous s = (spk = None)"

lemma signcrypt_processBlock_written:
  assumes box: "secretbox_ok E" and i: "unat i < 2 ^ 64 - 1" and s: "so_ready key spk hh s"
    and sender: "sender_ok sender spk"
  shows "signcrypt_processBlock E s (sc_ciphertext E key sender hh i c f) f (i + 1) = Ok c"
proof -
  let ?sig = "sc_signature sender hh i c f"
  have sz: "length ?sig = 64" using sc_signature_Ok(2) [OF sender] by (simp add: SignatureSize_def)
  have opened: "secretboxOpen E (sc_ciphertext E key sender hh i c f) (sc_nonce hh f i) key = Some (?sig @ c)"
    using box by (simp add: secretbox_ok_def sc_ciphertext_def)
  have nonce: "nonceForChunkSigncryption hh f i = Ok (sc_nonce hh f i)"
    using s by (intro nonceForChunkSigncryption_Ok) (simp add: so_ready_def)
  show ?thesis
    using s block_number_ok [OF i] opened nonce sz sc_signature_Ok(3) [OF sender, of _ hh f i c]
    by (cases spk) (simp_all add: signcrypt_processBlock_def so_ready_def SignatureSize_def sliceToByte_def Let_def)
qed

lemma signcrypt_next_written:
  assumes codec: "codec_ok E" and box: "secretbox_ok E" and i: "unat i < 2 ^ 64 - 1"
    and s: "so_ready key spk hh s" and sender: "sender_ok sender spk"
    and rule: "chunk_rule Version2 (length c) i f"
  shows "signcrypt_getNextChunk E (s\<lparr>soMps := \<lparr>decoder =
        \<lparr>pending = enc1 E (sc_packet E key sender hh i c f) @ rest, ends = e\<rparr>, mpsSeqno = i + 1\<rparr>\<rparr>) =
    (if f then (case assertEndOfStream E \<lparr>decoder = \<lparr>pending = rest, ends = e\<rparr>, mpsSeqno = i + 2\<rparr> of
                  (e', mps) \<Rightarrow> Ret (c, Some e') (s\<lparr>soMps := mps\<rparr>))
     else Ret (c, None) (s\<lparr>soMps := \<lparr>decoder = \<lparr>pending = rest, ends = e\<rparr>, mpsSeqno = i + 2\<rparr>\<rparr>))"
proof -
  let ?s = "\<lambda>mps. s\<lparr>soMps := mps\<rparr>"
  have "so_ready key spk hh (?s mps)" for mps using s by (simp add: so_ready_def)
  note block = signcrypt_processBlock_written [OF box i this sender, of _ c f]
  have "checkDecodedChunkState Version2 c (i + 1) f = Ok ()"
    using rule by (simp add: checkDecodedChunkState_Ok)
  moreover have "mpsRead (decSigncryption E) \<lparr>decoder =
        \<lparr>pending = enc1 E (sc_packet E key sender hh i c f) @ rest, ends = e\<rparr>, mpsSeqno = i + 1\<rparr> =
      (Inr (\<lparr>SCPayloadCiphertext = sc_ciphertext E key sender hh i c f, SCIsFinal = f\<rparr>, i + 1),
       \<lparr>decoder = \<lparr>pending = rest, ends = e\<rparr>, mpsSeqno = i + 2\<rparr>)"
    using mpsRead_encoded [OF codec_okD(7) [OF codec] marshal_enc1 [OF codec]]
    by (simp add: sc_packet_def)
  ultimately show ?thesis
    using block by (simp add: signcrypt_getNextChunk_def split: prod.split)
qed

interpretation sbr: block_reader E "signcrypt_getNextChunk E" "\<lambda>mps. s\<lparr>soMps := mps\<rparr>"
  "\<lambda>i c f. enc1 E (sc_packet E key sender hh i c f)" Version2
  "\<lambda>i. codec_ok E \<and> secretbox_ok E \<and> so_ready key spk hh s \<and> sender_ok sender spk \<and> unat i < 2 ^ 64 - 1"
  for E key sender spk hh s
  by unfold_locales (auto simp: signcrypt_next_written dest: codec_okD(8) split: prod.split)

section \<open>The receivers\<close>

text \<open>The key that both ends of a pair of box keys derive, and the one derived from a symmetric key.\<close>

definition dkey :: "BoxSecretKey \<Rightarrow> BoxPublicKey \<Rightarrow> bytes" where
  "dkey eph pk = drop 16 (boxBox eph pk (ascii ''saltpack_derived_sboxkey'') (replicate 32 0))"

definition skey :: "BoxSecretKey \<Rightarrow> bytes \<Rightarrow> bytes" where
  "skey eph key =
     take 32 (hmac_sha512 signcryptionSymmetricKeyContext (boxToKID (boxGetPublicKey eph) @ key))"

primrec sc_kid :: "BoxSecretKey \<Rightarrow> nat \<Rightarrow> receiverKeysMaker \<Rightarrow> bytes" where
  "sc_kid eph j (receiverBoxKey pk) = keyIdentifierFromDerivedKey (dkey eph pk) (of_nat j)"
| "sc_kid eph j (receiverSymmetric r) = RIdentifier r"

primrec sc_key :: "BoxSecretKey \<Rightarrow> receiverKeysMaker \<Rightarrow> bytes" where
  "sc_key eph (receiverBoxKey pk) = dkey eph pk"
| "sc_key eph (receiverSymmetric r) = skey eph (RKey r)"

definition sc_entry :: "env \<Rightarrow> BoxSecretKey \<Rightarrow> bytes \<Rightarrow> nat \<Rightarrow> receiverKeysMaker \<Rightarrow> receiverKeys" where
  "sc_entry E eph key j r =
     \<lparr>ReceiverKID = sc_kid eph j r,
      PayloadKeyBox = secretboxSeal E key (nonceForPayloadKeyBoxV2 (of_nat j)) (sc_key eph r)\<rparr>"

lemma derived_key_Ok:
  assumes "box_lengths eph"
  shows "derivedEphemeralKeyFromBoxKeys pk eph = Ok (dkey eph pk)"
  using assms
  by (simp add: derivedEphemeralKeyFromBoxKeys_def nonceForDerivedSharedKey_Ok box_lengths_def
      polyOverhead_def dkey_def symmetricKeyFromSlice_def sliceToByte_def)

lemma derived_key_receiver:
  assumes "box_lengths eph" "box_pair eph sk"
  shows "derivedEphemeralKeyFromBoxKeys (boxGetPublicKey eph) sk = Ok (dkey eph (boxGetPublicKey sk))"
proof -
  have "boxBox sk (boxGetPublicKey eph) n m = boxBox eph (boxGetPublicKey sk) n m" for n m
    using assms(2) by (simp add: box_pair_def)
  then show ?thesis
    using derived_key_Ok [OF assms(1), of "boxGetPublicKey sk"]
    by (simp add: derivedEphemeralKeyFromBoxKeys_def)
qed

lemma derived_symmetric_key_Ok: "derived_symmetric_key (boxGetPublicKey eph) k = Ok (skey eph k)"
  by (simp add: derived_symmetric_key_def skey_def rawBoxKeyFromSlice_def sliceToByte_def)

lemma make_receivers_Ok:
  "box_lengths eph \<Longrightarrow> make_receivers E eph key i rs =
     Ok (map (\<lambda>(j, r). sc_entry E eph key j r) (enumerate i rs))"
proof (induction rs arbitrary: i)
  case (Cons r rs)
  have "makeReceiverKeys E eph key (of_nat i) r = Ok (sc_entry E eph key i r)"
    using Cons.prems by (cases r) (simp_all add: derived_key_Ok derived_symmetric_key_Ok sc_entry_def)
  with Cons show ?case by simp
qed simp

lemma derived_keys_Ok:
  "box_lengths eph \<Longrightarrow> \<forall>sk\<in>set sks. box_pair eph sk \<Longrightarrow>
     derived_keys (Some (boxGetPublicKey eph)) sks = Ok (map (\<lambda>sk. dkey eph (boxGetPublicKey sk)) sks)"
  by (induction sks) (simp_all add: derived_key_receiver)

text \<open>
  Identifiers do not collide: a key of the keyring recognises, at whatever position, only the
  entry of a receiver with the same derived key.
\<close>

definition no_collision :: "BoxSecretKey \<Rightarrow> BoxSecretKey list \<Rightarrow> receiverKeysMaker set \<Rightarrow> bool" where
  "no_collision eph sks makers \<longleftrightarrow>
     (\<forall>sk\<in>set sks. \<forall>r\<in>makers. \<forall>j.
        keyIdentifierFromDerivedKey (dkey eph (boxGetPublicKey sk)) (of_nat j) = sc_kid eph j r \<longrightarrow>
        sc_key eph r = dkey eph (boxGetPublicKey sk))"

lemma try_derived_keys_entry:
  assumes "secretbox_ok E" "length key = 32"
    and "\<forall>k\<in>set ks. keyIdentifierFromDerivedKey k (of_nat j) = sc_kid eph j r \<longrightarrow> sc_key eph r = k"
  shows "try_derived_keys E j (sc_entry E eph key j r) ks =
    Ok (if \<exists>k\<in>set ks. keyIdentifierFromDerivedKey k (of_nat j) = sc_kid eph j r then Some key else None)"
  using assms(3)
proof (induction ks)
  case (Cons k ks)
  show ?case
  proof (cases "keyIdentifierFromDerivedKey k (of_nat j) = sc_kid eph j r")
    case True
    then have "sc_key eph r = k" using Cons.prems by simp
    then have "secretboxOpen E (PayloadKeyBox (sc_entry E eph key j r))
        (nonceForPayloadKeyBoxV2 (of_nat j)) k = Some key"
      using assms(1) by (simp add: sc_entry_def secretbox_ok_def)
    then show ?thesis using True assms(2) by (simp add: sc_entry_def)
  next
    case False
    then show ?thesis using Cons by (simp add: sc_entry_def)
  qed
qed simp

lemma try_receivers_entries:
  assumes "secretbox_ok E" "length key = 32"
    and "\<forall>k\<in>set ks. \<forall>r\<in>set rs. \<forall>j. keyIdentifierFromDerivedKey k (of_nat j) = sc_kid eph j r \<longrightarrow>
           sc_key eph r = k"
  shows "try_receivers E ks i (map (\<lambda>(j, r). sc_entry E eph key j r) (enumerate i rs)) =
    Ok (if \<exists>(j, r)\<in>set (enumerate i rs). \<exists>k\<in>set ks.
             keyIdentifierFromDerivedKey k (of_nat j) = sc_kid eph j r then Some key else None)"
  using assms(3)
proof (induction rs arbitrary: i)
  case (Cons r rs)
  have "try_derived_keys E i (sc_entry E eph key i r) ks =
      Ok (if \<exists>k\<in>set ks. keyIdentifierFromDerivedKey k (of_nat i) = sc_kid eph i r then Some key else None)"
    using Cons.prems by (intro try_derived_keys_entry [OF assms(1,2)]) auto
  with Cons show ?case by simp
qed simp

text \<open>
  A resolver returns as many keys as it gets identifiers, and resolves the identifier of a
  receiver to the key of that receiver only.
\<close>

definition resolver_ok ::
  "SymmetricKeyResolver \<Rightarrow> BoxSecretKey \<Rightarrow> receiverKeysMaker set \<Rightarrow> bool" where
  "resolver_ok res eph makers \<longleftrightarrow>
     (\<forall>ids. \<exists>ks. res ids = Inr ks \<and> length ks = length ids \<and>
        (\<forall>i<length ids. \<forall>k. ks ! i = Some k \<longrightarrow>
           (\<forall>r\<in>makers. \<forall>j. sc_kid eph j r = ids ! i \<longrightarrow> sc_key eph r = skey eph k)))"

definition resolves :: "SymmetricKeyResolver \<Rightarrow> ReceiverSymmetricKey \<Rightarrow> bool" where
  "resolves res r \<longleftrightarrow>
     (\<forall>ids ks. res ids = Inr ks \<longrightarrow>
        (\<forall>i<length ids. ids ! i = RIdentifier r \<longrightarrow> ks ! i \<noteq> None))"

lemma try_resolved_entries:
  assumes box: "secretbox_ok E" and key: "length key = 32"
    and hdr: "Receivers hdr = map (\<lambda>(j, r). sc_entry E eph key j r) (enumerate 0 rs)"
    and own: "\<forall>i<length rs. \<forall>k. ks ! (i - n) = Some k \<longrightarrow> n \<le> i \<longrightarrow> sc_key eph (rs ! i) = skey eph k"
    and len: "n + length ks = length rs"
  shows "try_resolved E hdr (Some (boxGetPublicKey eph)) n ks =
    Ok (if \<exists>k\<in>set ks. k \<noteq> None then Some key else None)"
  using own len
proof (induction ks arbitrary: n)
  case (Cons k ks)
  have n: "n < length rs" using Cons.prems(2) by simp
  show ?case
  proof (cases k)
    case None
    have "\<forall>i<length rs. \<forall>k. ks ! (i - Suc n) = Some k \<longrightarrow> Suc n \<le> i \<longrightarrow> sc_key eph (rs ! i) = skey eph k"
      using Cons.prems(1) by (auto simp: nth_Cons' Suc_le_eq diff_Suc split: nat.splits)
    with Cons.IH [of "Suc n"] Cons.prems(2) None show ?thesis by simp
  next
    case (Some x)
    then have "sc_key eph (rs ! n) = skey eph x" using Cons.prems(1) n by simp
    then have "PayloadKeyBox (Receivers hdr ! n) =
        secretboxSeal E key (nonceForPayloadKeyBoxV2 (of_nat n)) (skey eph x)"
      using hdr n by (simp add: nth_enumerate_eq sc_entry_def)
    with Some box key show ?thesis
      by (simp add: derived_symmetric_key_Ok secretbox_ok_def)
  qed
qed simp

section \<open>The header\<close>

definition sender_kid :: "SigningSecretKey option \<Rightarrow> bytes" where
  "sender_kid sender =
     (case sender of
        None \<Rightarrow> replicate PublicKeySize 0
      | Some sk \<Rightarrow> (case sigGetPublicKey sk of Some pk \<Rightarrow> sigToKID pk | None \<Rightarrow> []))"

definition sc_header ::
  "env \<Rightarrow> SigningSecretKey option \<Rightarrow> BoxSecretKey \<Rightarrow> bytes \<Rightarrow> receiverKeysMaker list \<Rightarrow> SigncryptionHeader" where
  "sc_header E sender eph key rs =
     \<lparr>HFormatName = FormatName, HVersion = Version2, HType = MessageTypeSigncryption,
      Ephemeral = boxToKID (boxGetPublicKey eph),
      SenderSecretbox = secretboxSeal E (sender_kid sender) sender_nonce key,
      Receivers = map (\<lambda>(j, r). sc_entry E eph key j r) (enumerate 0 rs)\<rparr>"

definition signcrypted_message ::
  "env \<Rightarrow> SigningSecretKey option \<Rightarrow> BoxSecretKey \<Rightarrow> bytes \<Rightarrow> receiverKeysMaker list \<Rightarrow> bytes \<Rightarrow> bytes" where
  "signcrypted_message E sender eph key rs plaintext =
     (let hb = enc1 E (PEncryptionHeader (sc_header E sender eph key rs))
      in enc1 E (PBytes hb) @
         sc_encode E key sender (sha512 hb) 0 (message_blocks Version2 encryptionBlockSize plaintext))"

lemma sender_secretbox_Ok:
  "sender_ok sender spk \<Longrightarrow>
     sender_secretbox E sender key = Ok (secretboxSeal E (sender_kid sender) sender_nonce key)"
  by (auto simp: sender_secretbox_def nonceForSenderKeySecretBox_Ok sender_nonce_def sender_kid_def
      sender_ok_def signs_for_def split: option.splits)

lemma signcrypt_start_Ok:
  assumes codec: "codec_ok E" and len: "box_lengths eph" and sender: "sender_ok sender spk"
  shows "signcrypt_start E (newEncoder E) w sender eph key rs =
    (let hb = enc1 E (PEncryptionHeader (sc_header E sender eph key rs))
     in Ok \<lparr>ssVersion = Version2, ssEncoder = w @ enc1 E (PBytes hb), ssEncryptionKey = key,
            ssSigningKey = sender, ssBuffer = [], ssHeaderHash = sha512 hb, ssNumBlocks = 0, ssErr = None\<rparr>)"
proof -
  have "signcryption_header E Version2 sender eph key rs = Ok (sc_header E sender eph key rs)"
    by (simp add: signcryption_header_def sender_secretbox_Ok [OF sender] make_receivers_Ok [OF len]
        sc_header_def)
  then show ?thesis
    by (simp add: signcrypt_start_def Let_def marshal_enc1 [OF codec] newEncoder_ok [OF codec])
qed

text \<open>The interface \<open>signcryptRNG\<close>, with the same laws as \<open>encryptRNG\<close>.\<close>

locale signcrypt_rng =
  fixes rng :: "'r signcryptRNG"
  assumes shuffle_perm: "scShuffleReceivers rng boxKeys symmetricKeys r = Ret (Inr rs) r' \<Longrightarrow>
      mset rs = mset (map receiverBoxKey boxKeys @ map receiverSymmetric symmetricKeys)"
    and key_length: "scCreateSymmetricKey rng r = (Inr k, r') \<Longrightarrow> length k = 32"
begin

lemma signcryptSeal_message:
  assumes codec: "codec_ok E" and box: "secretbox_ok E"
    and receivers: "checkSigncryptReceivers boxKeys symmetricKeys = Ok ()"
    and run: "scShuffleReceivers rng boxKeys symmetricKeys r = Ret (Inr rs) r1"
      "create r1 = (Inr eph, r2)" "scCreateSymmetricKey rng r2 = (Inr key, r3)"
    and len: "box_lengths eph" and sender: "sender_ok sender spk" and short: "length plaintext < 2 ^ 64 - 1"
  shows "signcryptSeal E plaintext sender boxKeys symmetricKeys create rng r =
      Ok (signcrypted_message E sender eph key rs plaintext)"
    and "length key = 32" and "set rs = receiverBoxKey ` set boxKeys \<union> receiverSymmetric ` set symmetricKeys"
proof -
  show "length key = 32" using key_length [OF run(3)] .
  show "set rs = receiverBoxKey ` set boxKeys \<union> receiverSymmetric ` set symmetricKeys"
    using mset_eq_setD [OF shuffle_perm [OF run(1)]] by simp
  let ?hb = "enc1 E (PEncryptionHeader (sc_header E sender eph key rs))"
  let ?s = "\<lparr>ssVersion = Version2, ssEncoder = enc1 E (PBytes ?hb), ssEncryptionKey = key,
      ssSigningKey = sender, ssBuffer = [], ssHeaderHash = sha512 ?hb, ssNumBlocks = 0, ssErr = None\<rparr>"
  have new: "newSigncryptSealStream E (newEncoder E) [] sender boxKeys symmetricKeys create rng r = Ret (Inr ?s) r3"
    using receivers run signcrypt_start_Ok [OF codec len sender, of "[]" key rs]
    by (simp add: newSigncryptSealStream_def signcryptSealStream_init_def Let_def)
  have "ss_good E (newEncoder E) (?s\<lparr>ssBuffer := plaintext\<rparr>)"
    using box short sender writes_all_newEncoder [OF codec] by (auto simp: ss_good_def)
  from signcrypt_write_close [OF this]
  obtain s1 where "signcryptSealStream_Write E (newEncoder E) plaintext ?s = Ret (length plaintext, None) s1"
    "signcryptSealStream_Close E (newEncoder E) s1 =
       Ret None (ss_emits E (newEncoder E) (message_blocks Version2 encryptionBlockSize plaintext) ?s)"
    by (auto simp: writes_close_def signcryptSealStream_Write_def split: go.splits option.splits)
  then show "signcryptSeal E plaintext sender boxKeys symmetricKeys create rng r =
      Ok (signcrypted_message E sender eph key rs plaintext)"
    by (simp add: signcryptSeal_def new signcrypted_message_def Let_def ss_emits_encode [OF codec])
qed

end

interpretation default_sc_rng: signcrypt_rng defaultSigncryptRNG
proof
  show "scShuffleReceivers defaultSigncryptRNG bs ss r = Ret (Inr rs) r' \<Longrightarrow>
      mset rs = mset (map receiverBoxKey bs @ map receiverSymmetric ss)" for bs ss r rs r'
    by (auto simp: defaultSigncryptRNG_def shuffleSigncryptReceivers_def dest!: shuffle_list_mset
        split: go.splits option.splits)
  show "scCreateSymmetricKey defaultSigncryptRNG r = (Inr k, r') \<Longrightarrow> length k = 32" for r k r'
    using default_rng.key_length [of r k r'] by (simp add: defaultSigncryptRNG_def defaultEncryptRNG_def)
qed

section \<open>Opening\<close>

text \<open>
  The keys of a message and of its reader: the sender's signing key, the ephemeral key, and a
  keyring or a resolver that knows one of the receivers.
\<close>

definition sc_keys_ok ::
  "SigningSecretKey option \<Rightarrow> SigningPublicKey option \<Rightarrow> BoxSecretKey \<Rightarrow> SigncryptKeyring \<Rightarrow>
     SymmetricKeyResolver option \<Rightarrow> receiverKeysMaker set \<Rightarrow> bool" where
  "sc_keys_ok sender spk eph keyring resolver makers \<longleftrightarrow>
     sender_ok sender spk \<and> box_lengths eph \<and>
     (\<forall>sk\<in>set (GetAllBoxSecretKeys keyring). box_pair eph sk) \<and>
     ImportBoxEphemeralKey keyring (boxToKID (boxGetPublicKey eph)) = Some (boxGetPublicKey eph) \<and>
     (\<forall>pk. spk = Some pk \<longrightarrow> LookupSigningPublicKey keyring (sigToKID pk) = Some pk) \<and>
     no_collision eph (GetAllBoxSecretKeys keyring) makers \<and>
     (\<forall>res. resolver = Some res \<longrightarrow> resolver_ok res eph makers) \<and>
     ((\<exists>sk\<in>set (GetAllBoxSecretKeys keyring). receiverBoxKey (boxGetPublicKey sk) \<in> makers) \<or>
      (\<exists>res r. resolver = Some res \<and> receiverSymmetric r \<in> makers \<and> resolves res r))"

lemma finds_payload_key:
  assumes box: "secretbox_ok E" and key: "length key = 32"
    and keys: "sc_keys_ok sender spk eph keyring resolver (set rs)"
  defines "hdr \<equiv> sc_header E sender eph key rs"
  shows "tryBoxSecretKeys E keyring hdr (Some (boxGetPublicKey eph)) = Ok (Some key) \<or>
    tryBoxSecretKeys E keyring hdr (Some (boxGetPublicKey eph)) = Ok None \<and>
    trySharedSymmetricKeys E resolver hdr (Some (boxGetPublicKey eph)) = Ok (Some key)"
proof -
  let ?sks = "GetAllBoxSecretKeys keyring"
  let ?ks = "map (\<lambda>sk. dkey eph (boxGetPublicKey sk)) ?sks"
  let ?match = "\<exists>(j, r)\<in>set (enumerate 0 rs). \<exists>k\<in>set ?ks.
      keyIdentifierFromDerivedKey k (of_nat j) = sc_kid eph j r"
  have hdr: "Receivers hdr = map (\<lambda>(j, r). sc_entry E eph key j r) (enumerate 0 rs)"
    by (simp add: hdr_def sc_header_def)
  have own: "\<forall>k\<in>set ?ks. \<forall>r\<in>set rs. \<forall>j. keyIdentifierFromDerivedKey k (of_nat j) = sc_kid eph j r \<longrightarrow>
      sc_key eph r = k"
    using keys by (simp add: sc_keys_ok_def no_collision_def)
  have "derived_keys (Some (boxGetPublicKey eph)) ?sks = Ok ?ks"
    using keys by (intro derived_keys_Ok) (simp_all add: sc_keys_ok_def)
  then have boxed: "tryBoxSecretKeys E keyring hdr (Some (boxGetPublicKey eph)) =
      Ok (if ?match then Some key else None)"
    unfolding tryBoxSecretKeys_def hdr
    using try_receivers_entries [OF box key own, of 0] by simp
  show ?thesis
  proof (cases ?match)
    case False
    have "\<not> (\<exists>sk\<in>set ?sks. receiverBoxKey (boxGetPublicKey sk) \<in> set rs)"
    proof (intro notI, elim bexE)
      fix sk
      assume sk: "sk \<in> set ?sks" "receiverBoxKey (boxGetPublicKey sk) \<in> set rs"
      then obtain j where "j < length rs" "rs ! j = receiverBoxKey (boxGetPublicKey sk)"
        by (auto simp: in_set_conv_nth)
      then have "(j, receiverBoxKey (boxGetPublicKey sk)) \<in> set (enumerate 0 rs)"
        by (simp add: in_set_enumerate_eq)
      with False sk(1) show False by fastforce
    qed
    then obtain res r where res: "resolver = Some res" "receiverSymmetric r \<in> set rs" "resolves res r"
      and ok: "resolver_ok res eph (set rs)"
      using keys unfolding sc_keys_ok_def by blast
    let ?ids = "map ReceiverKID (Receivers hdr)"
    have ids: "length ?ids = length rs" "\<forall>i<length rs. ?ids ! i = sc_kid eph i (rs ! i)"
      by (simp_all add: hdr nth_enumerate_eq sc_entry_def)
    obtain ks where ks: "res ?ids = Inr ks" "length ks = length ?ids"
      and res_own: "\<forall>i<length ?ids. \<forall>k. ks ! i = Some k \<longrightarrow>
          (\<forall>r\<in>set rs. \<forall>j. sc_kid eph j r = ?ids ! i \<longrightarrow> sc_key eph r = skey eph k)"
      using ok unfolding resolver_ok_def by blast
    have "\<forall>i<length rs. \<forall>k. ks ! (i - 0) = Some k \<longrightarrow> 0 \<le> i \<longrightarrow> sc_key eph (rs ! i) = skey eph k"
      using res_own ids by (metis diff_zero nth_mem)
    from try_resolved_entries [OF box key hdr this] ks ids
    have "try_resolved E hdr (Some (boxGetPublicKey eph)) 0 ks =
        Ok (if \<exists>k\<in>set ks. k \<noteq> None then Some key else None)" by simp
    moreover have "\<exists>k\<in>set ks. k \<noteq> None"
    proof -
      obtain i where "i < length rs" "rs ! i = receiverSymmetric r"
        using res(2) by (auto simp: in_set_conv_nth)
      with ids res(3) ks show ?thesis unfolding resolves_def by (metis nth_mem sc_kid.simps(2))
    qed
    ultimately have "trySharedSymmetricKeys E resolver hdr (Some (boxGetPublicKey eph)) = Ok (Some key)"
      using ks res(1) by (simp add: trySharedSymmetricKeys_def)
    with boxed False show ?thesis by simp
  qed (use boxed in simp)
qed

lemma signcrypt_processHeader_ready:
  assumes box: "secretbox_ok E" and key: "length key = 32"
    and keys: "sc_keys_ok sender spk eph keyring resolver (set rs)"
    and s: "soHeaderHash s = hh" "length hh = 64" "soSigningPublicKey s = None" "\<not> soSenderAnonymous s"
  obtains s' where
    "signcrypt_processHeader E keyring resolver (sc_header E sender eph key rs) s = Ok s'"
    "so_ready key spk hh s'" "soMps s' = soMps s"
proof -
  let ?h = "sc_header E sender eph key rs"
  let ?s = "s\<lparr>soPayloadKey := Some key\<rparr>"
  have valid: "SigncryptionHeader_validate ?h = None"
    "ImportBoxEphemeralKey keyring (Ephemeral ?h) = Some (boxGetPublicKey eph)"
    using keys by (simp_all add: SigncryptionHeader_validate_def sc_header_def sc_keys_ok_def)
  have opened: "secretboxOpen E (SenderSecretbox ?h) sender_nonce key = Some (sender_kid sender)"
    using box by (simp add: sc_header_def secretbox_ok_def)
  obtain s' where s': "signcrypt_sender E keyring ?h key ?s = Ok s'" "so_ready key spk hh s'" "soMps s' = soMps s"
  proof (cases sender)
    case None
    then have "spk = None" using keys by (simp add: sc_keys_ok_def sender_ok_def)
    with None opened s show thesis
      by (intro that [of "?s\<lparr>soSenderAnonymous := True\<rparr>"])
        (simp_all add: signcrypt_sender_def nonceForSenderKeySecretBox_Ok sender_nonce_def
          sender_kid_def so_ready_def)
  next
    case (Some sk)
    then obtain pk where pk: "spk = Some pk" "sender_kid sender = sigToKID pk"
      "length (sigToKID pk) = PublicKeySize" "sigToKID pk \<noteq> replicate PublicKeySize 0"
      "LookupSigningPublicKey keyring (sigToKID pk) = Some pk"
      using keys by (auto simp: sc_keys_ok_def sender_ok_def sender_kid_def signs_for_def)
    with opened s show thesis
      by (intro that [of "?s\<lparr>soSigningPublicKey := Some pk\<rparr>"])
        (simp_all add: signcrypt_sender_def nonceForSenderKeySecretBox_Ok sender_nonce_def so_ready_def)
  qed
  show thesis
    using finds_payload_key [OF box key keys] s'
    by (intro that [of s']) (auto simp: signcrypt_processHeader_def valid Let_def)
qed

lemma Open_signcrypted_message:
  assumes codec: "codec_ok E" and box: "secretbox_ok E" and grow: "\<forall>c. c < grow c"
    and key: "length key = 32" and keys: "sc_keys_ok sender spk eph keyring resolver (set rs)"
    and short: "length plaintext < 2 ^ 64 - 1"
  shows "SigncryptOpen E grow (signcrypted_message E sender eph key rs plaintext) keyring resolver =
    Some (Ok (spk, plaintext))"
proof -
  let ?hb = "enc1 E (PEncryptionHeader (sc_header E sender eph key rs))"
  let ?hh = "sha512 ?hb" and ?bs = "message_blocks Version2 encryptionBlockSize plaintext"
  let ?msg = "signcrypted_message E sender eph key rs plaintext"
  let ?mps = "\<lparr>decoder = \<lparr>pending = sc_encode E key sender ?hh 0 ?bs, ends = EOF\<rparr>, mpsSeqno = 1\<rparr>"
  let ?s0 = "(new_open_stream (bytes_input ?msg))\<lparr>soMps := ?mps, soHeaderHash := ?hh\<rparr>"
  have rd: "mpsRead (decBytes E) (soMps (new_open_stream (bytes_input ?msg))) = (Inr (?hb, 0), ?mps)"
    using mpsRead_encoded [OF codec_okD(2) [OF codec] marshal_enc1 [OF codec]]
    by (simp add: new_open_stream_def newMsgpackStream_def bytes_input_def signcrypted_message_def Let_def)
  obtain s where s: "signcrypt_processHeader E keyring resolver (sc_header E sender eph key rs) ?s0 = Ok s"
    "so_ready key spk ?hh s" "soMps s = soMps ?s0"
    by (rule signcrypt_processHeader_ready [OF box key keys, of ?s0 ?hh])
      (simp_all add: new_open_stream_def)
  have hdr: "signcrypt_readHeader E keyring resolver (new_open_stream (bytes_input ?msg)) = Ok s"
    using rd s(1) codec_okD(9) [OF codec marshal_enc1 [OF codec]] by (simp add: signcrypt_readHeader_def)
  have wf: "wf_blocks Version2 0 ?bs" by (intro message_blocks_wf) simp_all
  have "length ?bs \<le> 2 ^ 64 - 1"
    using length_message_blocks [of encryptionBlockSize Version2 plaintext] short by simp
  moreover have "sender_ok sender spk" using keys by (simp add: sc_keys_ok_def)
  ultimately have "\<forall>k<length ?bs. codec_ok E \<and> secretbox_ok E \<and> so_ready key spk ?hh s \<and>
      sender_ok sender spk \<and> unat (0 + of_nat k :: 64 word) < 2 ^ 64 - 1"
    using room_from_zero codec box s(2) by blast
  from sbr.reads_all [OF wf this] obtain s' where
    "emits (signcrypt_getNextChunk E) (s\<lparr>soMps := ?mps\<rparr>) (map fst ?bs) EOF s'" by auto
  moreover have "s\<lparr>soMps := ?mps\<rparr> = s" using s(3) by (cases s) simp
  ultimately have em: "emits (signcrypt_getNextChunk E) s (map fst ?bs) EOF s'" by simp
  have "soSigningPublicKey s = spk" using s(2) by (simp add: so_ready_def)
  with ReadAll_emits [OF em grow] hdr show ?thesis
    by (auto simp: SigncryptOpen_def NewSigncryptOpenStream_def concat_message_blocks)
qed

end
