(* ===== verification/Signcrypt_Props.thy ===== *)
theory Signcrypt_Props
  imports Signcrypt_Roundtrip Encrypt_Props
begin

text \<open>
  The properties of signcryption: round trip, what an opened message guarantees, termination,
  independence of the writes, and a header that makes the reader panic.
\<close>

section \<open>Example keys\<close>

text \<open>A signing key whose signatures have the length of an Ed25519 signature: a hash with the key.\<close>

definition toy_sigpk64 :: "byte \<Rightarrow> SigningPublicKey" where
  "toy_sigpk64 k = \<lparr>sigToKID = replicate 32 k,
     sigVerify = (\<lambda>m s. if s = sha512 (k # m) then None else Some ErrBadSignature)\<rparr>"

definition toy_sigsk64 :: "byte \<Rightarrow> SigningSecretKey" where
  "toy_sigsk64 k = \<lparr>sigSign = (\<lambda>m. Inr (sha512 (k # m))), sigGetPublicKey = Some (toy_sigpk64 k)\<rparr>"

lemma toy_sender_ok: "sender_ok (Some (toy_sigsk64 5)) (Some (toy_sigpk64 5))"
  by (simp add: sender_ok_def signs_for_def toy_sigsk64_def toy_sigpk64_def SignatureSize_def
      PublicKeySize_def)

text \<open>A keyring without box keys, and a resolver that knows one symmetric key.\<close>

definition toy_sc_ring :: "SigncryptKeyring" where
  "toy_sc_ring =
     \<lparr>LookupBoxSecretKey = (\<lambda>_. (-1, None)), LookupBoxPublicKey = (\<lambda>_. None), GetAllBoxSecretKeys = [],
      ImportBoxEphemeralKey = (\<lambda>kid. Some (toy_boxpk (kid ! 0) False)),
      LookupSigningPublicKey = (\<lambda>kid. Some (toy_sigpk64 (kid ! 0)))\<rparr>"

definition toy_resolver :: "ReceiverSymmetricKey \<Rightarrow> SymmetricKeyResolver" where
  "toy_resolver r ids = Inr (map (\<lambda>kid. if kid = RIdentifier r then Some (RKey r) else None) ids)"

definition toy_receiver :: ReceiverSymmetricKey where
  "toy_receiver = \<lparr>RKey = replicate 32 8, RIdentifier = [1, 2, 3]\<rparr>"

lemma toy_sc_keys_ok:
  "sc_keys_ok (Some (toy_sigsk64 5)) (Some (toy_sigpk64 5)) (toy_boxsk 9 False) toy_sc_ring
     (Some (toy_resolver toy_receiver)) {receiverSymmetric toy_receiver}"
proof -
  have "resolver_ok (toy_resolver toy_receiver) (toy_boxsk 9 False) {receiverSymmetric toy_receiver}"
    by (simp add: resolver_ok_def toy_resolver_def)
  moreover have "resolves (toy_resolver toy_receiver) toy_receiver"
    by (auto simp: resolves_def toy_resolver_def)
  ultimately show ?thesis
    by (simp add: sc_keys_ok_def toy_sender_ok toy_box_lengths toy_sc_ring_def no_collision_def)
      (simp add: toy_sigpk64_def)
qed

section \<open>Round trip\<close>

lemma signcrypted_opens:
  assumes codec: "codec_ok E" and box: "secretbox_ok E" and grow: "\<forall>c. c < grow c"
    and receivers: "checkSigncryptReceivers boxKeys symmetricKeys = Ok ()"
    and run: "shuffleSigncryptReceivers boxKeys symmetricKeys rand = Ret (Inr rs) r1"
      "create r1 = (Inr eph, r2)" "newRandomSymmetricKey r2 = (Inr key, r3)"
    and keys: "sc_keys_ok sender spk eph keyring resolver
      (receiverBoxKey ` set boxKeys \<union> receiverSymmetric ` set symmetricKeys)"
    and short: "length plaintext < 2 ^ 64 - 1"
  shows "\<exists>msg. SigncryptSeal E plaintext create sender boxKeys symmetricKeys rand = Ok msg \<and>
    SigncryptOpen E grow msg keyring resolver = Some (Ok (spk, plaintext))"
proof -
  have len: "box_lengths eph" "sender_ok sender spk" using keys by (simp_all add: sc_keys_ok_def)
  note sealed = default_sc_rng.signcryptSeal_message [where create = create and r = rand,
      OF codec box receivers _ run(2) _ len short, unfolded defaultSigncryptRNG_def signcryptRNG.select_convs,
      OF run(1,3)]
  have "sc_keys_ok sender spk eph keyring resolver (set rs)" using keys sealed(3) by simp
  from Open_signcrypted_message [OF codec box grow sealed(2) this short]
  show ?thesis using sealed(1) by (simp add: SigncryptSeal_def defaultSigncryptRNG_def)
qed

lemma toy_sc_receivers: "checkSigncryptReceivers [] [toy_receiver] = Ok ()"
  by (simp add: checkSigncryptReceivers_def checkSigncryptReceiverCount_def maxReceiverCount_def)

lemma toy_sc_shuffle:
  "shuffleSigncryptReceivers [] [toy_receiver] (bytes_input (replicate 32 1)) =
     Ret (Inr [receiverSymmetric toy_receiver]) (bytes_input (replicate 32 1))"
  by (simp add: shuffleSigncryptReceivers_def shuffle_list_def csprngShuffle_def)

lemma toy_sc_round_trip:
  "\<exists>msg. SigncryptSeal toy_env [1, 2, 3] (\<lambda>r. (Inr (toy_boxsk 9 False), r)) (Some (toy_sigsk64 5)) []
       [toy_receiver] (bytes_input (replicate 32 1)) = Ok msg \<and>
     SigncryptOpen toy_env Suc msg toy_sc_ring (Some (toy_resolver toy_receiver)) =
       Some (Ok (Some (toy_sigpk64 5), [1, 2, 3]))"
proof (rule signcrypted_opens [OF _ _ _ toy_sc_receivers toy_sc_shuffle _ toy_key])
  show "sc_keys_ok (Some (toy_sigsk64 5)) (Some (toy_sigpk64 5)) (toy_boxsk 9 False) toy_sc_ring
     (Some (toy_resolver toy_receiver)) (receiverBoxKey ` set [] \<union> receiverSymmetric ` set [toy_receiver])"
    using toy_sc_keys_ok by simp
qed simp_all

text \<open>
  C5: a signcrypted message opens. Whoever holds the key of one of the receivers, a box key in
  the keyring or a symmetric key behind the resolver, opens what \<open>SigncryptSeal\<close> returns to the
  plaintext and learns the sender's key, or that the sender is anonymous, in whatever order the
  shuffle puts the receivers.
\<close>

theorem SigncryptOpen_SigncryptSeal:
  assumes codec: "codec_ok E" and box: "secretbox_ok E" and grow: "\<forall>c. c < grow c"
    and receivers: "checkSigncryptReceivers boxKeys symmetricKeys = Ok ()"
    and run: "shuffleSigncryptReceivers boxKeys symmetricKeys rand = Ret (Inr rs) r1"
      "create r1 = (Inr eph, r2)" "newRandomSymmetricKey r2 = (Inr key, r3)"
    and keys: "sc_keys_ok sender spk eph keyring resolver
      (receiverBoxKey ` set boxKeys \<union> receiverSymmetric ` set symmetricKeys)"
    and short: "length plaintext < 2 ^ 64 - 1"
  shows "\<exists>msg. SigncryptSeal E plaintext create sender boxKeys symmetricKeys rand = Ok msg \<and>
    SigncryptOpen E grow msg keyring resolver = Some (Ok (spk, plaintext))"
  using assms by (rule signcrypted_opens)

theorem SigncryptOpen_SigncryptSeal_witness:
  "\<exists>msg. SigncryptSeal toy_env [1, 2, 3] (\<lambda>r. (Inr (toy_boxsk 9 False), r)) (Some (toy_sigsk64 5)) []
       [toy_receiver] (bytes_input (replicate 32 1)) = Ok msg \<and>
     SigncryptOpen toy_env Suc msg toy_sc_ring (Some (toy_resolver toy_receiver)) =
       Some (Ok (Some (toy_sigpk64 5), [1, 2, 3]))"
proof (rule SigncryptOpen_SigncryptSeal [OF _ _ _ toy_sc_receivers toy_sc_shuffle _ toy_key])
  show "sc_keys_ok (Some (toy_sigsk64 5)) (Some (toy_sigpk64 5)) (toy_boxsk 9 False) toy_sc_ring
     (Some (toy_resolver toy_receiver)) (receiverBoxKey ` set [] \<union> receiverSymmetric ` set [toy_receiver])"
    using toy_sc_keys_ok by simp
qed simp_all

section \<open>What an opened message guarantees\<close>

text \<open>
  A packet and the block it was read as: the ciphertext opens under the payload key with the
  nonce of its position and its final flag to a signature and the chunk, and unless the sender is
  anonymous the signature is valid for this header, nonce, flag and chunk.
\<close>

definition sc_opened ::
  "env \<Rightarrow> bytes \<Rightarrow> SigningPublicKey option \<Rightarrow> bytes \<Rightarrow> encryptionBlockNumber \<Rightarrow>
     signcryptionBlock \<times> bytes \<times> bool \<Rightarrow> bool" where
  "sc_opened E key spk hh i pb \<longleftrightarrow>
     (case pb of (sb, c, f) \<Rightarrow> SCIsFinal sb = f \<and>
        (\<exists>sig. secretboxOpen E (SCPayloadCiphertext sb) (sc_nonce hh f i) key = Some (sig @ c) \<and>
           length sig = 64 \<and>
           (\<forall>pk. spk = Some pk \<longrightarrow>
              sigVerify pk (computeSigncryptionSignatureInput hh (sc_nonce hh f i) f c) sig = None)))"

definition sc_block :: "env \<Rightarrow> msgpackStream \<Rightarrow> (signcryptionBlock \<times> msgpackStream) option" where
  "sc_block E mps =
     (case mpsRead (decSigncryption E) mps of (Inr (sb, _), mps') \<Rightarrow> Some (sb, mps') | _ \<Rightarrow> None)"

lemma processBlock_opened:
  assumes "so_ready key spk hh s"
    and "signcrypt_processBlock E s (SCPayloadCiphertext sb) (SCIsFinal sb) q = Ok c"
  shows "sc_opened E key spk hh (q - 1) (sb, c, SCIsFinal sb)"
proof -
  let ?f = "SCIsFinal sb" and ?ct = "SCPayloadCiphertext sb"
  have s: "soHeaderHash s = hh" "soPayloadKey s = Some key" "soSigningPublicKey s = spk"
    "soSenderAnonymous s = (spk = None)" and len: "16 \<le> length hh"
    using assms(1) by (simp_all add: so_ready_def)
  from assms(2) obtain m where m: "secretboxOpen E ?ct (sc_nonce hh ?f (q - 1)) key = Some m"
    "\<not> length m < SignatureSize" "c = drop SignatureSize m"
    "\<forall>pk. spk = Some pk \<longrightarrow> sigVerify pk (computeSigncryptionSignatureInput hh (sc_nonce hh ?f (q - 1)) ?f c)
       (take SignatureSize m) = None"
    unfolding signcrypt_processBlock_def s nonceForChunkSigncryption_Ok [OF len]
    by (auto simp: Let_def sliceToByte_def SignatureSize_def split: option.splits if_splits)
  then show ?thesis
    unfolding sc_opened_def prod.case
    by (intro conjI exI [of _ "take SignatureSize m"]) (simp_all add: SignatureSize_def)
qed

interpretation sbs: block_source E "signcrypt_getNextChunk E" soMps "sc_block E" Version2
  "so_ready key spk hh" "sc_opened E key spk hh" for E key spk hh
proof
  fix s c s'
  assume ok: "so_ready key spk hh s" and "signcrypt_getNextChunk E s = Ret (c, None) s'"
  then obtain sb q mps where r: "mpsRead (decSigncryption E) (soMps s) = (Inr (sb, q), mps)"
    and b: "signcrypt_processBlock E s (SCPayloadCiphertext sb) (SCIsFinal sb) q = Ok c"
      "chunk_rule Version2 (length c) (q - 1) False" "\<not> SCIsFinal sb" "s' = s\<lparr>soMps := mps\<rparr>"
    by (auto elim: signcrypt_next)
  with ok mpsRead_seqno [OF r] processBlock_opened [OF ok b(1)]
  show "\<exists>p. so_ready key spk hh s' \<and> mpsSeqno (soMps s') = mpsSeqno (soMps s) + 1 \<and>
      sc_block E (soMps s) = Some (p, soMps s') \<and>
      chunk_rule Version2 (length c) (mpsSeqno (soMps s) - 1) False \<and>
      sc_opened E key spk hh (mpsSeqno (soMps s) - 1) (p, c, False)"
    by (intro exI [of _ sb]) (simp add: so_ready_def sc_block_def)
next
  fix s c s'
  assume ok: "so_ready key spk hh s" and "signcrypt_getNextChunk E s = Ret (c, Some EOF) s'"
  then obtain sb q mps where r: "mpsRead (decSigncryption E) (soMps s) = (Inr (sb, q), mps)"
    and b: "signcrypt_processBlock E s (SCPayloadCiphertext sb) (SCIsFinal sb) q = Ok c"
      "chunk_rule Version2 (length c) (q - 1) True" "SCIsFinal sb" "fst (assertEndOfStream E mps) = EOF"
    by (auto elim: signcrypt_next)
  with mpsRead_seqno [OF r] processBlock_opened [OF ok b(1)]
  show "\<exists>p m. sc_block E (soMps s) = Some (p, m) \<and> fst (assertEndOfStream E m) = EOF \<and>
      chunk_rule Version2 (length c) (mpsSeqno (soMps s) - 1) True \<and>
      sc_opened E key spk hh (mpsSeqno (soMps s) - 1) (p, c, True)"
    by (intro exI [of _ sb]) (simp add: sc_block_def)
qed

text \<open>What the header has to say for the sender's key to be returned.\<close>

definition sc_sender_named :: "SigncryptKeyring \<Rightarrow> bytes \<Rightarrow> SigningPublicKey option \<Rightarrow> bool" where
  "sc_sender_named keyring kid spk \<longleftrightarrow>
     (if kid = replicate (length kid) 0 then spk = None
      else spk \<noteq> None \<and> LookupSigningPublicKey keyring kid = spk)"

lemma signcrypt_processHeader_sound:
  assumes "signcrypt_processHeader E keyring resolver h s = Ok s'"
    and "soSigningPublicKey s = None" "\<not> soSenderAnonymous s" "length (soHeaderHash s) = 64"
  obtains key kid where "SigncryptionHeader_validate h = None"
    "secretboxOpen E (SenderSecretbox h) sender_nonce key = Some kid"
    "sc_sender_named keyring kid (soSigningPublicKey s')"
    "so_ready key (soSigningPublicKey s') (soHeaderHash s) s'" "soMps s' = soMps s"
proof -
  from assms(1) have valid: "SigncryptionHeader_validate h = None"
    by (simp add: signcrypt_processHeader_def split: option.splits)
  with assms(1) obtain key where
    "signcrypt_sender E keyring h key (s\<lparr>soPayloadKey := Some key\<rparr>) = Ok s'"
    by (auto simp: signcrypt_processHeader_def Let_def split: option.splits)
  with assms(2-) obtain kid where
    "secretboxOpen E (SenderSecretbox h) sender_nonce key = Some kid"
    "sc_sender_named keyring kid (soSigningPublicKey s')"
    "so_ready key (soSigningPublicKey s') (soHeaderHash s) s'" "soMps s' = soMps s"
    by (auto simp: signcrypt_sender_def nonceForSenderKeySecretBox_Ok sender_nonce_def
        sc_sender_named_def so_ready_def split: option.splits if_splits)
  with valid show thesis by (rule that)
qed

lemma signcrypt_readHeader_sound:
  assumes "signcrypt_readHeader E keyring resolver (new_open_stream r) = Ok s"
  obtains headerBytes h key kid where
    "mpsRead (decBytes E) (newMsgpackStream r) = (Inr (headerBytes, 0), soMps s)"
    "unmarshalEncryptionHeader E headerBytes = Inr h" "SigncryptionHeader_validate h = None"
    "secretboxOpen E (SenderSecretbox h) sender_nonce key = Some kid"
    "sc_sender_named keyring kid (soSigningPublicKey s)"
    "so_ready key (soSigningPublicKey s) (sha512 headerBytes) s" "mpsSeqno (soMps s) = 1"
proof -
  from assms obtain headerBytes q mps h where
    rd: "mpsRead (decBytes E) (newMsgpackStream r) = (Inr (headerBytes, q), mps)"
    and h: "unmarshalEncryptionHeader E headerBytes = Inr h"
    and ph: "signcrypt_processHeader E keyring resolver h
      ((new_open_stream r)\<lparr>soMps := mps, soHeaderHash := sha512 headerBytes\<rparr>) = Ok s"
    by (auto simp: signcrypt_readHeader_def new_open_stream_def split: prod.splits sum.splits)
  have "q = 0" "mpsSeqno mps = 1"
    using mpsRead_seqno [OF rd] by (simp_all add: newMsgpackStream_def)
  with that [OF _ h] rd show thesis
    by - (rule signcrypt_processHeader_sound [OF ph], auto simp: new_open_stream_def)
qed

lemma SigncryptOpen_Ok:
  assumes "SigncryptOpen E grow msg keyring resolver = Some (Ok (spk, plaintext))"
  obtains s r where "signcrypt_readHeader E keyring resolver (new_open_stream (bytes_input msg)) = Ok s"
    "soSigningPublicKey s = spk"
    "ReadAll grow (chunkReader_Read (signcrypt_getNextChunk E)) (newChunkReader s) = Some (Ret (plaintext, None) r)"
proof -
  from assms obtain s where s: "signcrypt_readHeader E keyring resolver (new_open_stream (bytes_input msg)) = Ok s"
    by (auto simp: SigncryptOpen_def NewSigncryptOpenStream_def split: outcome.splits)
  let ?all = "ReadAll grow (chunkReader_Read (signcrypt_getNextChunk E)) (newChunkReader s)"
  from assms s obtain res where "?all = Some res" by (auto simp: SigncryptOpen_def NewSigncryptOpenStream_def)
  with assms s show thesis
    by (cases res) (auto simp: SigncryptOpen_def NewSigncryptOpenStream_def intro: that split: option.splits)
qed

text \<open>
  C4: what \<open>SigncryptOpen\<close> returns was sealed as a whole by the sender it names. The message is a
  valid header packet, whose sender box opens under the payload key to the returned signing key
  (to zeros for an anonymous sender), then block packets and nothing else; each opens under the
  payload key for its position and flag, and for a named sender carries a signature for this
  header, position and flag; they form a complete sequence that ends with the only final one, and
  their chunks make up the plaintext.
\<close>

theorem SigncryptOpen_sound:
  assumes "SigncryptOpen E grow msg keyring resolver = Some (Ok (spk, plaintext))"
  shows "\<exists>headerBytes mps h key kid ps bs.
    mpsRead (decBytes E) (newMsgpackStream (bytes_input msg)) = (Inr (headerBytes, 0), mps) \<and>
    unmarshalEncryptionHeader E headerBytes = Inr h \<and> SigncryptionHeader_validate h = None \<and>
    secretboxOpen E (SenderSecretbox h) sender_nonce key = Some kid \<and> sc_sender_named keyring kid spk \<and>
    parsed E (sc_block E) mps ps \<and> length ps = length bs \<and>
    all_from (sc_opened E key spk (sha512 headerBytes)) 0 (zip ps bs) \<and>
    wf_blocks Version2 0 bs \<and> plaintext = concat (map fst bs)"
proof -
  obtain s r where s: "signcrypt_readHeader E keyring resolver (new_open_stream (bytes_input msg)) = Ok s"
    "soSigningPublicKey s = spk"
    and read: "ReadAll grow (chunkReader_Read (signcrypt_getNextChunk E)) (newChunkReader s) =
      Some (Ret (plaintext, None) r)"
    by (rule SigncryptOpen_Ok [OF assms])
  obtain headerBytes h key kid where hd:
    "mpsRead (decBytes E) (newMsgpackStream (bytes_input msg)) = (Inr (headerBytes, 0), soMps s)"
    "unmarshalEncryptionHeader E headerBytes = Inr h" "SigncryptionHeader_validate h = None"
    "secretboxOpen E (SenderSecretbox h) sender_nonce key = Some kid" "sc_sender_named keyring kid spk"
    "so_ready key spk (sha512 headerBytes) s" "mpsSeqno (soMps s) = 1"
    by (rule signcrypt_readHeader_sound [OF s(1)]) (simp add: s(2))
  obtain ps bs where "plaintext = concat (map fst bs)" "length ps = length bs"
    "parsed E (sc_block E) (soMps s) ps" "wf_blocks Version2 0 bs"
    "all_from (sc_opened E key spk (sha512 headerBytes)) 0 (zip ps bs)"
    by (rule sbs.ReadAll_checked [OF read hd(6,7)])
  with hd(1-5) show ?thesis by blast
qed

theorem SigncryptOpen_sound_witness:
  "\<exists>msg headerBytes mps h key kid ps bs.
    mpsRead (decBytes toy_env) (newMsgpackStream (bytes_input msg)) = (Inr (headerBytes, 0), mps) \<and>
    unmarshalEncryptionHeader toy_env headerBytes = Inr h \<and> SigncryptionHeader_validate h = None \<and>
    secretboxOpen toy_env (SenderSecretbox h) sender_nonce key = Some kid \<and>
    sc_sender_named toy_sc_ring kid (Some (toy_sigpk64 5)) \<and>
    parsed toy_env (sc_block toy_env) mps ps \<and> length ps = length bs \<and>
    all_from (sc_opened toy_env key (Some (toy_sigpk64 5)) (sha512 headerBytes)) 0 (zip ps bs) \<and>
    wf_blocks Version2 0 bs \<and> [1, 2, 3] = concat (map fst bs)"
proof -
  obtain msg where "SigncryptOpen toy_env Suc msg toy_sc_ring (Some (toy_resolver toy_receiver)) =
      Some (Ok (Some (toy_sigpk64 5), [1, 2, 3]))" using toy_sc_round_trip by blast
  then show ?thesis by (rule SigncryptOpen_sound [THEN exI [of _ msg]])
qed

section \<open>Termination and panics\<close>

text \<open>The laws of a keyring the reader needs in order not to panic.\<close>

definition ring_total :: "SigncryptKeyring \<Rightarrow> bool" where
  "ring_total keyring \<longleftrightarrow>
     (\<forall>kid. ImportBoxEphemeralKey keyring kid \<noteq> None) \<and>
     (\<forall>sk\<in>set (GetAllBoxSecretKeys keyring). box_lengths sk)"

lemma derived_keys_no_panic:
  "\<forall>sk\<in>set sks. box_lengths sk \<Longrightarrow> \<exists>ks. derived_keys (Some pub) sks = Ok ks"
  by (induction sks) (auto simp: derived_key_Ok)

lemma try_derived_keys_no_panic: "try_derived_keys E i r ks \<noteq> Panicked"
  by (induction ks) (auto simp: bind_out_eq_Panicked split: option.splits)

lemma try_receivers_no_panic: "try_receivers E ks i rs \<noteq> Panicked"
  by (induction rs arbitrary: i)
    (auto simp: bind_out_eq_Panicked try_derived_keys_no_panic split: option.splits)

lemma try_resolved_no_panic: "try_resolved E hdr (Some pub) i ks \<noteq> Panicked"
  by (induction ks arbitrary: i)
    (auto simp: bind_out_eq_Panicked derived_symmetric_key_def rawBoxKeyFromSlice_def sliceToByte_def
      split: option.splits)

lemma signcrypt_readHeader_no_panic:
  assumes "ring_total keyring"
  shows "signcrypt_readHeader E keyring resolver s \<noteq> Panicked"
proof -
  have "signcrypt_processHeader E keyring resolver h s' \<noteq> Panicked" for h s'
  proof -
    obtain pub where pub: "ImportBoxEphemeralKey keyring (Ephemeral h) = Some pub"
      using assms by (auto simp: ring_total_def)
    obtain ks where "derived_keys (Some pub) (GetAllBoxSecretKeys keyring) = Ok ks"
      using derived_keys_no_panic assms unfolding ring_total_def by blast
    then have "tryBoxSecretKeys E keyring h (Some pub) \<noteq> Panicked"
      by (simp add: tryBoxSecretKeys_def try_receivers_no_panic)
    moreover have "trySharedSymmetricKeys E resolver h (Some pub) \<noteq> Panicked"
      by (simp add: trySharedSymmetricKeys_def try_resolved_no_panic Let_def split: option.split sum.split)
    moreover have "signcrypt_sender E keyring h k s'' \<noteq> Panicked" for k s''
      by (simp add: signcrypt_sender_def nonceForSenderKeySecretBox_Ok split: option.split)
    ultimately show ?thesis
      by (auto simp: signcrypt_processHeader_def pub Let_def bind_out_eq_Panicked split: option.splits)
  qed
  then show ?thesis by (simp add: signcrypt_readHeader_def split: prod.split sum.split)
qed

text \<open>
  C8: opening a signcrypted message ends and does not panic, on any bytes at all, when the keyring
  imports every ephemeral key and its keys make boxes of the right length: it returns the
  plaintext or an error.
\<close>

theorem SigncryptOpen_total:
  assumes codec: "codec_consumes E" and grow: "\<forall>c. c < grow c" and ring: "ring_total keyring"
  shows "\<exists>r. SigncryptOpen E grow msg keyring resolver = Some r \<and> r \<noteq> Panicked"
proof (cases "signcrypt_readHeader E keyring resolver (new_open_stream (bytes_input msg))")
  case (Ok s)
  then have "so_inv s"
    by (rule signcrypt_readHeader_sound) (auto simp: so_ready_def so_inv_def)
  then obtain cs e s' where "emits (signcrypt_getNextChunk E) s cs e s'"
    using so.emits_exists [of E "\<lambda>s. length (pending (decoder (soMps s)))" s]
      signcrypt_no_panic signcrypt_next_consumes [OF codec] by blast
  from ReadAll_emits [OF this grow] Ok show ?thesis
    by (auto simp: SigncryptOpen_def NewSigncryptOpenStream_def)
next
  case (Err e)
  then show ?thesis by (simp add: SigncryptOpen_def NewSigncryptOpenStream_def)
qed (use signcrypt_readHeader_no_panic [OF ring] in blast)

theorem SigncryptOpen_total_witness:
  "\<exists>r. SigncryptOpen toy_env Suc [1, 0, 5] toy_sc_ring None = Some r \<and> r \<noteq> Panicked"
  by (rule SigncryptOpen_total) (simp_all add: ring_total_def toy_sc_ring_def)

text \<open>
  C24: a nil ephemeral key is not caught. \<open>ImportBoxEphemeralKey\<close> returns nil for a key it rejects;
  \<open>decryptStream\<close> turns that into \<open>ErrBadEphemeralKey\<close>, but \<open>signcryptOpenStream\<close> goes on, and
  dereferences it as soon as the keyring holds a secret key: a message whose header has an
  ephemeral key of the wrong length makes every such reader panic.
\<close>

theorem SigncryptOpen_nil_ephemeral_panics:
  assumes "decBytes E (bytes_input msg) = (Inr headerBytes, rest)"
    and "unmarshalEncryptionHeader E headerBytes = Inr h" "SigncryptionHeader_validate h = None"
    and "ImportBoxEphemeralKey keyring (Ephemeral h) = None" "GetAllBoxSecretKeys keyring \<noteq> []"
  shows "SigncryptOpen E grow msg keyring resolver = Some Panicked"
proof -
  obtain sk sks where "GetAllBoxSecretKeys keyring = sk # sks" using assms(5) by (cases "GetAllBoxSecretKeys keyring") auto
  then have "tryBoxSecretKeys E keyring h None = Panicked" by (simp add: tryBoxSecretKeys_def)
  then have "signcrypt_processHeader E keyring resolver h s = Panicked" for s
    using assms(3,4) by (simp add: signcrypt_processHeader_def Let_def)
  then show ?thesis
    using assms(1,2)
    by (simp add: SigncryptOpen_def NewSigncryptOpenStream_def signcrypt_readHeader_def mpsRead_def
        new_open_stream_def newMsgpackStream_def)
qed

theorem SigncryptOpen_nil_ephemeral_panics_witness:
  "SigncryptOpen toy_env Suc
     (enc1 toy_env (PBytes (enc1 toy_env (PEncryptionHeader
        \<lparr>HFormatName = FormatName, HVersion = Version2, HType = MessageTypeSigncryption,
         Ephemeral = [], SenderSecretbox = [], Receivers = []\<rparr>))))
     (toy_sc_ring\<lparr>GetAllBoxSecretKeys := [toy_boxsk 2 True], ImportBoxEphemeralKey := (\<lambda>kid. None)\<rparr>) None =
   Some Panicked"
proof (rule SigncryptOpen_nil_ephemeral_panics)
  let ?h = "\<lparr>HFormatName = FormatName, HVersion = Version2, HType = MessageTypeSigncryption,
         Ephemeral = [], SenderSecretbox = [], Receivers = []\<rparr>"
  let ?hb = "enc1 toy_env (PEncryptionHeader ?h)"
  show "decBytes toy_env (bytes_input (enc1 toy_env (PBytes ?hb))) = (Inr ?hb, \<lparr>pending = [], ends = EOF\<rparr>)"
    using reads_backD [OF codec_okD(2) [OF toy_codec_ok] marshal_enc1 [OF toy_codec_ok], of ?hb "[]" EOF]
    by (simp add: bytes_input_def)
  show "unmarshalEncryptionHeader toy_env ?hb = Inr ?h"
    by (rule codec_okD(9) [OF toy_codec_ok marshal_enc1 [OF toy_codec_ok]])
qed (simp_all add: SigncryptionHeader_validate_def)

section \<open>The writer\<close>

lemma signcryptSealStream_loop_err:
  "signcryptSealStream_loop E enc s = Ret None s' \<Longrightarrow> ssErr s = None \<Longrightarrow> ssErr s' = None"
proof (induction E enc s rule: signcryptSealStream_loop.induct)
  case (1 E enc s)
  show ?case
  proof (cases "encryptionBlockSize < length (ssBuffer s)")
    case True
    with "1.prems" obtain s1 where s1: "signcryptBlock_err E enc False s = Ret None s1"
        "signcryptSealStream_loop E enc s1 = Ret None s'"
      by (subst (asm) signcryptSealStream_loop.simps) (auto split: go.splits option.splits)
    then have "ssErr s1 = None" by (auto simp: signcryptBlock_err_def split: go.splits)
    with "1.IH" [OF _ s1(1)] s1(2) True show ?thesis by simp
  qed (use "1.prems" in \<open>simp add: signcryptSealStream_loop.simps [of E enc s]\<close>)
qed

text \<open>
  The bytes a \<open>signcryptSealStream\<close> writes do not depend on how the plaintext is cut into calls
  of \<open>Write\<close>: on a stream without a recorded error, a sequence of writes that succeeds does
  what one write of the concatenation does.
\<close>

theorem signcryptSealStream_chunking:
  assumes "writes (signcryptSealStream_Write E enc) xs s = Ret None s'"
    and "length (ssBuffer s) \<le> encryptionBlockSize" "ssErr s = None"
  shows "signcryptSealStream_Write E enc (concat xs) s = Ret (length (concat xs), None) s'"
proof (rule ss.writes_concat [where ok = "\<lambda>s. ssErr s = None", OF _ _ assms])
  show "signcryptSealStream_Write E enc x s = (case signcryptSealStream_loop E enc (ss_append x s) of
      Panic \<Rightarrow> Panic
    | Ret (Some e) s' \<Rightarrow> Ret (0, Some e) s'
    | Ret None s' \<Rightarrow> Ret (length x, None) s')" if "ssErr s = None" for x s
    using that by (simp add: signcryptSealStream_Write_def)
  show "ssErr s' = None" if "ssErr s = None" "signcryptSealStream_loop E enc (ss_append x s) = Ret None s'" for x s s'
    using signcryptSealStream_loop_err [OF that(2)] that(1) by simp
qed

theorem signcryptSealStream_chunking_witness:
  "let s = \<lparr>ssVersion = Version2, ssEncoder = [], ssEncryptionKey = replicate 32 0, ssSigningKey = None,
        ssBuffer = [9], ssHeaderHash = replicate 64 0, ssNumBlocks = 0, ssErr = None\<rparr>
   in signcryptSealStream_Write toy_env (newEncoder toy_env) (concat [[1], [2, 3]]) s =
        Ret (length (concat [[1], [2, 3 :: byte]]), None) (s\<lparr>ssBuffer := [9, 1, 2, 3]\<rparr>)"
  unfolding Let_def
  by (rule signcryptSealStream_chunking)
    (simp_all add: signcryptSealStream_Write_def signcryptSealStream_loop.simps encryptionBlockSize_def)

section \<open>The receivers\<close>

lemma check_repeated_symmetric_None:
  "check_repeated_symmetric S rs = None \<longleftrightarrow>
     distinct (map RIdentifier rs) \<and> S \<inter> RIdentifier ` set rs = {}"
  by (induction rs arbitrary: S) auto

text \<open>
  \<open>checkSigncryptReceivers\<close> accepts exactly the lists of receivers that are not both empty, that
  together fit into a MessagePack array, and in which no identifier is used twice, across both
  kinds of keys.
\<close>

theorem checkSigncryptReceivers_accepts:
  "checkSigncryptReceivers bs ss = Ok () \<longleftrightarrow>
     0 < length bs + length ss \<and> length bs + length ss \<le> maxReceiverCount \<and>
     distinct (map boxToKID bs @ map RIdentifier ss)"
proof -
  have "checkSigncryptReceiverCount (int (length bs)) (int (length ss)) = Ok () \<longleftrightarrow>
      0 < length bs + length ss \<and> length bs + length ss \<le> maxReceiverCount"
  proof -
    have "(int (length bs) + int (length ss) \<le> 0) = (length bs + length ss = 0)" by linarith
    then show ?thesis by (auto simp: checkSigncryptReceiverCount_def)
  qed
  moreover have "checkSigncryptReceivers bs ss = Ok () \<longleftrightarrow>
      checkSigncryptReceiverCount (int (length bs)) (int (length ss)) = Ok () \<and>
      check_repeated {} bs = None \<and> check_repeated_symmetric (set (map boxToKID bs)) ss = None"
    by (simp add: checkSigncryptReceivers_def split: option.split)
  ultimately show ?thesis
    by (simp only: check_repeated_None check_repeated_symmetric_None) auto
qed

end
