(* ===== verification/Io.thy ===== *)
theory Io
  imports Block_Stream Chunk_Reader
begin

text \<open>
  The contracts of Go's \<open>io.Writer\<close> and \<open>io.Reader\<close> that the streaming encoders and decoders
  (\<open>encoding/basex/stream.go\<close>, \<open>armor.go\<close>, \<open>punctuated_reader.go\<close>) rely on, as locales, and
  \<open>bytes.Buffer\<close>, which satisfies both. A reader is called with the size of the slice to
  fill; it may panic, and it may not return (\<open>None\<close>).
\<close>

type_synonym 'w writer = "bytes \<Rightarrow> 'w \<Rightarrow> err option \<times> 'w"
type_synonym 'r simple_reader = "nat \<Rightarrow> 'r \<Rightarrow> (bytes \<times> err option) \<times> 'r"
type_synonym 'r reader = "nat \<Rightarrow> 'r \<Rightarrow> (bytes \<times> err option, 'r) go option"

definition plain_reader :: "'r simple_reader \<Rightarrow> 'r reader" where
  "plain_reader rd n r = (case rd n r of (p, r') \<Rightarrow> Some (Ret p r'))"

section \<open>Writers\<close>

text \<open>
  A writer that accepts everything: \<open>R w d\<close> says that the bytes \<open>d\<close> have been written to \<open>w\<close>.
\<close>

locale sink =
  fixes wr :: "'w writer"
    and R :: "'w \<Rightarrow> bytes \<Rightarrow> bool"
  assumes wr_accepts: "R w d \<Longrightarrow> \<exists>w'. wr b w = (None, w') \<and> R w' (d @ b)"
begin

lemma wr_step:
  assumes "R w d"
  obtains w' where "wr b w = (None, w')" "R w' (d @ b)"
  using wr_accepts [OF assms] by blast

end

text \<open>\<open>bytes.Buffer\<close> as a writer: \<open>Write\<close> appends and never fails.\<close>

definition buffer_Write :: "bytes writer" where
  "buffer_Write b w = (None, w @ b)"

interpretation buffer_sink: sink buffer_Write "\<lambda>w d. w = d"
  by unfold_locales (simp add: buffer_Write_def)

section \<open>Readers that separate data from the end\<close>

text \<open>
  \<open>R r bs e\<close>: the reader still delivers the bytes \<open>bs\<close> and then the error \<open>e\<close>. A read with
  room delivers some of the bytes while there are any and the error, alone and for ever,
  afterwards; \<open>Z r e\<close> says that it has delivered the error.
\<close>

locale source =
  fixes rd :: "'r reader"
    and R :: "'r \<Rightarrow> bytes \<Rightarrow> err \<Rightarrow> bool"
    and Z :: "'r \<Rightarrow> err \<Rightarrow> bool"
  assumes rd_more: "R r bs e \<Longrightarrow> bs \<noteq> [] \<Longrightarrow> 0 < n \<Longrightarrow>
      \<exists>k r'. 0 < k \<and> k \<le> n \<and> k \<le> length bs \<and> rd n r = Some (Ret (take k bs, None) r') \<and> R r' (drop k bs) e"
    and rd_end: "R r [] e \<Longrightarrow> 0 < n \<Longrightarrow> \<exists>r'. rd n r = Some (Ret ([], Some e) r') \<and> Z r' e"
    and Z_R: "Z r e \<Longrightarrow> R r [] e"
begin

lemma rd_step:
  assumes "R r bs e" "0 < n"
  obtains (more) k r' where "bs \<noteq> []" "0 < k" "k \<le> n" "k \<le> length bs"
      "rd n r = Some (Ret (take k bs, None) r')" "R r' (drop k bs) e"
    | (finish) r' where "bs = []" "rd n r = Some (Ret ([], Some e) r')" "Z r' e"
  using rd_more [OF assms(1) _ assms(2)] rd_end [of r e n] assms by (cases "bs = []") blast+

end

text \<open>\<open>bytes.Buffer\<close> as a reader, and any other reader that is only consumed.\<close>

definition input_Read :: "input simple_reader" where
  "input_Read n r =
     (if pending r = [] then (([], if n = 0 then None else Some (ends r)), r)
      else ((take n (pending r), None), r\<lparr>pending := drop n (pending r)\<rparr>))"

definition input_holds :: "input \<Rightarrow> bytes \<Rightarrow> err \<Rightarrow> bool" where
  "input_holds r bs e \<longleftrightarrow> pending r = bs \<and> ends r = e"

definition input_over :: "input \<Rightarrow> err \<Rightarrow> bool" where
  "input_over r e \<longleftrightarrow> input_holds r [] e"

interpretation input_source: source "plain_reader input_Read" input_holds input_over
proof
  fix r :: input and bs e and n :: nat
  assume r: "input_holds r bs e" and "bs \<noteq> []" "0 < n"
  then have "plain_reader input_Read n r =
      Some (Ret (take (min n (length bs)) bs, None) (r\<lparr>pending := drop (min n (length bs)) bs\<rparr>))"
    by (auto simp: plain_reader_def input_Read_def min_def input_holds_def)
  with r \<open>bs \<noteq> []\<close> \<open>0 < n\<close> show "\<exists>k r'. 0 < k \<and> k \<le> n \<and> k \<le> length bs \<and>
      plain_reader input_Read n r = Some (Ret (take k bs, None) r') \<and> input_holds r' (drop k bs) e"
    by (intro exI [of _ "min n (length bs)"]) (auto simp: min_def input_holds_def)
qed (auto simp: plain_reader_def input_Read_def input_holds_def input_over_def)

lemma input_holds_bytes: "input_holds (bytes_input bs) bs EOF"
  by (simp add: input_holds_def bytes_input_def)

section \<open>Readers that end\<close>

text \<open>
  \<open>size_of\<close> bounds what a reader can still deliver: a read with room, in a state that satisfies
  the invariant, returns, and reports an error or delivers some bytes.
\<close>

locale finite_source =
  fixes rd :: "'r reader"
    and I :: "'r \<Rightarrow> bool"
    and size_of :: "'r \<Rightarrow> nat"
  assumes rd_ends: "I r \<Longrightarrow> 0 < n \<Longrightarrow>
      \<exists>p e r'. rd n r = Some (Ret (p, e) r') \<and> I r' \<and> length p \<le> n \<and>
        length p + size_of r' \<le> size_of r \<and> (e = None \<longrightarrow> p \<noteq> [])"
begin

lemma rd_cases:
  assumes "I r" "0 < n"
  obtains (data) p r' where "rd n r = Some (Ret (p, None) r')" "I r'" "length p \<le> n" "p \<noteq> []"
      "size_of r' < size_of r" "length p + size_of r' \<le> size_of r"
    | (error) p e r' where "rd n r = Some (Ret (p, Some e) r')" "I r'" "length p \<le> n"
      "length p + size_of r' \<le> size_of r"
proof -
  obtain p e r' where *: "rd n r = Some (Ret (p, e) r')" "I r'" "length p \<le> n"
      "length p + size_of r' \<le> size_of r" "e = None \<longrightarrow> p \<noteq> []"
    using rd_ends [OF assms] by blast
  then have "p \<noteq> [] \<Longrightarrow> size_of r' < size_of r" by (cases p) simp_all
  with * show thesis by (cases e) (auto intro: data error)
qed

end

interpretation input_finite: finite_source "plain_reader input_Read" "\<lambda>_. True" "\<lambda>r. length (pending r)"
  by unfold_locales (auto simp: plain_reader_def input_Read_def)

section \<open>Reading to the end\<close>

text \<open>
  \<open>io.ReadAll\<close> over such a reader, as in \<open>Chunk_Reader\<close>; and a reader emptied by a client that
  asks for \<open>sz i\<close> bytes in its \<open>i\<close>-th call, as the MessagePack decoder does: what it gets
  to see is an \<open>input\<close>.
\<close>

partial_function (option) readAll_loop ::
  "'r reader \<Rightarrow> (nat \<Rightarrow> nat) \<Rightarrow> nat \<Rightarrow> bytes \<Rightarrow> 'r \<Rightarrow> (bytes \<times> err option, 'r) go option" where
  "readAll_loop rd grow cap b r =
     (case rd (cap - length b) r of
        None \<Rightarrow> None
      | Some g \<Rightarrow>
          (case g of
             Panic \<Rightarrow> Some Panic
           | Ret pe r' \<Rightarrow>
               (case pe of
                  (p, Some e) \<Rightarrow> Some (Ret (b @ p, if e = EOF then None else Some e) r')
                | (p, None) \<Rightarrow>
                    readAll_loop rd grow (if length (b @ p) = cap then grow cap else cap) (b @ p) r')))"

definition readAll :: "(nat \<Rightarrow> nat) \<Rightarrow> 'r reader \<Rightarrow> 'r \<Rightarrow> (bytes \<times> err option, 'r) go option" where
  "readAll grow rd r = readAll_loop rd grow 512 [] r"

partial_function (option) drain_loop ::
  "'r reader \<Rightarrow> (nat \<Rightarrow> nat) \<Rightarrow> nat \<Rightarrow> bytes \<Rightarrow> 'r \<Rightarrow> (input, 'r) go option" where
  "drain_loop rd sz i b r =
     (case rd (sz i) r of
        None \<Rightarrow> None
      | Some g \<Rightarrow>
          (case g of
             Panic \<Rightarrow> Some Panic
           | Ret pe r' \<Rightarrow>
               (case pe of
                  (p, Some e) \<Rightarrow> Some (Ret \<lparr>pending = b @ p, ends = e\<rparr> r')
                | (p, None) \<Rightarrow> drain_loop rd sz (Suc i) (b @ p) r')))"

definition drain :: "'r reader \<Rightarrow> (nat \<Rightarrow> nat) \<Rightarrow> 'r \<Rightarrow> (input, 'r) go option" where
  "drain rd sz r = drain_loop rd sz 0 [] r"

context source
begin

lemma readAll_loop_source:
  assumes "R r bs e" "length b < cap" and grow: "\<forall>c. c < grow c"
  shows "\<exists>r'. readAll_loop rd grow cap b r =
    Some (Ret (b @ bs, if e = EOF then None else Some e) r') \<and> Z r' e"
  using assms(1,2)
proof (induction "length bs" arbitrary: bs b cap r rule: less_induct)
  case less
  have "0 < cap - length b" using less.prems(2) by simp
  from less.prems(1) this show ?case
  proof (cases rule: rd_step)
    case (more k r')
    let ?cap = "if length (b @ take k bs) = cap then grow cap else cap"
    have "length (b @ take k bs) < ?cap"
      using less.prems(2) more grow by (auto intro: le_neq_implies_less)
    moreover have "length (drop k bs) < length bs" using more by simp
    ultimately obtain r'' where "readAll_loop rd grow ?cap (b @ take k bs) r' =
        Some (Ret ((b @ take k bs) @ drop k bs, if e = EOF then None else Some e) r'')" "Z r'' e"
      using less.hyps more(6) by blast
    with more show ?thesis by (subst readAll_loop.simps) simp
  qed (subst readAll_loop.simps, simp)
qed

lemma readAll_source:
  assumes "R r bs e" "\<forall>c. c < grow c"
  shows "\<exists>r'. readAll grow rd r = Some (Ret (bs, if e = EOF then None else Some e) r') \<and> Z r' e"
  using readAll_loop_source [OF assms(1) _ assms(2), of "[]" 512] by (simp add: readAll_def)

lemma drain_loop_source:
  assumes "R r bs e" and sz: "\<forall>i. 0 < sz i"
  shows "\<exists>r'. drain_loop rd sz i b r = Some (Ret \<lparr>pending = b @ bs, ends = e\<rparr> r') \<and> Z r' e"
  using assms(1)
proof (induction "length bs" arbitrary: bs b i r rule: less_induct)
  case less
  from less.prems sz [rule_format, of i] show ?case
  proof (cases rule: rd_step)
    case (more k r')
    then have "length (drop k bs) < length bs" by simp
    from less.hyps [OF this more(6)] obtain r'' where
      "drain_loop rd sz (Suc i) (b @ take k bs) r' =
        Some (Ret \<lparr>pending = (b @ take k bs) @ drop k bs, ends = e\<rparr> r'')" "Z r'' e"
      by blast
    with more show ?thesis by (subst drain_loop.simps) simp
  qed (subst drain_loop.simps, simp)
qed

lemma drain_source:
  assumes "R r bs e" "\<forall>i. 0 < sz i"
  shows "\<exists>r'. drain rd sz r = Some (Ret \<lparr>pending = bs, ends = e\<rparr> r') \<and> Z r' e"
  using drain_loop_source [OF assms, of 0 "[]"] by (simp add: drain_def)

end

context finite_source
begin

lemma readAll_loop_ends:
  assumes "I r" "length b < cap" and grow: "\<forall>c. c < grow c"
  shows "\<exists>p e r'. readAll_loop rd grow cap b r = Some (Ret (p, e) r') \<and> I r'"
  using assms(1,2)
proof (induction "size_of r" arbitrary: b cap r rule: less_induct)
  case less
  have "0 < cap - length b" using less.prems(2) by simp
  from less.prems(1) this show ?case
  proof (cases rule: rd_cases)
    case (data p r')
    let ?cap = "if length (b @ p) = cap then grow cap else cap"
    have "length (b @ p) < ?cap"
      using less.prems(2) data(3) grow by (auto intro: le_neq_implies_less)
    from less.hyps [OF data(5,2) this] data(1) show ?thesis
      by (subst readAll_loop.simps) simp
  qed (subst readAll_loop.simps, simp)
qed

lemma readAll_ends:
  assumes "I r" "\<forall>c. c < grow c"
  shows "\<exists>p e r'. readAll grow rd r = Some (Ret (p, e) r') \<and> I r'"
  using readAll_loop_ends [OF assms(1) _ assms(2), of "[]" 512] by (simp add: readAll_def)

lemma drain_loop_ends:
  assumes "I r" and sz: "\<forall>i. 0 < sz i"
  shows "\<exists>s r'. drain_loop rd sz i b r = Some (Ret s r') \<and> I r'"
  using assms(1)
proof (induction "size_of r" arbitrary: b i r rule: less_induct)
  case less
  from less.prems sz [rule_format, of i] show ?case
  proof (cases rule: rd_cases)
    case (data p r')
    from less.hyps [OF data(5,2)] data(1) show ?thesis by (subst drain_loop.simps) simp
  qed (subst drain_loop.simps, simp)
qed

lemma drain_ends: "I r \<Longrightarrow> \<forall>i. 0 < sz i \<Longrightarrow> \<exists>s r'. drain rd sz r = Some (Ret s r') \<and> I r'"
  unfolding drain_def by (rule drain_loop_ends)

end

end
