(* ===== verification/Basex_Stream.thy ===== *)
theory Basex_Stream
  imports Basex Io
begin

text \<open>
  \<open>encoding/basex/stream.go\<close>: the streaming encoder, which writes whole blocks to its
  destination and keeps a partial block in a buffer, the streaming decoder, which reads whole
  blocks from its source, and the filter that drops the skipped characters before the decoder
  sees them. The arrays of the source are byte lists of the same fixed lengths.
\<close>

section \<open>The encoder\<close>

record 'w bxEncoder =
  bxErr :: "err option"
  bxEnc :: Encoding
  bxW :: 'w
  bxBuf :: bytes
  bxNbuf :: nat
  bxOut :: bytes

definition NewEncoder :: "Encoding \<Rightarrow> 'w \<Rightarrow> 'w bxEncoder" where
  "NewEncoder enc w =
     \<lparr>bxErr = None, bxEnc = enc, bxW = w, bxBuf = replicate (base256BlockLen enc) 0, bxNbuf = 0,
      bxOut = replicate (128 * baseXBlockLen enc) 0\<rparr>"

text \<open>The leading fringe: fill the buffer up to a block; the third component is \<open>i\<close>.\<close>

fun encoder_fringe :: "nat \<Rightarrow> bytes \<Rightarrow> nat \<Rightarrow> bytes \<Rightarrow> bytes \<times> nat \<times> nat" where
  "encoder_fringe ibl buf nbuf [] = (buf, nbuf, 0)"
| "encoder_fringe ibl buf nbuf (b # p) =
     (if nbuf < ibl
      then (case encoder_fringe ibl (buf[nbuf := b]) (nbuf + 1) p of (buf', nbuf', i) \<Rightarrow> (buf', nbuf', i + 1))
      else (buf, nbuf, 0))"

text \<open>
  Encode \<open>src\<close> into \<open>e.out\<close> and write the first \<open>len\<close> bytes of it: the step that the three
  places of the source share. \<open>e.err\<close> is assigned in any case.
\<close>

definition encoder_flush ::
  "'w writer \<Rightarrow> bytes \<Rightarrow> nat \<Rightarrow> 'w bxEncoder \<Rightarrow> (err option, 'w bxEncoder) go" where
  "encoder_flush wr src len e =
     (case Encode (bxEnc e) (bxOut e) src of
        Ok out \<Rightarrow>
          (case wr (take len out) (bxW e) of
             (er, w) \<Rightarrow> Ret er (e\<lparr>bxOut := out, bxW := w, bxErr := er\<rparr>))
      | _ \<Rightarrow> Panic)"

text \<open>
  The interior loop and the trailing fringe, with the count \<open>n\<close> of the bytes consumed. A zero
  \<open>nn\<close> would loop for ever (a block length of zero, an output buffer shorter than a block); it
  panics here and \<open>NewEncoder\<close> makes no such encoder.
\<close>

function encoder_interior ::
  "'w writer \<Rightarrow> bytes \<Rightarrow> nat \<Rightarrow> 'w bxEncoder \<Rightarrow> (nat \<times> err option, 'w bxEncoder) go" where
  "encoder_interior wr p n e =
     (let ibl = base256BlockLen (bxEnc e); obl = baseXBlockLen (bxEnc e)
      in if length p \<ge> ibl
         then (let nn0 = length (bxOut e) div obl * ibl;
                   nn = (if nn0 > length p then length p - length p mod ibl else nn0)
               in if nn = 0 then Panic
                  else case encoder_flush wr (take nn p) (nn div ibl * obl) e of
                         Panic \<Rightarrow> Panic
                       | Ret (Some er) e' \<Rightarrow> Ret (n, Some er) e'
                       | Ret None e' \<Rightarrow> encoder_interior wr (drop nn p) (n + nn) e')
         else Ret (n + length p, None)
                (e\<lparr>bxBuf := p @ drop (length p) (bxBuf e), bxNbuf := length p\<rparr>))"
  by pat_completeness auto
termination
  by (relation "measure (\<lambda>(wr, p, n, e). length p)")
    (auto simp: Let_def split: if_splits intro!: diff_less)

declare encoder_interior.simps [simp del]

definition encoder_Write :: "'w writer \<Rightarrow> 'w bxEncoder stream_write" where
  "encoder_Write wr p e =
     (case bxErr e of
        Some er \<Rightarrow> Ret (0, Some er) e
      | None \<Rightarrow>
          if bxNbuf e > 0
          then (case encoder_fringe (base256BlockLen (bxEnc e)) (bxBuf e) (bxNbuf e) p of
                  (buf, nbuf, i) \<Rightarrow>
                    if nbuf < base256BlockLen (bxEnc e)
                    then Ret (i, None) (e\<lparr>bxBuf := buf, bxNbuf := nbuf\<rparr>)
                    else (case encoder_flush wr buf (baseXBlockLen (bxEnc e))
                                 (e\<lparr>bxBuf := buf, bxNbuf := nbuf\<rparr>) of
                            Panic \<Rightarrow> Panic
                          | Ret (Some er) e' \<Rightarrow> Ret (i, Some er) e'
                          | Ret None e' \<Rightarrow> encoder_interior wr (drop i p) i (e'\<lparr>bxNbuf := 0\<rparr>)))
          else encoder_interior wr p 0 e)"

definition encoder_Close :: "'w writer \<Rightarrow> 'w bxEncoder \<Rightarrow> (err option, 'w bxEncoder) go" where
  "encoder_Close wr e =
     (if bxErr e = None \<and> bxNbuf e > 0
      then (case encoder_flush wr (take (bxNbuf e) (bxBuf e)) (EncodedLen (bxEnc e) (bxNbuf e)) e of
              Panic \<Rightarrow> Panic
            | Ret er e' \<Rightarrow> Ret (bxErr e') (e'\<lparr>bxNbuf := 0\<rparr>))
      else Ret (bxErr e) e)"

section \<open>The filter\<close>

record 'r filteringReader =
  fWrapped :: 'r
  fEnc :: Encoding
  fNRead :: nat

text \<open>
  The scan of one buffer: the wanted bytes, or the position of the first invalid one, and the
  number of characters read so far.
\<close>

fun filtering_scan :: "Encoding \<Rightarrow> nat \<Rightarrow> bytes \<Rightarrow> (nat + bytes) \<times> nat" where
  "filtering_scan enc nRead [] = (Inr [], nRead)"
| "filtering_scan enc nRead (b # p) =
     (if getByteType enc b = invalidByteType then (Inl nRead, nRead)
      else (case filtering_scan enc (nRead + 1) p of
              (Inl k, n) \<Rightarrow> (Inl k, n)
            | (Inr q, n) \<Rightarrow> (Inr (if getByteType enc b = skipByteType then q else b # q), n)))"

partial_function (option) filtering_Read ::
  "'r reader \<Rightarrow> nat \<Rightarrow> 'r filteringReader \<Rightarrow> (bytes \<times> err option, 'r filteringReader) go option" where
  "filtering_Read rd cap r =
     (case rd cap (fWrapped r) of
        None \<Rightarrow> None
      | Some g \<Rightarrow>
          (case g of
             Panic \<Rightarrow> Some Panic
           | Ret pe w \<Rightarrow>
               (case pe of (p, e) \<Rightarrow>
                  if p = [] then Some (Ret ([], e) (r\<lparr>fWrapped := w\<rparr>))
                  else (case filtering_scan (fEnc r) (fNRead r) p of
                          (Inl k, n) \<Rightarrow>
                            Some (Ret ([], Some (CorruptInputError k)) (r\<lparr>fWrapped := w, fNRead := n\<rparr>))
                        | (Inr q, n) \<Rightarrow>
                            if q \<noteq> [] then Some (Ret (q, e) (r\<lparr>fWrapped := w, fNRead := n\<rparr>))
                            else filtering_Read rd cap (r\<lparr>fWrapped := w, fNRead := n\<rparr>)))))"

section \<open>The decoder\<close>

datatype 'r decoderInput = Filtered "'r filteringReader" | Plain 'r

fun decoderInput_Read ::
  "'r reader \<Rightarrow> nat \<Rightarrow> 'r decoderInput \<Rightarrow> (bytes \<times> err option, 'r decoderInput) go option" where
  "decoderInput_Read rd n (Filtered f) = map_option (go_map Filtered) (filtering_Read rd n f)"
| "decoderInput_Read rd n (Plain r) = map_option (go_map Plain) (rd n r)"

record 'r bxDecoder =
  dErr :: "err option"
  dEnc :: Encoding
  dR :: "'r decoderInput"
  dOut :: bytes
  dBuf :: bytes
  dNbuf :: nat
  dScratch :: bytes

definition NewDecoder :: "Encoding \<Rightarrow> 'r \<Rightarrow> 'r bxDecoder" where
  "NewDecoder enc r =
     \<lparr>dErr = None, dEnc = enc,
      dR = (if hasSkipBytes enc then Filtered \<lparr>fWrapped = r, fEnc = enc, fNRead = 0\<rparr> else Plain r),
      dOut = [], dBuf = replicate (8192 * base256BlockLen enc) 0, dNbuf = 0,
      dScratch = replicate (8192 * baseXBlockLen enc) 0\<rparr>"

text \<open>Reading up to the next full block: a read stores what it got after the \<open>nbuf\<close> bytes held.\<close>

partial_function (option) decoder_fill ::
  "'r reader \<Rightarrow> nat \<Rightarrow> 'r bxDecoder \<Rightarrow> (unit, 'r bxDecoder) go option" where
  "decoder_fill rd nn d =
     (if dNbuf d < baseXBlockLen (dEnc d) \<and> dErr d = None
      then (case decoderInput_Read rd (nn - dNbuf d) (dR d) of
              None \<Rightarrow> None
            | Some g \<Rightarrow>
                (case g of
                   Panic \<Rightarrow> Some Panic
                 | Ret pe r \<Rightarrow>
                     (case pe of (p, e) \<Rightarrow>
                        decoder_fill rd nn
                          (d\<lparr>dR := r, dErr := e, dNbuf := dNbuf d + length p,
                             dBuf := take (dNbuf d) (dBuf d) @ p @ drop (dNbuf d + length p) (dBuf d)\<rparr>))))
      else Some (Ret () d))"

text \<open>The decoding of what has been read, for a slice of \<open>n\<close> bytes.\<close>

definition decoder_decode ::
  "nat \<Rightarrow> bool \<Rightarrow> 'r bxDecoder \<Rightarrow> (bytes \<times> err option, 'r bxDecoder) go" where
  "decoder_decode n eof d =
     (let obl = baseXBlockLen (dEnc d);
          k = (if eof then dNbuf d else dNbuf d div obl * obl);
          src = take k (dBuf d);
          rest = dNbuf d - k;
          shift = (\<lambda>d. d\<lparr>dNbuf := rest, dBuf := take rest (drop k (dBuf d)) @ drop rest (dBuf d)\<rparr>);
          finish = (\<lambda>ret d. if ret = [] \<and> dErr d = None \<and> n \<noteq> 0 then Ret ([], Some EOF) d
                            else Ret (ret, dErr d) d)
      in if DecodedLen (dEnc d) k > n
         then (case Decode (dEnc d) (dScratch d) src of
                 Ok (scratch, c, e) \<Rightarrow>
                   finish (take n (take c scratch))
                     (shift (d\<lparr>dScratch := scratch, dErr := e, dOut := drop n (take c scratch)\<rparr>))
               | _ \<Rightarrow> Panic)
         else (case Decode (dEnc d) (replicate n 0) src of
                 Ok (p, c, e) \<Rightarrow> finish (take c p) (shift (d\<lparr>dErr := e\<rparr>))
               | _ \<Rightarrow> Panic))"

definition decoder_Read ::
  "'r reader \<Rightarrow> nat \<Rightarrow> 'r bxDecoder \<Rightarrow> (bytes \<times> err option, 'r bxDecoder) go option" where
  "decoder_Read rd n d =
     (case dErr d of
        Some e \<Rightarrow> Some (Ret ([], Some e) d)
      | None \<Rightarrow>
          if dOut d \<noteq> [] then Some (Ret (take n (dOut d), None) (d\<lparr>dOut := drop n (dOut d)\<rparr>))
          else let ibl = base256BlockLen (dEnc d); obl = baseXBlockLen (dEnc d)
               in if ibl = 0 \<or> obl = 0 then Some Panic
                  else case decoder_fill rd (min (max (n div ibl * obl) obl) (length (dBuf d))) d of
                         None \<Rightarrow> None
                       | Some Panic \<Rightarrow> Some Panic
                       | Some (Ret _ d') \<Rightarrow>
                           Some (case dErr d' of
                                   None \<Rightarrow> decoder_decode n False d'
                                 | Some e \<Rightarrow>
                                     if e = EOF \<and> dNbuf d' \<noteq> 0
                                     then decoder_decode n True (d'\<lparr>dErr := None\<rparr>)
                                     else Ret ([], Some e) d'))"

end
