(* ===== verification/Armor.thy ===== *)
theory Armor
  imports Basex_Stream
begin

text \<open>
  The writing half of \<open>armor.go\<close>: base-x characters cut into words and lines between a header
  and a footer. The source's \<open>buf\<close> is the destination of the inner encoder as well; the model
  keeps it once, as \<open>bxW\<close> of that encoder.
\<close>

record armorParams =
  BytesPerWord :: nat
  WordsPerLine :: nat
  Punctuation :: byte
  ArmorEncoding :: Encoding

record 'w armorEncoderStream =
  aeFooter :: bytes
  aeEncoded :: 'w
  aeEncoder :: "bytes bxEncoder"
  aeNWords :: nat
  aeParams :: armorParams

abbreviation aeBuf :: "'w armorEncoderStream \<Rightarrow> bytes" where
  "aeBuf s \<equiv> bxW (aeEncoder s)"

definition aeSetBuf :: "bytes \<Rightarrow> 'w armorEncoderStream \<Rightarrow> 'w armorEncoderStream" where
  "aeSetBuf b s = s\<lparr>aeEncoder := (aeEncoder s)\<lparr>bxW := b\<rparr>\<rparr>"

text \<open>The verb \<open>%c\<close> of Go's \<open>fmt\<close> on a byte: the UTF-8 encoding of the code point.\<close>

definition fmt_c :: "byte \<Rightarrow> bytes" where
  "fmt_c b = (if b < 128 then [b] else [192 OR drop_bit 6 b, 128 OR (b AND 63)])"

text \<open>The separator after the \<open>n\<close>-th word.\<close>

definition word_sep :: "armorParams \<Rightarrow> nat \<Rightarrow> byte" where
  "word_sep params n = (if n mod WordsPerLine params = 0 then 10 else 32)"

text \<open>
  One turn of the loop of \<open>spaceAndOutputBuffer\<close>. Words of no bytes would be written for ever,
  lines of no words divide by zero; both panic here and no parameters of the repository have them.
\<close>

definition outputWord ::
  "'w writer \<Rightarrow> 'w armorEncoderStream \<Rightarrow> (err option, 'w armorEncoderStream) go" where
  "outputWord wr s =
     (let n = BytesPerWord (aeParams s);
          s' = (aeSetBuf (drop n (aeBuf s)) s)\<lparr>aeNWords := aeNWords s + 1\<rparr>
      in if n = 0 \<or> WordsPerLine (aeParams s) = 0 then Panic
         else case wr (take n (aeBuf s)) (aeEncoded s) of
                (Some e, w) \<Rightarrow> Ret (Some e) (s'\<lparr>aeEncoded := w\<rparr>)
              | (None, w) \<Rightarrow>
                  (case wr [word_sep (aeParams s) (aeNWords s + 1)] w of
                     (e, w') \<Rightarrow> Ret e (s'\<lparr>aeEncoded := w'\<rparr>)))"

lemma outputWord_buffer:
  "outputWord wr s = Ret r s' \<Longrightarrow>
     aeBuf s' = drop (BytesPerWord (aeParams s)) (aeBuf s) \<and> 0 < BytesPerWord (aeParams s)"
  by (auto simp: outputWord_def aeSetBuf_def Let_def split: if_splits prod.splits option.splits)

function spaceAndOutputBuffer ::
  "'w writer \<Rightarrow> 'w armorEncoderStream \<Rightarrow> (err option, 'w armorEncoderStream) go" where
  "spaceAndOutputBuffer wr s =
     (if length (aeBuf s) > BytesPerWord (aeParams s)
      then (case outputWord wr s of
              Panic \<Rightarrow> Panic
            | Ret (Some e) s' \<Rightarrow> Ret (Some e) s'
            | Ret None s' \<Rightarrow> spaceAndOutputBuffer wr s')
      else Ret None s)"
  by pat_completeness auto
termination
  by (relation "measure (\<lambda>(wr, s). length (aeBuf s))") (auto dest!: outputWord_buffer intro!: diff_less)

declare spaceAndOutputBuffer.simps [simp del]

definition armorEncoderStream_Write :: "'w writer \<Rightarrow> 'w armorEncoderStream stream_write" where
  "armorEncoderStream_Write wr b s =
     (case encoder_Write buffer_Write b (aeEncoder s) of
        Panic \<Rightarrow> Panic
      | Ret (n, Some e) enc \<Rightarrow> Ret (n, Some e) (s\<lparr>aeEncoder := enc\<rparr>)
      | Ret (n, None) enc \<Rightarrow>
          (case spaceAndOutputBuffer wr (s\<lparr>aeEncoder := enc\<rparr>) of
             Panic \<Rightarrow> Panic
           | Ret e s' \<Rightarrow> Ret (n, e) s'))"

definition armorEncoderStream_Close ::
  "'w writer \<Rightarrow> 'w armorEncoderStream \<Rightarrow> (err option, 'w armorEncoderStream) go" where
  "armorEncoderStream_Close wr s =
     (case encoder_Close buffer_Write (aeEncoder s) of
        Panic \<Rightarrow> Panic
      | Ret (Some e) enc \<Rightarrow> Ret (Some e) (s\<lparr>aeEncoder := enc\<rparr>)
      | Ret None enc \<Rightarrow>
          (case spaceAndOutputBuffer wr (s\<lparr>aeEncoder := enc\<rparr>) of
             Panic \<Rightarrow> Panic
           | Ret (Some e) s' \<Rightarrow> Ret (Some e) s'
           | Ret None s1 \<Rightarrow>
               let lst = aeBuf s1; params = aeParams s1
               in case wr lst (aeEncoded s1) of
                    (Some e, w) \<Rightarrow> Ret (Some e) (s1\<lparr>aeEncoded := w\<rparr>)
                  | (None, w) \<Rightarrow>
                      let n = aeNWords s1 + 1; punct = fmt_c (Punctuation params)
                      in if length lst = BytesPerWord params \<and> WordsPerLine params = 0 then Panic
                         else let pad = (if length lst = BytesPerWord params then [word_sep params n] else [])
                              in case wr (pad @ punct @ [32] @ aeFooter s1 @ punct @ [10]) w of
                                   (e, w') \<Rightarrow> Ret e (s1\<lparr>aeEncoded := w', aeNWords := n\<rparr>)))"

definition newArmorEncoderStream ::
  "'w writer \<Rightarrow> 'w \<Rightarrow> bytes \<Rightarrow> bytes \<Rightarrow> armorParams \<Rightarrow> err \<times> 'w + 'w armorEncoderStream" where
  "newArmorEncoderStream wr encoded header footer params =
     (case wr (header @ fmt_c (Punctuation params) @ [32]) encoded of
        (Some e, w) \<Rightarrow> Inl (e, w)
      | (None, w) \<Rightarrow>
          Inr \<lparr>aeFooter = footer, aeEncoded = w, aeEncoder = NewEncoder (ArmorEncoding params) [],
               aeNWords = 0, aeParams = params\<rparr>)"

definition armorSeal :: "bytes \<Rightarrow> bytes \<Rightarrow> bytes \<Rightarrow> armorParams \<Rightarrow> bytes result" where
  "armorSeal plaintext header footer params =
     (case newArmorEncoderStream buffer_Write [] header footer params of
        Inl (e, _) \<Rightarrow> Err e
      | Inr enc \<Rightarrow>
          (case armorEncoderStream_Write buffer_Write plaintext enc of
             Panic \<Rightarrow> Panicked
           | Ret (_, Some e) _ \<Rightarrow> Err e
           | Ret (_, None) enc' \<Rightarrow>
               (case armorEncoderStream_Close buffer_Write enc' of
                  Panic \<Rightarrow> Panicked
                | Ret (Some e) _ \<Rightarrow> Err e
                | Ret None enc'' \<Rightarrow> Ok (aeEncoded enc''))))"

end
