(* ===== verification/Basex_Stream_Correct.thy ===== *)
theory Basex_Stream_Correct
  imports Basex_Stream Basex_Props
begin

text \<open>
  The streaming encoder writes the encoding of everything it was given, whatever the calls of
  \<open>Write\<close>; the streaming decoder is a \<open>source\<close> of the decoded bytes when the characters are a
  valid encoding, and a \<open>finite_source\<close> on any characters at all.
\<close>

section \<open>Whole blocks and the rest\<close>

definition whole :: "nat \<Rightarrow> 'a list \<Rightarrow> 'a list" where
  "whole B xs = take (length xs div B * B) xs"

definition part :: "nat \<Rightarrow> 'a list \<Rightarrow> 'a list" where
  "part B xs = drop (length xs div B * B) xs"

lemma whole_part: "whole B xs @ part B xs = xs"
  by (simp add: whole_def part_def)

lemma length_whole: "length (whole B xs) = length xs div B * B"
  by (simp add: whole_def min_absorb2)

lemma length_whole_mod [simp]: "length (whole B xs) mod B = 0"
  by (simp add: length_whole)

lemma length_part: "length (part B xs) = length xs mod B"
  by (simp add: part_def minus_div_mult_eq_mod)

lemma whole_append: "0 < B \<Longrightarrow> length xs mod B = 0 \<Longrightarrow> whole B (xs @ ys) = xs @ whole B ys"
proof -
  assume "0 < B" "length xs mod B = 0"
  then have "(length xs + length ys) div B * B = length xs + length ys div B * B"
    by (auto simp: add_mult_distrib2 algebra_simps elim!: dvdE mod_0_imp_dvd [THEN dvdE])
  then show ?thesis by (simp add: whole_def)
qed

lemma part_append: "0 < B \<Longrightarrow> length xs mod B = 0 \<Longrightarrow> part B (xs @ ys) = part B ys"
  using whole_append [of B xs ys] whole_part [of B "xs @ ys"] whole_part [of B ys]
  by (metis append.assoc same_append_eq)

lemma whole_split: "0 < B \<Longrightarrow> whole B (xs @ ys) = whole B xs @ whole B (part B xs @ ys)"
  using whole_append [of B "whole B xs" "part B xs @ ys"] whole_part [of B xs]
  by (metis append.assoc length_whole_mod)

lemma part_split: "0 < B \<Longrightarrow> part B (xs @ ys) = part B (part B xs @ ys)"
  using part_append [of B "whole B xs" "part B xs @ ys"] whole_part [of B xs]
  by (metis append.assoc length_whole_mod)

lemma whole_short [simp]: "length xs < B \<Longrightarrow> whole B xs = []"
  by (simp add: whole_def)

lemma part_short [simp]: "length xs < B \<Longrightarrow> part B xs = xs"
  by (simp add: part_def)

lemma encode_spec_append:
  "wf_enc enc \<Longrightarrow> length xs mod base256BlockLen enc = 0 \<Longrightarrow>
     encode_spec enc (xs @ ys) = encode_spec enc xs @ encode_spec enc ys"
  by (simp add: encode_spec_def chunks_append wf_encD)

lemma encode_spec_split:
  "wf_enc enc \<Longrightarrow> encode_spec enc xs =
     encode_spec enc (whole (base256BlockLen enc) xs) @ encode_spec enc (part (base256BlockLen enc) xs)"
  using encode_spec_append [of enc "whole (base256BlockLen enc) xs" "part (base256BlockLen enc) xs"]
  by (simp add: whole_part)

lemma EncodedLen_blocks:
  "wf_enc enc \<Longrightarrow> EncodedLen enc (k * base256BlockLen enc) = k * baseXBlockLen enc"
  by (induction k) (simp_all add: EncodedLen_add_block)

section \<open>The encoder\<close>

text \<open>
  The state between calls: no error, arrays of the lengths \<open>NewEncoder\<close> gives them, less than a
  block in the buffer.
\<close>

definition encoder_inv :: "'w bxEncoder \<Rightarrow> bool" where
  "encoder_inv e \<longleftrightarrow> bxErr e = None \<and> wf_enc (bxEnc e) \<and>
     length (bxBuf e) = base256BlockLen (bxEnc e) \<and>
     length (bxOut e) = 128 * baseXBlockLen (bxEnc e) \<and>
     bxNbuf e < base256BlockLen (bxEnc e)"

lemma NewEncoder_inv: "wf_enc enc \<Longrightarrow> encoder_inv (NewEncoder enc w)"
  by (simp add: encoder_inv_def NewEncoder_def wf_encD)

lemma encoder_fringe_spec:
  "length buf = ibl \<Longrightarrow> nbuf \<le> ibl \<Longrightarrow>
     encoder_fringe ibl buf nbuf p =
       (let i = min (length p) (ibl - nbuf)
        in (take nbuf buf @ take i p @ drop (nbuf + i) buf, nbuf + i, i))"
proof (induction ibl buf nbuf p rule: encoder_fringe.induct)
  case (2 ibl buf nbuf b p)
  show ?case
  proof (cases "nbuf < ibl")
    case True
    let ?i = "min (length p) (ibl - Suc nbuf)"
    have i: "min (length (b # p)) (ibl - nbuf) = Suc ?i" using True by simp
    have "take (Suc nbuf) (buf[nbuf := b]) = take nbuf buf @ [b]"
      using True 2 by (simp add: take_Suc_conv_app_nth)
    moreover have "drop (Suc nbuf + ?i) (buf[nbuf := b]) = drop (Suc nbuf + ?i) buf"
      by (simp add: drop_update_cancel)
    ultimately show ?thesis
      using 2 True i by (simp add: Let_def)
  qed (use 2 in simp)
qed simp

lemma encode_part_length:
  assumes "wf_enc enc" "length p < base256BlockLen enc"
  shows "EncodedLen enc (length p) \<le> baseXBlockLen enc"
  using assms by (intro EncodedLen_mono_block) simp_all

context sink
begin

lemma encoder_flush_ok:
  assumes wf: "wf_enc (bxEnc e)" and room: "EncodedLen (bxEnc e) (length src) \<le> length (bxOut e)"
    and w: "R (bxW e) d" and len: "len = EncodedLen (bxEnc e) (length src)"
  obtains out w' where "encoder_flush wr src len e = Ret None (e\<lparr>bxOut := out, bxW := w', bxErr := None\<rparr>)"
    "length out = length (bxOut e)" "R w' (d @ encode_spec (bxEnc e) src)"
proof -
  let ?out = "encode_spec (bxEnc e) src @ drop len (bxOut e)"
  have "take len ?out = encode_spec (bxEnc e) src" using len length_encode_spec [OF wf] by simp
  moreover obtain w' where "wr (encode_spec (bxEnc e) src) (bxW e) = (None, w')"
      "R w' (d @ encode_spec (bxEnc e) src)" using wr_step [OF w] by blast
  moreover have "length ?out = length (bxOut e)" using room len length_encode_spec [OF wf] by simp
  ultimately show thesis
    using Encode_correct [OF wf room] len that [of w' ?out] length_encode_spec [OF wf, of src]
    by (simp add: encoder_flush_def)
qed

text \<open>The encoder has been given \<open>x\<close> after \<open>d\<close> was in its destination.\<close>

definition encoded :: "bytes \<Rightarrow> 'w bxEncoder \<Rightarrow> bytes \<Rightarrow> bool" where
  "encoded d e x \<longleftrightarrow> encoder_inv e \<and> take (bxNbuf e) (bxBuf e) = part (base256BlockLen (bxEnc e)) x \<and>
     R (bxW e) (d @ encode_spec (bxEnc e) (whole (base256BlockLen (bxEnc e)) x))"

lemma encoder_interior_ok:
  assumes "encoder_inv e" "R (bxW e) d"
  shows "\<exists>e'. encoder_interior wr p n e = Ret (n + length p, None) e' \<and> encoder_inv e' \<and> bxEnc e' = bxEnc e \<and>
    take (bxNbuf e') (bxBuf e') = part (base256BlockLen (bxEnc e)) p \<and>
    R (bxW e') (d @ encode_spec (bxEnc e) (whole (base256BlockLen (bxEnc e)) p))"
  using assms
proof (induction "length p" arbitrary: p n e d rule: less_induct)
  case less
  let ?B = "base256BlockLen (bxEnc e)" and ?X = "baseXBlockLen (bxEnc e)"
  have wf: "wf_enc (bxEnc e)" and out: "length (bxOut e) = 128 * ?X" and B: "0 < ?B"
    using less.prems(1) wf_encD by (auto simp: encoder_inv_def)
  have X: "0 < ?X" using wf by (rule baseXBlockLen_pos)
  show ?case
  proof (cases "?B \<le> length p")
    case False
    then show ?thesis using less.prems by (subst encoder_interior.simps) (simp add: encoder_inv_def)
  next
    case True
    define k where "k = min 128 (length p div ?B)"
    have k: "0 < k" "k \<le> 128" "k * ?B \<le> length p"
      using True B by (auto simp: k_def div_greater_zero_iff min_def dest: le_trans [OF mult_le_mono1]
          intro: order_trans [OF mult_le_mono1 div_times_less_eq_dividend])
    have nn: "(if 128 * ?B > length p then length p - length p mod ?B else 128 * ?B) = k * ?B"
    proof (cases "128 * ?B > length p")
      case True
      then have "length p div ?B < 128" using B by (simp add: div_less_iff_less_mult mult.commute)
      then show ?thesis using True by (simp add: k_def minus_mod_eq_div_mult)
    next
      case False
      then have "128 \<le> length p div ?B" using B by (simp add: less_eq_div_iff_mult_less_eq)
      then show ?thesis using False by (simp add: k_def)
    qed
    let ?src = "take (k * ?B) p"
    have src: "length ?src = k * ?B" using k by simp
    have "EncodedLen (bxEnc e) (length ?src) = k * ?X" unfolding src using wf by (rule EncodedLen_blocks)
    moreover from this have "EncodedLen (bxEnc e) (length ?src) \<le> length (bxOut e)" using k out by simp
    ultimately obtain out' w' where fl: "encoder_flush wr ?src (k * ?X) e =
          Ret None (e\<lparr>bxOut := out', bxW := w', bxErr := None\<rparr>)"
        "length out' = length (bxOut e)" "R w' (d @ encode_spec (bxEnc e) ?src)"
      using encoder_flush_ok [OF wf _ less.prems(2)] by metis
    let ?e = "e\<lparr>bxOut := out', bxW := w', bxErr := None\<rparr>"
    have inv: "encoder_inv ?e" using less.prems(1) fl(2) by (simp add: encoder_inv_def)
    have lt: "length (drop (k * ?B) p) < length p" using k(1) B True by (auto intro!: diff_less)
    have "R (bxW ?e) (d @ encode_spec (bxEnc e) ?src)" using fl(3) by simp
    from less.hyps [OF lt inv this, of "n + k * ?B"] obtain e' where
      e': "encoder_interior wr (drop (k * ?B) p) (n + k * ?B) ?e = Ret (n + length p, None) e'"
        "encoder_inv e'" "bxEnc e' = bxEnc e" "take (bxNbuf e') (bxBuf e') = part ?B (drop (k * ?B) p)"
        "R (bxW e') ((d @ encode_spec (bxEnc e) ?src) @ encode_spec (bxEnc e) (whole ?B (drop (k * ?B) p)))"
      using k by auto
    have step: "encoder_interior wr p n e = encoder_interior wr (drop (k * ?B) p) (n + k * ?B) ?e"
      using True nn k B X out fl(1) by (subst encoder_interior.simps) (simp add: Let_def)
    have "part ?B (drop (k * ?B) p) = part ?B p" "whole ?B p = ?src @ whole ?B (drop (k * ?B) p)"
      using part_append [OF B, of ?src "drop (k * ?B) p"] whole_append [OF B, of ?src "drop (k * ?B) p"] src
      by simp_all
    then show ?thesis
      using step e' encode_spec_append [OF wf, of ?src] src by auto
  qed
qed

lemma encoder_Write_ok:
  assumes "encoded d e x"
  shows "\<exists>e'. encoder_Write wr p e = Ret (length p, None) e' \<and> encoded d e' (x @ p) \<and> bxEnc e' = bxEnc e"
proof -
  let ?B = "base256BlockLen (bxEnc e)" and ?X = "baseXBlockLen (bxEnc e)"
  let ?d = "d @ encode_spec (bxEnc e) (whole ?B x)"
  have inv: "encoder_inv e" and buf: "take (bxNbuf e) (bxBuf e) = part ?B x" and w: "R (bxW e) ?d"
    using assms by (auto simp: encoded_def)
  have wf: "wf_enc (bxEnc e)" and err: "bxErr e = None" and len: "length (bxBuf e) = ?B"
    and nbuf: "bxNbuf e < ?B" and out: "length (bxOut e) = 128 * ?X" and B: "0 < ?B"
    using inv wf_encD by (auto simp: encoder_inv_def)
  have px: "length (part ?B x) = bxNbuf e" using buf len nbuf by (metis length_take min.absorb2 less_imp_le)
  show ?thesis
  proof (cases "bxNbuf e = 0")
    case True
    then have "part ?B x = []" using px by simp
    then have x: "part ?B (x @ p) = part ?B p" "whole ?B (x @ p) = whole ?B x @ whole ?B p"
      using part_split [OF B, of x p] whole_split [OF B, of x p] by simp_all
    show ?thesis
      using encoder_interior_ok [OF inv w, of p 0] True err x encode_spec_append [OF wf, of "whole ?B x"]
      by (auto simp: encoder_Write_def encoded_def)
  next
    case False
    define i where "i = min (length p) (?B - bxNbuf e)"
    let ?buf = "take (bxNbuf e) (bxBuf e) @ take i p @ drop (bxNbuf e + i) (bxBuf e)"
    have fringe: "encoder_fringe ?B (bxBuf e) (bxNbuf e) p = (?buf, bxNbuf e + i, i)"
      using encoder_fringe_spec [OF len, of "bxNbuf e" p] nbuf by (simp add: Let_def i_def)
    have lenbuf: "length ?buf = ?B" using len nbuf by (simp add: i_def)
    show ?thesis
    proof (cases "bxNbuf e + i < ?B")
      case True
      then have i: "i = length p" by (simp add: i_def)
      have short: "length (part ?B x @ p) < ?B" using px True i by simp
      then have x: "part ?B (x @ p) = part ?B x @ p" "whole ?B (x @ p) = whole ?B x"
        using part_split [OF B, of x p] whole_split [OF B, of x p] by simp_all
      have "take (bxNbuf e + i) ?buf = part ?B x @ p" unfolding buf using px i by simp
      with True False err fringe i inv lenbuf w x px show ?thesis
        by (simp add: encoder_Write_def encoded_def encoder_inv_def)
    next
      case full: False
      then have i: "bxNbuf e + i = ?B" using nbuf by (auto simp: i_def min_def split: if_splits)
      then have bufeq: "?buf = part ?B x @ take i p" using buf len by simp
      let ?e = "e\<lparr>bxBuf := ?buf, bxNbuf := bxNbuf e + i\<rparr>"
      have X: "?X = EncodedLen (bxEnc ?e) (length ?buf)" using lenbuf by (simp add: EncodedLen_full)
      have e: "wf_enc (bxEnc ?e)" "EncodedLen (bxEnc ?e) (length ?buf) \<le> length (bxOut ?e)" "R (bxW ?e) ?d"
        using wf w out unfolding X [symmetric] by simp_all
      obtain out' w' where fl: "encoder_flush wr ?buf ?X ?e =
            Ret None (?e\<lparr>bxOut := out', bxW := w', bxErr := None\<rparr>)"
          "length out' = length (bxOut ?e)" "R w' (?d @ encode_spec (bxEnc ?e) ?buf)"
        by (rule encoder_flush_ok [OF e X])
      let ?e2 = "(?e\<lparr>bxOut := out', bxW := w', bxErr := None\<rparr>)\<lparr>bxNbuf := 0\<rparr>"
      have inv2: "encoder_inv ?e2" using inv fl(2) lenbuf B by (simp add: encoder_inv_def del: length_append)
      have "R (bxW ?e2) (?d @ encode_spec (bxEnc e) ?buf)" using fl(3) by simp
      from encoder_interior_ok [OF inv2 this, of "drop i p" i] obtain e' where
        e': "encoder_interior wr (drop i p) i ?e2 = Ret (i + length (drop i p), None) e'"
          "encoder_inv e'" "bxEnc e' = bxEnc e" "take (bxNbuf e') (bxBuf e') = part ?B (drop i p)"
          "R (bxW e') ((?d @ encode_spec (bxEnc e) ?buf) @ encode_spec (bxEnc e) (whole ?B (drop i p)))"
        by auto
      have mod: "length (part ?B x @ take i p) mod ?B = 0"
        using px i by (simp add: i_def min_def split: if_splits)
      have x: "part ?B (x @ p) = part ?B (drop i p)"
        "whole ?B (x @ p) = whole ?B x @ (part ?B x @ take i p) @ whole ?B (drop i p)"
        using part_split [OF B, of x p] whole_split [OF B, of x p]
          part_append [OF B mod, of "drop i p"] whole_append [OF B mod, of "drop i p"] by simp_all
      have "encode_spec (bxEnc e) (whole ?B (x @ p)) =
          encode_spec (bxEnc e) (whole ?B x) @ encode_spec (bxEnc e) ?buf @ encode_spec (bxEnc e) (whole ?B (drop i p))"
        using encode_spec_append [OF wf, of "whole ?B x"] encode_spec_append [OF wf mod] x bufeq by simp
      moreover have "i + length (drop i p) = length p" using i_def by simp
      ultimately show ?thesis
        using full False err fringe fl(1) e' x by (auto simp: encoder_Write_def encoded_def)
    qed
  qed
qed

lemma encoder_Close_ok:
  assumes "encoded d e x"
  shows "\<exists>e'. encoder_Close wr e = Ret None e' \<and> bxEnc e' = bxEnc e \<and>
    R (bxW e') (d @ encode_spec (bxEnc e) x)"
proof -
  let ?B = "base256BlockLen (bxEnc e)" and ?X = "baseXBlockLen (bxEnc e)"
  let ?d = "d @ encode_spec (bxEnc e) (whole ?B x)" and ?src = "take (bxNbuf e) (bxBuf e)"
  have inv: "encoder_inv e" and buf: "?src = part ?B x" and w: "R (bxW e) ?d"
    using assms by (auto simp: encoded_def)
  have wf: "wf_enc (bxEnc e)" and err: "bxErr e = None" and len: "length ?src = bxNbuf e"
    and nbuf: "bxNbuf e < ?B" and out: "length (bxOut e) = 128 * ?X"
    using inv by (auto simp: encoder_inv_def)
  have split: "encode_spec (bxEnc e) x = encode_spec (bxEnc e) (whole ?B x) @ encode_spec (bxEnc e) ?src"
    using encode_spec_split [OF wf, of x] buf by simp
  show ?thesis
  proof (cases "bxNbuf e = 0")
    case True
    with err split w show ?thesis by (simp add: encoder_Close_def)
  next
    case False
    have "EncodedLen (bxEnc e) (length ?src) \<le> length (bxOut e)"
      using encode_part_length [OF wf, of ?src] nbuf len out by simp
    from encoder_flush_ok [OF wf this w refl] obtain out' w' where
      "encoder_flush wr ?src (EncodedLen (bxEnc e) (length ?src)) e =
         Ret None (e\<lparr>bxOut := out', bxW := w', bxErr := None\<rparr>)"
      "R w' (?d @ encode_spec (bxEnc e) ?src)" by metis
    with False err split len show ?thesis by (simp add: encoder_Close_def)
  qed
qed

end

section \<open>The filter\<close>

abbreviation wanted :: "Encoding \<Rightarrow> bytes \<Rightarrow> bytes" where
  "wanted enc s \<equiv> List.filter (\<lambda>b. getByteType enc b = normalByteType) s"

lemma filtering_scan_valid:
  "\<forall>b\<in>set p. IsValidByte enc b \<Longrightarrow> filtering_scan enc n p = (Inr (wanted enc p), n + length p)"
proof (induction enc n p rule: filtering_scan.induct)
  case (2 enc n b p)
  then show ?case by (cases "getByteType enc b") (auto simp: IsValidByte_type)
qed simp

lemma filtering_scan_wanted:
  "filtering_scan enc n p = (Inr q, m) \<Longrightarrow> q = wanted enc p"
proof (induction enc n p arbitrary: q m rule: filtering_scan.induct)
  case (2 enc n b p)
  then show ?case by (cases "getByteType enc b") (auto split: prod.splits sum.splits)
qed simp

text \<open>What the decoder's source delivers is made of alphabet characters only.\<close>

definition normal :: "Encoding \<Rightarrow> bytes \<Rightarrow> bool" where
  "normal enc s \<longleftrightarrow> (\<forall>b\<in>set s. getByteType enc b = normalByteType)"

lemma normal_wanted [simp]: "normal enc (wanted enc s)"
  by (simp add: normal_def)

lemma normal_append [simp]: "normal enc (s @ t) \<longleftrightarrow> normal enc s \<and> normal enc t"
  by (auto simp: normal_def)

lemma normal_take: "normal enc s \<Longrightarrow> normal enc (take k s)"
  by (auto simp: normal_def dest: in_set_takeD)

lemma normal_drop: "normal enc s \<Longrightarrow> normal enc (drop k s)"
  by (auto simp: normal_def dest: in_set_dropD)

lemma normal_valid: "normal enc s \<Longrightarrow> \<forall>b\<in>set s. IsValidByte enc b"
  by (auto simp: normal_def IsValidByte_type)

lemma length_goods_normal: "normal enc s \<Longrightarrow> length (goods enc s) = length s"
  by (induction s) (auto simp: normal_def getByteType_def split: option.splits if_splits)

context source
begin

definition filtered :: "'r filteringReader \<Rightarrow> bytes \<Rightarrow> err \<Rightarrow> bool" where
  "filtered f bs e \<longleftrightarrow>
     (\<exists>s. R (fWrapped f) s e \<and> (\<forall>b\<in>set s. IsValidByte (fEnc f) b) \<and> bs = wanted (fEnc f) s)"

definition filter_over :: "'r filteringReader \<Rightarrow> err \<Rightarrow> bool" where
  "filter_over f e \<longleftrightarrow> Z (fWrapped f) e"

lemma filtered_step:
  assumes "R (fWrapped f) s e" "\<forall>b\<in>set s. IsValidByte (fEnc f) b" "0 < n"
  shows "\<exists>p f'. filtering_Read rd n f = Some (Ret (p, if wanted (fEnc f) s = [] then Some e else None) f') \<and>
    length p \<le> n \<and> (p = [] \<longleftrightarrow> wanted (fEnc f) s = []) \<and> fEnc f' = fEnc f \<and>
    (wanted (fEnc f) s = [] \<longrightarrow> filter_over f' e) \<and>
    (\<exists>s'. R (fWrapped f') s' e \<and> (\<forall>b\<in>set s'. IsValidByte (fEnc f) b) \<and>
       wanted (fEnc f) s = p @ wanted (fEnc f) s')"
  using assms
proof (induction "length s" arbitrary: s f rule: less_induct)
  case less
  from less.prems(1,3) show ?case
  proof (cases rule: rd_step)
    case (more k r')
    let ?p = "take k s" and ?s = "drop k s"
    have valid: "\<forall>b\<in>set ?p. IsValidByte (fEnc f) b" "\<forall>b\<in>set ?s. IsValidByte (fEnc f) b"
      using less.prems(2) by (auto dest: in_set_takeD in_set_dropD)
    have split: "wanted (fEnc f) s = wanted (fEnc f) ?p @ wanted (fEnc f) ?s"
      by (simp flip: filter_append)
    let ?f = "f\<lparr>fWrapped := r', fNRead := fNRead f + length ?p\<rparr>"
    have p: "?p \<noteq> []" using more by auto
    show ?thesis
    proof (cases "wanted (fEnc f) ?p = []")
      case False
      then have "filtering_Read rd n f = Some (Ret (wanted (fEnc f) ?p, None) ?f)"
        using more p filtering_scan_valid [OF valid(1)] by (subst filtering_Read.simps) simp
      moreover have "length (wanted (fEnc f) ?p) \<le> n" using more length_filter_le [of _ ?p] le_trans by fastforce
      moreover have "R (fWrapped ?f) ?s e" using more by simp
      ultimately show ?thesis using False valid(2) split by fastforce
    next
      case True
      then have "filtering_Read rd n f = filtering_Read rd n ?f"
        using more p filtering_scan_valid [OF valid(1)] by (subst filtering_Read.simps) simp
      moreover have "length ?s < length s" using more by simp
      moreover have "R (fWrapped ?f) ?s e" using more by simp
      ultimately show ?thesis
        using less.hyps [of ?s ?f] valid(2) less.prems(3) split True by simp
    qed
  next
    case (finish r')
    then have "filtering_Read rd n f = Some (Ret ([], Some e) (f\<lparr>fWrapped := r'\<rparr>))"
      by (subst filtering_Read.simps) simp
    with finish Z_R [OF finish(3)] show ?thesis by (auto simp: filter_over_def)
  qed
qed

lemma filtered_source: "source (filtering_Read rd) filtered filter_over"
proof
  fix f bs e and n :: nat
  assume f: "filtered f bs e" and "bs \<noteq> []" "0 < n"
  then obtain s where "R (fWrapped f) s e" "\<forall>b\<in>set s. IsValidByte (fEnc f) b" "bs = wanted (fEnc f) s"
    by (auto simp: filtered_def)
  with filtered_step [OF this(1,2) \<open>0 < n\<close>] \<open>bs \<noteq> []\<close> obtain p f' s' where
    *: "filtering_Read rd n f = Some (Ret (p, None) f')" "length p \<le> n" "p \<noteq> []" "fEnc f' = fEnc f"
      "R (fWrapped f') s' e" "\<forall>b\<in>set s'. IsValidByte (fEnc f) b" "bs = p @ wanted (fEnc f) s'"
    by auto
  then have "filtered f' (drop (length p) bs) e" by (auto simp: filtered_def)
  with * show "\<exists>k r'. 0 < k \<and> k \<le> n \<and> k \<le> length bs \<and>
      filtering_Read rd n f = Some (Ret (take k bs, None) r') \<and> filtered r' (drop k bs) e"
    by (intro exI [of _ "length p"] exI [of _ f']) simp
next
  fix f e and n :: nat
  assume f: "filtered f [] e" and "0 < n"
  then obtain s where "R (fWrapped f) s e" "\<forall>b\<in>set s. IsValidByte (fEnc f) b" "wanted (fEnc f) s = []"
    by (auto simp: filtered_def)
  with filtered_step [OF this(1,2) \<open>0 < n\<close>] show "\<exists>r'. filtering_Read rd n f = Some (Ret ([], Some e) r') \<and>
      filter_over r' e"
    by fastforce
qed (auto simp: filtered_def filter_over_def dest: Z_R)

text \<open>The decoder's source, with its two shapes.\<close>

definition feeds :: "Encoding \<Rightarrow> 'r decoderInput \<Rightarrow> bytes \<Rightarrow> err \<Rightarrow> bool" where
  "feeds enc i bs e \<longleftrightarrow> normal enc bs \<and>
     (case i of Filtered f \<Rightarrow> fEnc f = enc \<and> filtered f bs e | Plain r \<Rightarrow> R r bs e)"

definition feeds_over :: "Encoding \<Rightarrow> 'r decoderInput \<Rightarrow> err \<Rightarrow> bool" where
  "feeds_over enc i e \<longleftrightarrow>
     (case i of Filtered f \<Rightarrow> fEnc f = enc \<and> filter_over f e | Plain r \<Rightarrow> Z r e)"

lemma filtering_Read_enc:
  assumes "filtered f bs e" "0 < n" "filtering_Read rd n f = Some (Ret pe f')"
  shows "fEnc f' = fEnc f"
  using assms filtered_step [of f _ e n] by (auto simp: filtered_def)

lemma feeds_source: "source (decoderInput_Read rd) (feeds enc) (feeds_over enc)"
proof -
  note F_more = source.rd_more [OF filtered_source] and F_end = source.rd_end [OF filtered_source]
  show ?thesis
  proof
    fix i bs e and n :: nat
    assume i: "feeds enc i bs e" and "bs \<noteq> []" "0 < n"
    show "\<exists>k r'. 0 < k \<and> k \<le> n \<and> k \<le> length bs \<and>
        decoderInput_Read rd n i = Some (Ret (take k bs, None) r') \<and> feeds enc r' (drop k bs) e"
    proof (cases i)
      case (Filtered f)
      then have "filtered f bs e" using i by (simp add: feeds_def)
      from F_more [OF this \<open>bs \<noteq> []\<close> \<open>0 < n\<close>] filtering_Read_enc [OF this \<open>0 < n\<close>] i Filtered
      show ?thesis by (fastforce simp: feeds_def normal_drop)
    next
      case (Plain r)
      then have "R r bs e" using i by (simp add: feeds_def)
      from rd_more [OF this \<open>bs \<noteq> []\<close> \<open>0 < n\<close>] i Plain show ?thesis
        by (fastforce simp: feeds_def normal_drop)
    qed
  next
    fix i e and n :: nat
    assume i: "feeds enc i [] e" and "0 < n"
    show "\<exists>r'. decoderInput_Read rd n i = Some (Ret ([], Some e) r') \<and> feeds_over enc r' e"
    proof (cases i)
      case (Filtered f)
      then have "filtered f [] e" using i by (simp add: feeds_def)
      from F_end [OF this \<open>0 < n\<close>] obtain f' where
        f': "filtering_Read rd n f = Some (Ret ([], Some e) f')" "filter_over f' e" by blast
      have "fEnc f' = fEnc f" by (rule filtering_Read_enc [OF \<open>filtered f [] e\<close> \<open>0 < n\<close> f'(1)])
      with f' i Filtered show ?thesis by (simp add: feeds_def feeds_over_def)
    next
      case (Plain r)
      then have "R r [] e" using i by (simp add: feeds_def)
      from rd_end [OF this \<open>0 < n\<close>] obtain r' where
        "rd n r = Some (Ret ([], Some e) r')" "Z r' e" by blast
      with Plain show ?thesis by (simp add: feeds_over_def)
    qed
  next
    fix i e
    assume "feeds_over enc i e"
    then show "feeds enc i [] e"
      using source.Z_R [OF filtered_source] Z_R
      by (auto simp: feeds_def feeds_over_def normal_def split: decoderInput.splits)
  qed
qed

end

section \<open>Decoding in pieces\<close>

lemma dec_chunks_append:
  "dec_chunks enc (as @ bs) =
    (case dec_chunks enc as of
       (o1, None) \<Rightarrow> (case dec_chunks enc bs of (o2, e) \<Rightarrow> (o1 @ o2, e))
     | (o1, Some e) \<Rightarrow> (o1, Some e))"
  by (induction as) (auto split: prod.splits option.splits)

lemma decode_spec_split:
  assumes "wf_enc enc" "length ds1 mod baseXBlockLen enc = 0" "decode_spec enc (ds1 @ ds2) = (w, None)"
  obtains w1 w2 where "decode_spec enc ds1 = (w1, None)" "decode_spec enc ds2 = (w2, None)" "w = w1 @ w2"
proof -
  have "chunks (baseXBlockLen enc) (ds1 @ ds2) = chunks (baseXBlockLen enc) ds1 @ chunks (baseXBlockLen enc) ds2"
    by (rule chunks_append [OF baseXBlockLen_pos [OF assms(1)] assms(2)])
  with assms(3) show thesis
    by (auto simp: decode_spec_def dec_chunks_append intro: that split: prod.splits option.splits)
qed

lemma DecodedLen_valid_pos:
  assumes wf: "wf_enc enc" and "IsValidEncodingLength enc k" "0 < k" "k \<le> baseXBlockLen enc"
  shows "0 < DecodedLen enc k"
proof (cases "k = baseXBlockLen enc")
  case False
  then have lt: "k < baseXBlockLen enc" using assms(4) by simp
  have "floorLen enc (int k) \<noteq> floorLen enc (int k - 1)"
    using assms(2) False by (simp add: IsValidEncodingLength_def)
  then have "floor_log256 (base enc ^ k) \<noteq> floor_log256 (base enc ^ (k - 1))"
    using assms(3) by (auto simp: floorLen_def nat_diff_distrib)
  moreover have "floor_log256 (base enc ^ (k - 1)) \<le> floor_log256 (base enc ^ k)"
    using wf_enc_base_pos [OF wf] by (intro floor_log256_mono power_increasing) simp_all
  ultimately show ?thesis using lt assms(3) by (simp add: DecodedLen_def Let_def)
qed (simp add: DecodedLen_def wf_encD [OF wf])

lemma dec_chunks_length:
  assumes wf: "wf_enc enc"
  shows "dec_chunks enc (chunks (baseXBlockLen enc) ds) = (w, None) \<Longrightarrow>
    length w = DecodedLen enc (length ds) \<and> (ds \<noteq> [] \<longrightarrow> w \<noteq> [])"
proof (induction "baseXBlockLen enc" ds arbitrary: w rule: chunks.induct)
  case (1 ds)
  let ?X = "baseXBlockLen enc"
  note X = baseXBlockLen_pos [OF wf]
  show ?case
  proof (cases "ds = []")
    case False
    with "1.prems" X obtain w2 where valid: "IsValidEncodingLength enc (length (take ?X ds))"
      and w2: "dec_chunks enc (chunks ?X (drop ?X ds)) = (w2, None)" "w = dec_block enc (take ?X ds) @ w2"
      by (auto simp: chunks_step split: if_splits prod.splits)
    have len: "length w2 = DecodedLen enc (length (drop ?X ds))" using 1 X False w2(1) by simp
    have "0 < DecodedLen enc (length (take ?X ds))"
      using DecodedLen_valid_pos [OF wf valid] False X by simp
    then have "w \<noteq> []" using w2(2) by (metis append_is_Nil_conv length_dec_block length_greater_0_conv)
    moreover have "DecodedLen enc (length ds) = DecodedLen enc (min (length ds) ?X) + DecodedLen enc (length ds - ?X)"
    proof (cases "?X \<le> length ds")
      case True
      then show ?thesis
        using DecodedLen_add_block [OF wf, of "length ds - ?X"] DecodedLen_add_block [OF wf, of 0] wf
        by (simp add: min_absorb2)
    qed (simp add: wf)
    ultimately show ?thesis using w2 len by simp
  qed (use "1.prems" wf in simp)
qed

lemma decode_spec_length:
  "wf_enc enc \<Longrightarrow> decode_spec enc ds = (w, None) \<Longrightarrow> length w = DecodedLen enc (length ds) \<and> (ds \<noteq> [] \<longrightarrow> w \<noteq> [])"
  unfolding decode_spec_def by (rule dec_chunks_length)

lemma DecodedLen_le:
  assumes wf: "wf_enc enc"
  shows "DecodedLen enc n \<le> n"
proof -
  have small: "floor_log256 (base enc ^ k) \<le> k" for k
  proof (rule ccontr)
    assume "\<not> floor_log256 (base enc ^ k) \<le> k"
    then have "256 ^ Suc k \<le> base enc ^ k"
      using wf_enc_base_pos [OF wf] by (subst (asm) not_le, subst (asm) Suc_le_eq [symmetric],
        subst (asm) le_floor_log256_iff) simp_all
    moreover have "base enc ^ k \<le> 256 ^ k" using wf_encD(2) [OF wf] by (rule power_mono) simp
    moreover have "(256 :: nat) ^ k < 256 ^ Suc k" by simp
    ultimately show False by linarith
  qed
  have "base256BlockLen enc \<le> baseXBlockLen enc"
    using small [of "baseXBlockLen enc"] floor_log_EncodedLen [OF wf order_refl] by (simp add: EncodedLen_full)
  then have "n div baseXBlockLen enc * base256BlockLen enc + floor_log256 (base enc ^ (n mod baseXBlockLen enc))
      \<le> n div baseXBlockLen enc * baseXBlockLen enc + n mod baseXBlockLen enc"
    by (intro add_mono small mult_le_mono2)
  then show ?thesis by (simp add: DecodedLen_gen [OF wf])
qed

lemma blockX_le: "wf_enc enc \<Longrightarrow> baseXBlockLen enc \<le> 8192 * base256BlockLen enc"
proof -
  assume wf: "wf_enc enc"
  have "(256 :: nat) ^ base256BlockLen enc = 2 ^ (8 * base256BlockLen enc)" by (simp add: power_mult)
  also have "\<dots> \<le> base enc ^ (8 * base256BlockLen enc)" using wf_encD(1) [OF wf] by (rule power_mono) simp
  finally have "baseXBlockLen enc \<le> 8 * base256BlockLen enc"
    using wf by (simp add: wf_encD least_exp_le_iff)
  then show ?thesis by simp
qed

lemma blockX_ge: "wf_enc enc \<Longrightarrow> base256BlockLen enc \<le> baseXBlockLen enc"
  using DecodedLen_le [of enc "baseXBlockLen enc"] by (simp add: DecodedLen_def)

text \<open>\<open>Decode\<close> on alphabet characters, with room.\<close>

lemma decodeBlock_length: "decodeBlock enc dst src bo = Ok (dst', n, si) \<Longrightarrow> length dst' = length dst"
  by (auto simp: decodeBlock_def Let_def split: if_splits)

lemma decode_loop_length: "decode_loop enc dst src sp dp = Ok (dst', n, e) \<Longrightarrow> length dst' = length dst"
proof (induction enc dst src sp dp rule: decode_loop.induct)
  case (1 enc dst src sp dp)
  show ?case
  proof (cases "sp < length src")
    case True
    show ?thesis
    proof (cases "decodeBlock enc (drop dp dst) (drop sp src) sp")
      case (Ok r)
      obtain d di si where r: "r = (d, di, si)" by (cases r) auto
      with Ok True "1.prems" have "decode_loop enc (take dp dst @ d) src (sp + si) (dp + di) = Ok (dst', n, e)"
        by (subst (asm) decode_loop.simps) simp
      from "1.IH" [OF True Ok [unfolded r] refl refl this] decodeBlock_length [OF Ok [unfolded r]]
      show ?thesis by simp
    qed (use True "1.prems" in \<open>subst (asm) decode_loop.simps, simp\<close>)+
  qed (use "1.prems" in \<open>subst (asm) decode_loop.simps, simp\<close>)
qed

lemma Decode_length: "Decode enc dst src = Ok (dst', n, e) \<Longrightarrow> length dst' = length dst"
  unfolding Decode_def by (rule decode_loop_length)

lemma Decode_normal:
  assumes "wf_enc enc" "normal enc s" "DecodedLen enc (length s) \<le> length dst"
    and "decode_spec enc (goods enc s) = (w, e)"
  obtains rest where "Decode enc dst s = Ok (w @ rest, length w, e)" "length (w @ rest) = length dst"
proof -
  have "DecodedLen enc (length (goods enc s)) \<le> length dst" using assms(2,3) by (simp add: length_goods_normal)
  from Decode_valid [OF assms(1) normal_valid [OF assms(2)] this assms(4)] obtain rest where
    "Decode enc dst s = Ok (w @ rest, length w, e)" .
  with that Decode_length show thesis by metis
qed

lemma decode_spec_le:
  assumes "wf_enc enc" "normal enc s" "decode_spec enc (goods enc s) = (w, e)"
  shows "length w \<le> DecodedLen enc (length s)"
proof -
  from Decode_normal [OF assms(1,2) _ assms(3), of "replicate (DecodedLen enc (length s)) 0"]
  obtain rest where "length (w @ rest) = DecodedLen enc (length s)" by auto
  then show ?thesis by simp
qed

section \<open>The decoder\<close>

definition decoder_inv :: "'r bxDecoder \<Rightarrow> bool" where
  "decoder_inv d \<longleftrightarrow> wf_enc (dEnc d) \<and> length (dBuf d) = 8192 * base256BlockLen (dEnc d) \<and>
     length (dScratch d) = 8192 * baseXBlockLen (dEnc d) \<and>
     dNbuf d \<le> length (dBuf d) \<and> normal (dEnc d) (take (dNbuf d) (dBuf d))"

lemma NewDecoder_inv: "wf_enc enc \<Longrightarrow> decoder_inv (NewDecoder enc r)"
  by (simp add: decoder_inv_def NewDecoder_def normal_def)

text \<open>
  One decoding step, for any alphabet characters: what is decoded is split between the slice
  and the left-over output.
\<close>

lemma decoder_decode_step:
  fixes d :: "'r bxDecoder"
  defines "k \<equiv> \<lambda>eof. if eof then dNbuf d else dNbuf d div baseXBlockLen (dEnc d) * baseXBlockLen (dEnc d)"
  assumes inv: "decoder_inv d" and out: "dOut d = []" and n: "0 < n"
    and dec: "decode_spec (dEnc d) (goods (dEnc d) (take (k eof) (dBuf d))) = (w, e)"
  obtains d' where
    "decoder_decode n eof d =
       Ret (if w = [] \<and> e = None then ([], Some EOF) else (take n w, e)) d'"
    "dErr d' = e" "dOut d' = drop n w" "dEnc d' = dEnc d" "dR d' = dR d" "decoder_inv d'"
    "dNbuf d' = dNbuf d - k eof" "take (dNbuf d') (dBuf d') = drop (k eof) (take (dNbuf d) (dBuf d))"
proof -
  let ?enc = "dEnc d" and ?src = "take (k eof) (dBuf d)"
  have wf: "wf_enc ?enc" and nb: "dNbuf d \<le> length (dBuf d)" using inv by (simp_all add: decoder_inv_def)
  have k: "k eof \<le> dNbuf d" by (simp add: k_def)
  have norm: "normal ?enc ?src"
    using inv k normal_take [of ?enc "take (dNbuf d) (dBuf d)" "k eof"] by (simp add: decoder_inv_def min_absorb1)
  have len: "length ?src = k eof" using k nb by simp
  have bound: "length w \<le> DecodedLen ?enc (k eof)"
    using decode_spec_le [OF wf norm dec] len by simp
  let ?rest = "dNbuf d - k eof"
  let ?shift = "\<lambda>d :: 'r bxDecoder. d\<lparr>dNbuf := ?rest,
      dBuf := take ?rest (drop (k eof) (dBuf d)) @ drop ?rest (dBuf d)\<rparr>"
  have rest: "take ?rest (drop (k eof) (dBuf d)) = drop (k eof) (take (dNbuf d) (dBuf d))"
    by (simp add: drop_take)
  have norm': "normal ?enc (drop (k eof) (take (dNbuf d) (dBuf d)))"
    using inv normal_drop by (simp add: decoder_inv_def)
  have lrest: "length (take ?rest (drop (k eof) (dBuf d))) = ?rest" using nb k by simp
  have n0: "n \<noteq> 0" using n by simp
  show thesis
  proof (cases "DecodedLen ?enc (k eof) > n")
    case True
    have "DecodedLen ?enc (length ?src) \<le> length (dScratch d)"
      using DecodedLen_le [OF wf, of "k eof"] blockX_ge [OF wf] inv k len by (simp add: decoder_inv_def)
    from Decode_normal [OF wf norm this dec] obtain r where
      r: "Decode ?enc (dScratch d) ?src = Ok (w @ r, length w, e)" "length (w @ r) = length (dScratch d)" .
    let ?d = "?shift (d\<lparr>dScratch := w @ r, dErr := e, dOut := drop n w\<rparr>)"
    have "decoder_decode n eof d = Ret (if w = [] \<and> e = None then ([], Some EOF) else (take n w, e)) ?d"
      using True r n0 by (simp add: decoder_decode_def Let_def k_def)
    moreover have "decoder_inv ?d"
      using inv r(2) norm' rest lrest nb k unfolding decoder_inv_def by simp
    ultimately show thesis using rest lrest by (intro that [of ?d]) simp_all
  next
    case False
    then have "DecodedLen ?enc (length ?src) \<le> length (replicate n (0 :: byte))" using len by simp
    from Decode_normal [OF wf norm this dec] obtain r where
      r: "Decode ?enc (replicate n 0) ?src = Ok (w @ r, length w, e)" .
    let ?d = "?shift (d\<lparr>dErr := e\<rparr>)"
    have w: "length w \<le> n" using bound False by simp
    have "decoder_decode n eof d = Ret (if w = [] \<and> e = None then ([], Some EOF) else (take n w, e)) ?d"
      using False r n0 w by (simp add: decoder_decode_def Let_def k_def)
    moreover have "decoder_inv ?d"
      using inv norm' rest lrest nb k unfolding decoder_inv_def by simp
    ultimately show thesis using rest lrest out w by (intro that [of ?d]) simp_all
  qed
qed

lemma decoder_inv_append:
  assumes "decoder_inv d" "normal (dEnc d) p" "dNbuf d + length p \<le> length (dBuf d)"
    and "d' = d\<lparr>dR := r, dErr := e, dNbuf := dNbuf d + length p,
      dBuf := take (dNbuf d) (dBuf d) @ p @ drop (dNbuf d + length p) (dBuf d)\<rparr>"
  shows "decoder_inv d'" "take (dNbuf d') (dBuf d') = take (dNbuf d) (dBuf d) @ p"
  using assms by (simp_all add: decoder_inv_def)

context source
begin

lemma decoder_fill_source:
  assumes "decoder_inv d" "feeds (dEnc d) (dR d) s e" "dErr d = None"
    and "baseXBlockLen (dEnc d) \<le> nn" "nn \<le> length (dBuf d)" "dNbuf d \<le> nn"
  shows "\<exists>d' s1 s2. decoder_fill rd nn d = Some (Ret () d') \<and> s = s1 @ s2 \<and> decoder_inv d' \<and>
    dEnc d' = dEnc d \<and> dOut d' = dOut d \<and>
    take (dNbuf d') (dBuf d') = take (dNbuf d) (dBuf d) @ s1 \<and> feeds (dEnc d) (dR d') s2 e \<and>
    (dErr d' = None \<and> baseXBlockLen (dEnc d) \<le> dNbuf d' \<or>
     dErr d' = Some e \<and> s2 = [] \<and> dNbuf d' < baseXBlockLen (dEnc d) \<and> feeds_over (dEnc d) (dR d') e)"
  using assms
proof (induction "length s" arbitrary: s d rule: less_induct)
  case less
  show ?case
  proof (cases "dNbuf d < baseXBlockLen (dEnc d)")
    case False
    then have "decoder_fill rd nn d = Some (Ret () d)" by (subst decoder_fill.simps) simp
    with False less.prems show ?thesis by (intro exI [of _ d] exI [of _ "[]"] exI [of _ s]) auto
  next
    case True
    then have room: "0 < nn - dNbuf d" using less.prems(4) by simp
    from less.prems(2) room show ?thesis
    proof (cases rule: source.rd_step [OF feeds_source, consumes 2, case_names more finish])
      case (more k i)
      let ?p = "take k s"
      let ?d = "d\<lparr>dR := i, dErr := None, dNbuf := dNbuf d + length ?p,
        dBuf := take (dNbuf d) (dBuf d) @ ?p @ drop (dNbuf d + length ?p) (dBuf d)\<rparr>"
      have p: "normal (dEnc d) ?p" using less.prems(2) by (simp add: feeds_def normal_take)
      have fits: "dNbuf d + length ?p \<le> nn" using more less.prems(6) by simp
      note inv = decoder_inv_append [OF less.prems(1) p order_trans [OF fits less.prems(5)] refl, where r = i and e = None]
      have step: "decoder_fill rd nn d = decoder_fill rd nn ?d"
        using True less.prems(3) more by (subst decoder_fill.simps) simp
      have "length (dBuf ?d) = length (dBuf d)" using fits less.prems(5) by simp
      moreover have "length (drop k s) < length s" using more by simp
      ultimately obtain d' s1 s2 where "decoder_fill rd nn ?d = Some (Ret () d')" "drop k s = s1 @ s2"
        "decoder_inv d'" "dEnc d' = dEnc d" "dOut d' = dOut d"
        "take (dNbuf d') (dBuf d') = (take (dNbuf d) (dBuf d) @ ?p) @ s1" "feeds (dEnc d) (dR d') s2 e"
        "dErr d' = None \<and> baseXBlockLen (dEnc d) \<le> dNbuf d' \<or>
          dErr d' = Some e \<and> s2 = [] \<and> dNbuf d' < baseXBlockLen (dEnc d) \<and> feeds_over (dEnc d) (dR d') e"
        using less.hyps [of "drop k s" ?d] inv more less.prems(3,4,5) fits by auto
      moreover from this(2) have "s = (?p @ s1) @ s2" by (metis append.assoc append_take_drop_id)
      ultimately show ?thesis using step by (intro exI [of _ d'] exI [of _ "?p @ s1"] exI [of _ s2]) simp
    next
      case (finish i)
      let ?d = "d\<lparr>dR := i, dErr := Some e\<rparr>"
      have "decoder_fill rd nn d = Some (Ret () ?d)"
        using True less.prems(3) finish by (subst decoder_fill.simps, simp) (subst decoder_fill.simps, simp)
      with finish True less.prems(1) source.Z_R [OF feeds_source finish(3)] show ?thesis
        by (intro exI [of _ ?d] exI [of _ "[]"]) (simp add: decoder_inv_def)
    qed
  qed
qed

text \<open>
  The decoder still delivers \<open>bs\<close>: what it has decoded and not handed out, and the decoding of
  the characters it holds and will read, which form a valid encoding.
\<close>

definition decoded :: "'r bxDecoder \<Rightarrow> bytes \<Rightarrow> err \<Rightarrow> bool" where
  "decoded d bs e \<longleftrightarrow> e = EOF \<and> decoder_inv d \<and>
     (case dErr d of
        Some e' \<Rightarrow> e' = EOF \<and> bs = [] \<and> feeds_over (dEnc d) (dR d) EOF
      | None \<Rightarrow> dNbuf d < baseXBlockLen (dEnc d) \<and>
          (\<exists>s w. feeds (dEnc d) (dR d) s EOF \<and>
             decode_spec (dEnc d) (goods (dEnc d) (take (dNbuf d) (dBuf d) @ s)) = (w, None) \<and>
             bs = dOut d @ w))"

definition decoder_over :: "'r bxDecoder \<Rightarrow> err \<Rightarrow> bool" where
  "decoder_over d e \<longleftrightarrow> decoded d [] e \<and> feeds_over (dEnc d) (dR d) EOF"

lemma decoder_step:
  assumes d: "decoded d bs EOF" and n: "0 < n"
  shows "\<exists>k d'. decoder_Read rd n d = Some (Ret (take k bs, if bs = [] then Some EOF else None) d') \<and>
    (bs = [] \<longrightarrow> decoder_over d' EOF) \<and>
    k \<le> n \<and> k \<le> length bs \<and> (bs \<noteq> [] \<longrightarrow> 0 < k) \<and> decoded d' (drop k bs) EOF"
proof (cases "dErr d")
  case (Some e)
  with d show ?thesis
    by (intro exI [of _ 0] exI [of _ d]) (simp add: decoded_def decoder_over_def decoder_Read_def)
next
  case None
  let ?enc = "dEnc d" and ?X = "baseXBlockLen (dEnc d)"
  obtain s w where inv: "decoder_inv d" and nb: "dNbuf d < ?X" and s: "feeds ?enc (dR d) s EOF"
    and w: "decode_spec ?enc (goods ?enc (take (dNbuf d) (dBuf d) @ s)) = (w, None)" "bs = dOut d @ w"
    using d None by (auto simp: decoded_def)
  show ?thesis
  proof (cases "dOut d = []")
    case False
    let ?d = "d\<lparr>dOut := drop n (dOut d)\<rparr>"
    have "decoder_Read rd n d = Some (Ret (take n (dOut d), None) ?d)"
      using None False by (simp add: decoder_Read_def)
    moreover have "decoded ?d (drop n (dOut d) @ w) EOF"
      using inv nb s w None by (auto simp: decoded_def decoder_inv_def)
    ultimately show ?thesis
      using False n w by (intro exI [of _ "min n (length (dOut d))"] exI [of _ ?d]) (auto simp: min_def)
  next
    case True
    have wf: "wf_enc ?enc" and len: "length (dBuf d) = 8192 * base256BlockLen ?enc"
      using inv by (simp_all add: decoder_inv_def)
    define nn where "nn = min (max (n div base256BlockLen ?enc * ?X) ?X) (length (dBuf d))"
    have nn: "?X \<le> nn" "nn \<le> length (dBuf d)" using blockX_le [OF wf] len by (auto simp: nn_def)
    have X: "0 < ?X" "0 < base256BlockLen ?enc" using baseXBlockLen_pos [OF wf] wf_encD(3) [OF wf] by simp_all
    from decoder_fill_source [OF inv s None nn] nb nn obtain d1 s1 s2 where
      fill: "decoder_fill rd nn d = Some (Ret () d1)" "s = s1 @ s2" and d1: "decoder_inv d1"
        "dEnc d1 = ?enc" "dOut d1 = []" and held: "take (dNbuf d1) (dBuf d1) = take (dNbuf d) (dBuf d) @ s1"
        and rest: "feeds ?enc (dR d1) s2 EOF" and ends: "dErr d1 = None \<and> ?X \<le> dNbuf d1 \<or>
          dErr d1 = Some EOF \<and> s2 = [] \<and> dNbuf d1 < ?X \<and> feeds_over ?enc (dR d1) EOF"
      using True by auto
    let ?s = "take (dNbuf d1) (dBuf d1)"
    have dec: "decode_spec ?enc (goods ?enc ?s @ goods ?enc s2) = (w, None)" using w fill held by simp
    have bs: "bs = w" using w True by simp
    have norm: "normal ?enc ?s" and lens: "length ?s = dNbuf d1" using d1 by (simp_all add: decoder_inv_def)
    show ?thesis
    proof (cases "dErr d1")
      case N: None
      then have full: "?X \<le> dNbuf d1" using ends by simp
      define k where "k = dNbuf d1 div ?X * ?X"
      have k: "k \<le> dNbuf d1" "0 < k" "dNbuf d1 - k < ?X"
        using full X by (simp_all add: k_def div_greater_zero_iff minus_div_mult_eq_mod)
      have len1: "length (goods ?enc (take k ?s)) = k"
        using k(1) lens length_goods_normal [OF normal_take [OF norm, of k]] by (simp add: min_absorb1)
      have "goods ?enc ?s = goods ?enc (take k ?s) @ goods ?enc (drop k ?s)"
        by (metis append_take_drop_id goods_append)
      then have split: "decode_spec ?enc (goods ?enc (take k ?s) @ goods ?enc (drop k ?s @ s2)) = (w, None)"
        using dec by simp
      have "length (goods ?enc (take k ?s)) mod ?X = 0" unfolding len1 by (simp add: k_def)
      from decode_spec_split [OF wf this split] obtain w1 w2 where
        w12: "decode_spec ?enc (goods ?enc (take k ?s)) = (w1, None)"
          "decode_spec ?enc (goods ?enc (drop k ?s @ s2)) = (w2, None)" "w = w1 @ w2" .
      have "goods ?enc (take k ?s) \<noteq> []" using len1 k(2) by auto
      then have w1: "w1 \<noteq> []" using decode_spec_length [OF wf w12(1)] by simp
      have "decode_spec (dEnc d1) (goods (dEnc d1) (take (if False then dNbuf d1 else
          dNbuf d1 div baseXBlockLen (dEnc d1) * baseXBlockLen (dEnc d1)) (dBuf d1))) = (w1, None)"
        using w12(1) k(1) d1(2) by (simp add: k_def min_absorb2)
      from decoder_decode_step [OF d1(1,3) n this] w1 obtain d2 where
        d2: "decoder_decode n False d1 = Ret (take n w1, None) d2" "dErr d2 = None" "dOut d2 = drop n w1"
          "dEnc d2 = ?enc" "dR d2 = dR d1" "decoder_inv d2" "dNbuf d2 = dNbuf d1 - k"
          "take (dNbuf d2) (dBuf d2) = drop k ?s"
        unfolding d1(2) k_def by auto
      have "decoder_Read rd n d = Some (Ret (take n w1, None) d2)"
        using None True X fill(1) N d2(1) by (simp add: decoder_Read_def nn_def)
      moreover have "decoded d2 (drop n w1 @ w2) EOF"
        using d2 rest w12(2) k(3) by (auto simp: decoded_def)
      ultimately show ?thesis
        using w1 n w12(3) bs by (intro exI [of _ "min n (length w1)"] exI [of _ d2]) (auto simp: min_def)
    next
      case (Some e)
      then have e: "e = EOF" "s2 = []" and over: "feeds_over ?enc (dR d1) EOF" using ends by auto
      show ?thesis
      proof (cases "dNbuf d1 = 0")
        case zero: True
        then have "w = []" using dec e wf by (simp add: decode_spec_def)
        moreover have "decoder_Read rd n d = Some (Ret ([], Some EOF) d1)"
          using None True X fill(1) Some e zero by (simp add: decoder_Read_def nn_def)
        moreover have "decoded d1 [] EOF" "decoder_over d1 EOF"
          using d1 Some e over by (simp_all add: decoded_def decoder_over_def)
        ultimately show ?thesis using bs by (intro exI [of _ 0] exI [of _ d1]) simp
      next
        case False
        let ?d1 = "d1\<lparr>dErr := None\<rparr>"
        have "goods ?enc ?s \<noteq> []" using length_goods_normal [OF norm] lens False by auto
        then have w0: "w \<noteq> []" using decode_spec_length [OF wf, of "goods ?enc ?s" w] dec e by simp
        have inv1: "decoder_inv ?d1" "dOut ?d1 = []" using d1 by (simp_all add: decoder_inv_def)
        have "decode_spec (dEnc ?d1) (goods (dEnc ?d1) (take (if True then dNbuf ?d1 else
            dNbuf ?d1 div baseXBlockLen (dEnc ?d1) * baseXBlockLen (dEnc ?d1)) (dBuf ?d1))) = (w, None)"
          using dec e d1(2) by simp
        from decoder_decode_step [OF inv1 n this] w0 obtain d2 where
          d2: "decoder_decode n True ?d1 = Ret (take n w, None) d2" "dErr d2 = None" "dOut d2 = drop n w"
            "dEnc d2 = ?enc" "dR d2 = dR d1" "decoder_inv d2" "dNbuf d2 = 0"
          using d1(2) by auto
        have "decoder_Read rd n d = Some (Ret (take n w, None) d2)"
          using None True X fill(1) Some e False d2(1) by (simp add: decoder_Read_def nn_def)
        moreover have "decode_spec ?enc (goods ?enc []) = ([], None)" by (simp add: decode_spec_def)
        then have "decoded d2 (drop n w) EOF" using d2 rest e X by (auto simp: decoded_def)
        ultimately show ?thesis
          using w0 n bs by (intro exI [of _ "min n (length w)"] exI [of _ d2]) (auto simp: min_def)
      qed
    qed
  qed
qed

lemma decoder_source: "source (decoder_Read rd) decoded decoder_over"
proof
  fix d bs e and n :: nat
  assume "decoded d bs e" "bs \<noteq> []" "0 < n"
  then show "\<exists>k r'. 0 < k \<and> k \<le> n \<and> k \<le> length bs \<and>
      decoder_Read rd n d = Some (Ret (take k bs, None) r') \<and> decoded r' (drop k bs) e"
    using decoder_step [of d bs n] by (auto simp: decoded_def)
next
  fix d e and n :: nat
  assume "decoded d [] e" "0 < n"
  then show "\<exists>r'. decoder_Read rd n d = Some (Ret ([], Some e) r') \<and> decoder_over r' e"
    using decoder_step [of d "[]" n] by (auto simp: decoded_def)
qed (simp add: decoder_over_def)

lemma NewDecoder_decoded:
  assumes "wf_enc enc" "hasSkipBytes enc" "R r s EOF" "\<forall>b\<in>set s. IsValidByte enc b"
    and "decode_spec enc (goods enc s) = (w, None)"
  shows "decoded (NewDecoder enc r) w EOF"
proof -
  have "feeds enc (Filtered \<lparr>fWrapped = r, fEnc = enc, fNRead = 0\<rparr>) (wanted enc s) EOF"
    using assms by (auto simp: feeds_def filtered_def)
  with assms NewDecoder_inv [OF assms(1), of r] baseXBlockLen_pos [OF assms(1)] goods_filter [of enc s]
  show ?thesis
    by (auto simp: decoded_def NewDecoder_def intro!: exI [of _ "wanted enc s"])
qed

end

section \<open>The decoder on any characters\<close>

context finite_source
begin

lemma filtering_ends:
  assumes "I (fWrapped f)" "0 < n"
  shows "\<exists>p e f'. filtering_Read rd n f = Some (Ret (p, e) f') \<and> I (fWrapped f') \<and> fEnc f' = fEnc f \<and>
    length p \<le> n \<and> length p + size_of (fWrapped f') \<le> size_of (fWrapped f) \<and>
    (e = None \<longrightarrow> p \<noteq> []) \<and> normal (fEnc f) p"
  using assms
proof (induction "size_of (fWrapped f)" arbitrary: f rule: less_induct)
  case less
  obtain p e r where r: "rd n (fWrapped f) = Some (Ret (p, e) r)" "I r" "length p \<le> n"
      "length p + size_of r \<le> size_of (fWrapped f)" "e = None \<longrightarrow> p \<noteq> []"
    using rd_ends [OF less.prems] by blast
  show ?case
  proof (cases "p = []")
    case True
    with r show ?thesis by (subst filtering_Read.simps) (auto simp: normal_def)
  next
    case p: False
    obtain x m where scan: "filtering_scan (fEnc f) (fNRead f) p = (x, m)" by fastforce
    show ?thesis
    proof (cases x)
      case (Inl k)
      with r p scan show ?thesis by (subst filtering_Read.simps) (auto simp: normal_def)
    next
      case (Inr q)
      have q: "q = wanted (fEnc f) p" using filtering_scan_wanted scan Inr by blast
      let ?f = "f\<lparr>fWrapped := r, fNRead := m\<rparr>"
      show ?thesis
      proof (cases "q = []")
        case True
        have "filtering_Read rd n f = filtering_Read rd n ?f"
          using r p scan Inr True by (subst filtering_Read.simps) simp
        moreover have "size_of (fWrapped ?f) < size_of (fWrapped f)" using r(4) p by (cases p) simp_all
        from less.hyps [OF this] r(2) less.prems(2) obtain q' e' f' where
          "filtering_Read rd n ?f = Some (Ret (q', e') f')" "I (fWrapped f')" "fEnc f' = fEnc f" "length q' \<le> n"
          "length q' + size_of (fWrapped f') \<le> size_of r" "e' = None \<longrightarrow> q' \<noteq> []" "normal (fEnc f) q'"
          by auto
        ultimately show ?thesis using r(4) by auto
      next
        case False
        have "filtering_Read rd n f = Some (Ret (q, e) ?f)"
          using r p scan Inr False by (subst filtering_Read.simps) simp
        moreover have "length q \<le> length p" "normal (fEnc f) q" unfolding q by simp_all
        ultimately show ?thesis using r False by (intro exI [of _ q] exI [of _ e] exI [of _ ?f]) simp
      qed
    qed
  qed
qed

definition decoder_I :: "'r bxDecoder \<Rightarrow> bool" where
  "decoder_I d \<longleftrightarrow> decoder_inv d \<and> (dErr d = None \<longrightarrow> dNbuf d < baseXBlockLen (dEnc d)) \<and>
     (\<exists>f. dR d = Filtered f \<and> fEnc f = dEnc d \<and> I (fWrapped f))"

definition decoder_size :: "'r bxDecoder \<Rightarrow> nat" where
  "decoder_size d =
     (case dR d of Filtered f \<Rightarrow> size_of (fWrapped f) | Plain r \<Rightarrow> size_of r) + dNbuf d + length (dOut d)"

lemma NewDecoder_I: "wf_enc enc \<Longrightarrow> hasSkipBytes enc \<Longrightarrow> I r \<Longrightarrow> decoder_I (NewDecoder enc r)"
  using NewDecoder_inv [of enc r] baseXBlockLen_pos [of enc] by (simp add: decoder_I_def NewDecoder_def)

lemma decoder_fill_ends:
  assumes "decoder_inv d" "dR d = Filtered f" "fEnc f = dEnc d" "I (fWrapped f)"
    and "baseXBlockLen (dEnc d) \<le> nn" "nn \<le> length (dBuf d)" "dNbuf d \<le> nn"
  shows "\<exists>d' f'. decoder_fill rd nn d = Some (Ret () d') \<and> decoder_inv d' \<and> dEnc d' = dEnc d \<and>
    dOut d' = dOut d \<and> dR d' = Filtered f' \<and> fEnc f' = dEnc d \<and> I (fWrapped f') \<and>
    decoder_size d' \<le> decoder_size d \<and> (dErr d' = None \<longrightarrow> baseXBlockLen (dEnc d) \<le> dNbuf d')"
  using assms
proof (induction "size_of (fWrapped f)" arbitrary: d f rule: less_induct)
  case less
  show ?case
  proof (cases "dNbuf d < baseXBlockLen (dEnc d) \<and> dErr d = None")
    case False
    then have "decoder_fill rd nn d = Some (Ret () d)" by (subst decoder_fill.simps) auto
    with False less.prems show ?thesis by auto
  next
    case True
    then have "0 < nn - dNbuf d" using less.prems(5) by simp
    from filtering_ends [OF less.prems(4) this] obtain p e f' where
      f': "filtering_Read rd (nn - dNbuf d) f = Some (Ret (p, e) f')" "I (fWrapped f')" "fEnc f' = dEnc d"
        "length p \<le> nn - dNbuf d" "length p + size_of (fWrapped f') \<le> size_of (fWrapped f)"
        "e = None \<longrightarrow> p \<noteq> []" "normal (dEnc d) p"
      using less.prems(3) by auto
    let ?d = "d\<lparr>dR := Filtered f', dErr := e, dNbuf := dNbuf d + length p,
        dBuf := take (dNbuf d) (dBuf d) @ p @ drop (dNbuf d + length p) (dBuf d)\<rparr>"
    have fits: "dNbuf d + length p \<le> nn" using f'(4) less.prems(7) by simp
    note inv = decoder_inv_append [OF less.prems(1) f'(7) order_trans [OF fits less.prems(6)] refl,
        where r = "Filtered f'" and e = e]
    have step: "decoder_fill rd nn d = decoder_fill rd nn ?d"
      using True less.prems(2) f'(1) by (subst decoder_fill.simps) simp
    have size: "decoder_size ?d \<le> decoder_size d" using f'(5) less.prems(2) by (simp add: decoder_size_def)
    show ?thesis
    proof (cases e)
      case (Some e')
      then have "decoder_fill rd nn ?d = Some (Ret () ?d)" by (subst decoder_fill.simps) simp
      with step inv f' size Some show ?thesis by (intro exI [of _ ?d] exI [of _ f']) simp
    next
      case None
      then have "size_of (fWrapped f') < size_of (fWrapped f)" using f'(5,6) by (cases p) simp_all
      moreover have "length (dBuf ?d) = length (dBuf d)" using fits less.prems(6) by simp
      ultimately obtain d2 f2 where "decoder_fill rd nn ?d = Some (Ret () d2)" "decoder_inv d2"
        "dEnc d2 = dEnc d" "dOut d2 = dOut d" "dR d2 = Filtered f2" "fEnc f2 = dEnc d" "I (fWrapped f2)"
        "decoder_size d2 \<le> decoder_size ?d" "dErr d2 = None \<longrightarrow> baseXBlockLen (dEnc d) \<le> dNbuf d2"
        using less.hyps [of f' ?d] inv(1) f'(2,3) less.prems(5,6) fits by auto
      with step size show ?thesis by (intro exI [of _ d2] exI [of _ f2]) simp
    qed
  qed
qed

lemma decoder_decode_ends:
  fixes d :: "'r bxDecoder"
  defines "k \<equiv> \<lambda>eof. if eof then dNbuf d else dNbuf d div baseXBlockLen (dEnc d) * baseXBlockLen (dEnc d)"
  assumes inv: "decoder_inv d" and out: "dOut d = []" and n: "0 < n"
    and f: "dR d = Filtered f" "fEnc f = dEnc d" "I (fWrapped f)"
  shows "\<exists>p e d'. decoder_decode n eof d = Ret (p, e) d' \<and> decoder_I d' \<and> length p \<le> n \<and>
    length p + decoder_size d' \<le> decoder_size d \<and> (e = None \<longrightarrow> p \<noteq> [])"
proof -
  let ?s = "take (k eof) (dBuf d)"
  obtain w e where w: "decode_spec (dEnc d) (goods (dEnc d) ?s) = (w, e)" by fastforce
  then have w': "decode_spec (dEnc d) (goods (dEnc d) (take (if eof then dNbuf d
      else dNbuf d div baseXBlockLen (dEnc d) * baseXBlockLen (dEnc d)) (dBuf d))) = (w, e)"
    by (simp add: k_def)
  obtain d' where d': "decoder_decode n eof d = Ret (if w = [] \<and> e = None then ([], Some EOF) else (take n w, e)) d'"
    "dErr d' = e" "dOut d' = drop n w" "dEnc d' = dEnc d" "dR d' = dR d" "decoder_inv d'"
    "dNbuf d' = dNbuf d - k eof"
    by (rule decoder_decode_step [OF inv out n w']) (rule that, assumption+, simp add: k_def)
  have wf: "wf_enc (dEnc d)" using inv by (simp add: decoder_inv_def)
  have k: "k eof \<le> dNbuf d" by (simp add: k_def)
  have "normal (dEnc d) ?s"
    using inv k normal_take [of _ "take (dNbuf d) (dBuf d)" "k eof"] by (simp add: decoder_inv_def min_absorb1)
  from decode_spec_le [OF wf this w] DecodedLen_le [OF wf, of "length ?s"] have len: "length w \<le> k eof"
    by simp
  have "dNbuf d' < baseXBlockLen (dEnc d')"
    using d'(4,7) baseXBlockLen_pos [OF wf] by (simp add: k_def minus_div_mult_eq_mod)
  then have "decoder_I d'" using d' f by (simp add: decoder_I_def)
  moreover have "length (take n w) + decoder_size d' \<le> decoder_size d"
    using d' f out len k by (simp add: decoder_size_def)
  ultimately show ?thesis using d'(1) n by (cases "w = [] \<and> e = None") auto
qed

lemma decoder_finite: "finite_source (decoder_Read rd) decoder_I decoder_size"
proof
  fix d and n :: nat
  assume d: "decoder_I d" and n: "0 < n"
  show "\<exists>p e d'. decoder_Read rd n d = Some (Ret (p, e) d') \<and> decoder_I d' \<and> length p \<le> n \<and>
      length p + decoder_size d' \<le> decoder_size d \<and> (e = None \<longrightarrow> p \<noteq> [])"
  proof (cases "dErr d")
    case (Some e)
    with d show ?thesis by (simp add: decoder_Read_def)
  next
    case None
    show ?thesis
    proof (cases "dOut d = []")
      case False
      with None n d show ?thesis by (simp add: decoder_Read_def decoder_I_def decoder_inv_def decoder_size_def)
    next
      case True
      obtain f where inv: "decoder_inv d" and nb: "dNbuf d < baseXBlockLen (dEnc d)"
        and f: "dR d = Filtered f" "fEnc f = dEnc d" "I (fWrapped f)"
        using d None by (auto simp: decoder_I_def)
      have wf: "wf_enc (dEnc d)" and len: "length (dBuf d) = 8192 * base256BlockLen (dEnc d)"
        using inv by (simp_all add: decoder_inv_def)
      let ?X = "baseXBlockLen (dEnc d)"
      define nn where "nn = min (max (n div base256BlockLen (dEnc d) * ?X) ?X) (length (dBuf d))"
      have nn: "?X \<le> nn" "nn \<le> length (dBuf d)" "dNbuf d \<le> nn" using blockX_le [OF wf] len nb by (auto simp: nn_def)
      have X: "0 < ?X" "0 < base256BlockLen (dEnc d)" using baseXBlockLen_pos [OF wf] wf_encD(3) [OF wf] by simp_all
      from decoder_fill_ends [OF inv f nn] obtain d1 f1 where
        fill: "decoder_fill rd nn d = Some (Ret () d1)" and d1: "decoder_inv d1" "dEnc d1 = dEnc d" "dOut d1 = []"
          "dR d1 = Filtered f1" "fEnc f1 = dEnc d1" "I (fWrapped f1)" "decoder_size d1 \<le> decoder_size d"
        using True by auto
      have read: "decoder_Read rd n d = Some (case dErr d1 of
            None \<Rightarrow> decoder_decode n False d1
          | Some e \<Rightarrow> if e = EOF \<and> dNbuf d1 \<noteq> 0 then decoder_decode n True (d1\<lparr>dErr := None\<rparr>) else Ret ([], Some e) d1)"
        using None True X fill by (simp add: decoder_Read_def nn_def)
      show ?thesis
      proof (cases "dErr d1")
        case N: None
        with read decoder_decode_ends [OF d1(1,3) n d1(4,5,6), of False] d1(7) show ?thesis by fastforce
      next
        case (Some e)
        show ?thesis
        proof (cases "e = EOF \<and> dNbuf d1 \<noteq> 0")
          case True
          let ?d1 = "d1\<lparr>dErr := None\<rparr>"
          have "decoder_inv ?d1" "dOut ?d1 = []" "dR ?d1 = Filtered f1" "fEnc f1 = dEnc ?d1"
            "decoder_size ?d1 = decoder_size d1"
            using d1 by (simp_all add: decoder_inv_def decoder_size_def)
          with read Some True decoder_decode_ends [of ?d1 n f1 True] n d1(6,7) show ?thesis by fastforce
        next
          case False
          with read Some d1 show ?thesis by (auto simp: decoder_I_def)
        qed
      qed
    qed
  qed
qed

end

end
