(* ===== verification/Armor_Correct.thy ===== *)
theory Armor_Correct
  imports Armor Basex_Stream_Correct
begin

text \<open>
  What the armoring stream writes: \<open>armor_text\<close>, the encoding of the whole input cut into words
  and lines, for any sequence of writes and any destination that accepts them. The stream is in
  turn a \<open>sink\<close> for the streams that write their packets to it.
\<close>

section \<open>The text\<close>

primrec render :: "armorParams \<Rightarrow> nat \<Rightarrow> bytes list \<Rightarrow> bytes" where
  "render params n [] = []"
| "render params n (w # ws) = w @ [word_sep params (n + 1)] @ render params (n + 1) ws"

definition armor_open :: "armorParams \<Rightarrow> bytes \<Rightarrow> bytes" where
  "armor_open params header = header @ fmt_c (Punctuation params) @ [32]"

definition armor_body :: "armorParams \<Rightarrow> bytes \<Rightarrow> bytes" where
  "armor_body params chars =
     render params 0 (full_blocks (BytesPerWord params) chars) @ last_block (BytesPerWord params) chars"

definition armor_close :: "armorParams \<Rightarrow> bytes \<Rightarrow> bytes \<Rightarrow> bytes" where
  "armor_close params chars footer =
     (if length (last_block (BytesPerWord params) chars) = BytesPerWord params
      then [word_sep params (length (full_blocks (BytesPerWord params) chars) + 1)] else []) @
     fmt_c (Punctuation params) @ [32] @ footer @ fmt_c (Punctuation params) @ [10]"

definition armor_text :: "armorParams \<Rightarrow> bytes \<Rightarrow> bytes \<Rightarrow> bytes \<Rightarrow> bytes" where
  "armor_text params header footer plaintext =
     (let chars = encode_spec (ArmorEncoding params) plaintext
      in armor_open params header @ armor_body params chars @ armor_close params chars footer)"

lemma render_append: "render params n (vs @ ws) = render params n vs @ render params (n + length vs) ws"
  by (induction vs arbitrary: n) simp_all

lemma full_blocks_append:
  assumes "0 < B"
  shows "full_blocks B (xs @ ys) = full_blocks B xs @ full_blocks B (last_block B xs @ ys)"
    and "last_block B (xs @ ys) = last_block B (last_block B xs @ ys)"
proof -
  have "full_blocks B (xs @ ys) = full_blocks B xs @ full_blocks B (last_block B xs @ ys) \<and>
      last_block B (xs @ ys) = last_block B (last_block B xs @ ys)"
    using assms
  proof (induction B xs rule: full_blocks.induct)
    case (1 B xs)
    show ?case
    proof (cases "B < length xs")
      case True
      with 1 show ?thesis by (simp add: full_blocks_long last_block_long)
    qed simp
  qed
  then show "full_blocks B (xs @ ys) = full_blocks B xs @ full_blocks B (last_block B xs @ ys)"
    "last_block B (xs @ ys) = last_block B (last_block B xs @ ys)" by simp_all
qed

section \<open>Words as blocks\<close>

definition params_ok :: "armorParams \<Rightarrow> bool" where
  "params_ok params \<longleftrightarrow> 0 < BytesPerWord params \<and> 0 < WordsPerLine params \<and> wf_enc (ArmorEncoding params)"

lemma aeSetBuf_sel [simp]:
  "aeBuf (aeSetBuf b s) = b" "aeFooter (aeSetBuf b s) = aeFooter s" "aeEncoded (aeSetBuf b s) = aeEncoded s"
  "aeNWords (aeSetBuf b s) = aeNWords s" "aeParams (aeSetBuf b s) = aeParams s"
  "aeSetBuf c (aeSetBuf b s) = aeSetBuf c s" "aeSetBuf (aeBuf s) s = s"
  "(aeSetBuf b s)\<lparr>aeEncoded := w\<rparr> = aeSetBuf b (s\<lparr>aeEncoded := w\<rparr>)"
  "(aeSetBuf b s)\<lparr>aeNWords := n\<rparr> = aeSetBuf b (s\<lparr>aeNWords := n\<rparr>)"
  by (simp_all add: aeSetBuf_def)

text \<open>
  The tail of a \<open>bytes.Buffer\<close> whose front \<open>pre\<close> has been read is a sink as well.
\<close>

interpretation tail_sink: sink buffer_Write "\<lambda>w d. pre @ w = d" for pre
  by unfold_locales (auto simp: buffer_Write_def)

context sink
begin

text \<open>The loop when the destination accepts everything.\<close>

lemma spaceAndOutputBuffer_ok:
  assumes "0 < BytesPerWord (aeParams s)" "0 < WordsPerLine (aeParams s)" "R (aeEncoded s) d"
  shows "\<exists>w. spaceAndOutputBuffer wr s = Ret None
      (aeSetBuf (last_block (BytesPerWord (aeParams s)) (aeBuf s))
        (s\<lparr>aeEncoded := w, aeNWords := aeNWords s + length (full_blocks (BytesPerWord (aeParams s)) (aeBuf s))\<rparr>)) \<and>
    R w (d @ render (aeParams s) (aeNWords s) (full_blocks (BytesPerWord (aeParams s)) (aeBuf s)))"
  using assms
proof (induction "length (aeBuf s)" arbitrary: s d rule: less_induct)
  case less
  let ?B = "BytesPerWord (aeParams s)"
  show ?case
  proof (cases "?B < length (aeBuf s)")
    case False
    then have "spaceAndOutputBuffer wr s = Ret None s" by (subst spaceAndOutputBuffer.simps) simp
    with False less.prems show ?thesis by (intro exI [of _ "aeEncoded s"]) simp
  next
    case True
    let ?sep = "[word_sep (aeParams s) (aeNWords s + 1)]"
    obtain w1 where w1: "wr (take ?B (aeBuf s)) (aeEncoded s) = (None, w1)" "R w1 (d @ take ?B (aeBuf s))"
      using wr_step [OF less.prems(3)] by blast
    obtain w2 where w2: "wr ?sep w1 = (None, w2)" "R w2 ((d @ take ?B (aeBuf s)) @ ?sep)"
      using wr_step [OF w1(2)] by blast
    let ?s = "aeSetBuf (drop ?B (aeBuf s)) (s\<lparr>aeEncoded := w2, aeNWords := aeNWords s + 1\<rparr>)"
    have "outputWord wr s = Ret None ?s"
      using less.prems w1(1) w2(1) by (simp add: outputWord_def Let_def aeSetBuf_def)
    then have step: "spaceAndOutputBuffer wr s = spaceAndOutputBuffer wr ?s"
      using True by (subst spaceAndOutputBuffer.simps) simp
    have lt: "length (aeBuf ?s) < length (aeBuf s)" using True less.prems(1) by simp
    have "R (aeEncoded ?s) ((d @ take ?B (aeBuf s)) @ ?sep)" using w2(2) by simp
    from less.hyps [OF lt _ _ this] less.prems obtain w where
      "spaceAndOutputBuffer wr ?s = Ret None (aeSetBuf (last_block ?B (drop ?B (aeBuf s)))
        (s\<lparr>aeEncoded := w, aeNWords := aeNWords s + 1 + length (full_blocks ?B (drop ?B (aeBuf s)))\<rparr>))"
      "R w (((d @ take ?B (aeBuf s)) @ ?sep) @ render (aeParams s) (aeNWords s + 1) (full_blocks ?B (drop ?B (aeBuf s))))"
      by (auto simp: aeSetBuf_def)
    with step True less.prems(1) show ?thesis
      by (intro exI [of _ w]) (simp add: full_blocks_long last_block_long)
  qed
qed

text \<open>The stream has been given \<open>x\<close> when \<open>d\<close> was in its destination.\<close>

definition armoring :: "armorParams \<Rightarrow> bytes \<Rightarrow> bytes \<Rightarrow> 'w armorEncoderStream \<Rightarrow> bytes \<Rightarrow> bool" where
  "armoring params footer d s x \<longleftrightarrow>
     aeParams s = params \<and> aeFooter s = footer \<and> bxEnc (aeEncoder s) = ArmorEncoding params \<and>
     (let B = BytesPerWord params;
          chars = encode_spec (ArmorEncoding params) (whole (base256BlockLen (ArmorEncoding params)) x)
      in tail_sink.encoded (concat (full_blocks B chars)) [] (aeEncoder s) x \<and>
         aeNWords s = length (full_blocks B chars) \<and>
         aeBuf s = last_block B chars \<and>
         R (aeEncoded s) (d @ render params 0 (full_blocks B chars)))"

lemma armoring_grow:
  assumes ok: "params_ok params" and s: "aeParams s = params" "aeFooter s = footer"
    "bxEnc (aeEncoder s) = ArmorEncoding params"
    and words: "aeNWords s = length (full_blocks (BytesPerWord params) chars)"
    and buf: "concat (full_blocks (BytesPerWord params) chars) @ aeBuf s = chars @ ext"
    and R: "R (aeEncoded s) (d @ render params 0 (full_blocks (BytesPerWord params) chars))"
  obtains w where "spaceAndOutputBuffer wr s = Ret None (aeSetBuf (last_block (BytesPerWord params) (chars @ ext))
      (s\<lparr>aeEncoded := w, aeNWords := length (full_blocks (BytesPerWord params) (chars @ ext))\<rparr>))"
    "R w (d @ render params 0 (full_blocks (BytesPerWord params) (chars @ ext)))"
proof -
  let ?B = "BytesPerWord params"
  have B: "0 < ?B" using ok by (simp add: params_ok_def)
  have b: "aeBuf s = last_block ?B chars @ ext"
    using buf concat_full_blocks [of ?B chars] by (metis append.assoc same_append_eq)
  obtain w where "spaceAndOutputBuffer wr s = Ret None
      (aeSetBuf (last_block ?B (aeBuf s)) (s\<lparr>aeEncoded := w, aeNWords := aeNWords s + length (full_blocks ?B (aeBuf s))\<rparr>))"
    "R w ((d @ render params 0 (full_blocks ?B chars)) @ render params (aeNWords s) (full_blocks ?B (aeBuf s)))"
    using spaceAndOutputBuffer_ok [of s, OF _ _ R] s(1) ok by (auto simp: params_ok_def)
  then show thesis
    using that [of w] full_blocks_append [OF B, of chars ext] b words by (simp add: render_append)
qed

lemma armoring_encoder:
  assumes "armoring params footer d s x"
  defines "pre \<equiv> concat (full_blocks (BytesPerWord params)
      (encode_spec (ArmorEncoding params) (whole (base256BlockLen (ArmorEncoding params)) x)))"
  shows "tail_sink.encoded pre [] (aeEncoder s) x" "bxEnc (aeEncoder s) = ArmorEncoding params"
    "aeParams s = params" "aeFooter s = footer"
  using assms by (simp_all add: armoring_def Let_def)

lemma armor_Write_ok:
  assumes ok: "params_ok params" and s: "armoring params footer d s x"
  shows "\<exists>s'. armorEncoderStream_Write wr p s = Ret (length p, None) s' \<and> armoring params footer d s' (x @ p)"
proof -
  let ?enc = "ArmorEncoding params" and ?B = "BytesPerWord params"
  let ?I = "base256BlockLen ?enc"
  let ?c = "encode_spec ?enc (whole ?I x)" and ?c' = "encode_spec ?enc (whole ?I (x @ p))"
  let ?ext = "encode_spec ?enc (whole ?I (part ?I x @ p))"
  have wf: "wf_enc ?enc" and I: "0 < ?I" and B: "0 < ?B" using ok by (auto simp: params_ok_def dest: wf_encD(3))
  have c': "?c' = ?c @ ?ext"
    using whole_split [OF I, of x p] encode_spec_append [OF wf, of "whole ?I x"] by simp
  note enc = armoring_encoder [OF s]
  from tail_sink.encoder_Write_ok [OF enc(1), of p] obtain e where
    e: "encoder_Write buffer_Write p (aeEncoder s) = Ret (length p, None) e"
      "tail_sink.encoded (concat (full_blocks ?B ?c)) [] e (x @ p)" "bxEnc e = ?enc"
    using enc(2) by auto
  let ?s = "s\<lparr>aeEncoder := e\<rparr>"
  have held: "concat (full_blocks ?B ?c) @ aeBuf ?s = ?c @ ?ext"
    using e(2,3) c' by (simp add: tail_sink.encoded_def)
  have "aeNWords ?s = length (full_blocks ?B ?c)" "R (aeEncoded ?s) (d @ render params 0 (full_blocks ?B ?c))"
    using s by (simp_all add: armoring_def Let_def)
  from armoring_grow [OF ok _ _ _ this(1) held this(2), of footer] enc(3,4) e(3) obtain w where
    w: "spaceAndOutputBuffer wr ?s = Ret None (aeSetBuf (last_block ?B ?c')
        (?s\<lparr>aeEncoded := w, aeNWords := length (full_blocks ?B ?c')\<rparr>))"
      "R w (d @ render params 0 (full_blocks ?B ?c'))"
    by (auto simp: c')
  let ?s' = "aeSetBuf (last_block ?B ?c') (?s\<lparr>aeEncoded := w, aeNWords := length (full_blocks ?B ?c')\<rparr>)"
  have "tail_sink.encoded (concat (full_blocks ?B ?c')) [] (aeEncoder ?s') (x @ p)"
    using e(2,3) concat_full_blocks [of ?B ?c'] by (simp add: tail_sink.encoded_def aeSetBuf_def encoder_inv_def)
  then have "armoring params footer d ?s' (x @ p)"
    using w(2) enc(3,4) e(3) by (simp add: armoring_def Let_def) (simp add: aeSetBuf_def)
  then show ?thesis using w(1) e(1) by (intro exI [of _ ?s']) (simp add: armorEncoderStream_Write_def)
qed

lemma armor_Close_ok:
  assumes ok: "params_ok params" and s: "armoring params footer d s x"
  shows "\<exists>s'. armorEncoderStream_Close wr s = Ret None s' \<and>
    R (aeEncoded s') (d @ armor_body params (encode_spec (ArmorEncoding params) x) @
      armor_close params (encode_spec (ArmorEncoding params) x) footer)"
proof -
  let ?enc = "ArmorEncoding params" and ?B = "BytesPerWord params"
  let ?I = "base256BlockLen ?enc"
  let ?c = "encode_spec ?enc (whole ?I x)" and ?c' = "encode_spec ?enc x"
  let ?ext = "encode_spec ?enc (part ?I x)"
  have wf: "wf_enc ?enc" and B: "0 < ?B" and W: "0 < WordsPerLine params" using ok by (auto simp: params_ok_def)
  have c': "?c' = ?c @ ?ext" by (rule encode_spec_split [OF wf])
  note enc = armoring_encoder [OF s]
  from tail_sink.encoder_Close_ok [OF enc(1)] obtain e where
    e: "encoder_Close buffer_Write (aeEncoder s) = Ret None e" "bxEnc e = ?enc"
      "concat (full_blocks ?B ?c) @ bxW e = ?c'"
    using enc(2) by auto
  let ?s = "s\<lparr>aeEncoder := e\<rparr>"
  have held: "concat (full_blocks ?B ?c) @ aeBuf ?s = ?c @ ?ext" using e(3) c' by simp
  have "aeNWords ?s = length (full_blocks ?B ?c)" "R (aeEncoded ?s) (d @ render params 0 (full_blocks ?B ?c))"
    using s by (simp_all add: armoring_def Let_def)
  from armoring_grow [OF ok _ _ _ this(1) held this(2), of footer] enc(3,4) e(2) obtain w where
    w: "spaceAndOutputBuffer wr ?s = Ret None (aeSetBuf (last_block ?B ?c')
        (?s\<lparr>aeEncoded := w, aeNWords := length (full_blocks ?B ?c')\<rparr>))"
      "R w (d @ render params 0 (full_blocks ?B ?c'))"
    by (auto simp: c')
  obtain w1 where w1: "wr (last_block ?B ?c') w = (None, w1)"
      "R w1 ((d @ render params 0 (full_blocks ?B ?c')) @ last_block ?B ?c')"
    using wr_step [OF w(2)] by blast
  obtain w2 where w2: "wr (armor_close params ?c' footer) w1 = (None, w2)"
      "R w2 (((d @ render params 0 (full_blocks ?B ?c')) @ last_block ?B ?c') @ armor_close params ?c' footer)"
    using wr_step [OF w1(2)] by blast
  have "armorEncoderStream_Close wr s = Ret None ((aeSetBuf (last_block ?B ?c')
        (?s\<lparr>aeEncoded := w, aeNWords := length (full_blocks ?B ?c')\<rparr>))
          \<lparr>aeEncoded := w2, aeNWords := length (full_blocks ?B ?c') + 1\<rparr>)"
    using e(1) w(1) w1(1) w2(1) W enc(3,4)
    by (cases "length (last_block ?B ?c') = ?B")
      (simp_all add: armorEncoderStream_Close_def Let_def armor_close_def)
  then show ?thesis using w2(2) by (simp add: armor_body_def)
qed

lemma newArmorEncoderStream_ok:
  assumes ok: "params_ok params" and w: "R w d"
  shows "\<exists>s. newArmorEncoderStream wr w header footer params = Inr s \<and>
    armoring params footer (d @ armor_open params header) s []"
proof -
  obtain w' where w': "wr (armor_open params header) w = (None, w')" "R w' (d @ armor_open params header)"
    using wr_step [OF w] by blast
  have "wf_enc (ArmorEncoding params)" using ok by (simp add: params_ok_def)
  with w' NewEncoder_inv [OF this, of "[]"] wf_encD(3) [OF this] show ?thesis
    by (simp add: newArmorEncoderStream_def armor_open_def armoring_def Let_def tail_sink.encoded_def)
      (simp add: NewEncoder_def)
qed

lemma armor_writes_ok:
  assumes ok: "params_ok params"
  shows "armoring params footer d s x \<Longrightarrow>
    \<exists>s'. writes (armorEncoderStream_Write wr) ps s = Ret None s' \<and> armoring params footer d s' (x @ concat ps)"
proof (induction ps arbitrary: s x)
  case (Cons p ps)
  from armor_Write_ok [OF ok Cons.prems] obtain s1 where
    "armorEncoderStream_Write wr p s = Ret (length p, None) s1" "armoring params footer d s1 (x @ p)" by blast
  with Cons.IH [OF this(2)] show ?case by simp
qed auto

end

end
