(* ===== verification/Punctuated.thy ===== *)
theory Punctuated
  imports Io
begin

text \<open>
  \<open>punctuated_reader.go\<close>: a reader that stops at a punctuation byte. Segments that the source
  keeps as slices of its callers' buffers are byte lists here: \<open>armor.go\<close> never touches a buffer
  while a segment of it is pending, and Go's \<open>copy\<close> allows overlaps. The lemmas show that over
  a \<open>source\<close> the reader delivers the bytes before each punctuation and reports the punctuation
  once, that \<open>ReadUntilPunctuation\<close> returns exactly these bytes, and that over a reader that ends
  it ends.
\<close>

section \<open>The reader\<close>

record 'r punctuatedReader =
  prR :: 'r
  punctuation :: byte
  nextSegment :: bytes
  thisSegment :: bytes
  errThisSegment :: "err option"

definition newPunctuatedReader :: "'r \<Rightarrow> byte \<Rightarrow> 'r punctuatedReader" where
  "newPunctuatedReader r p =
     \<lparr>prR = r, punctuation = p, nextSegment = [], thisSegment = [], errThisSegment = None\<rparr>"

text \<open>
  The second half of \<open>Read\<close>: \<open>src\<close> is what was read, either the left-over segment
  (\<open>usedBuffer\<close>) or the caller's slice itself.
\<close>

definition punctuated_segment ::
  "nat \<Rightarrow> bytes \<Rightarrow> bool \<Rightarrow> 'r punctuatedReader \<Rightarrow> (bytes \<times> err option) \<times> 'r punctuatedReader" where
  "punctuated_segment cap src usedBuffer p =
     (let foundPunc = (punctuation p \<in> set src);
          seg = (if foundPunc then takeWhile (\<lambda>b. b \<noteq> punctuation p) src else src);
          p1 = (if foundPunc then p\<lparr>nextSegment := tl (dropWhile (\<lambda>b. b \<noteq> punctuation p) src)\<rparr> else p);
          out = (if usedBuffer then take cap seg else seg);
          p2 = (if usedBuffer then p1\<lparr>thisSegment := drop cap seg\<rparr> else p1)
      in if foundPunc \<and> thisSegment p2 \<noteq> []
         then ((out, None), p2\<lparr>errThisSegment := Some ErrPunctuated\<rparr>)
         else ((out, if foundPunc then Some ErrPunctuated else None), p2))"

definition punctuatedReader_Read :: "'r simple_reader \<Rightarrow> 'r punctuatedReader simple_reader" where
  "punctuatedReader_Read rd cap p =
     (if thisSegment p \<noteq> []
      then (let p' = p\<lparr>thisSegment := drop cap (thisSegment p)\<rparr>
            in if thisSegment p' = []
               then ((take cap (thisSegment p), errThisSegment p), p'\<lparr>errThisSegment := None\<rparr>)
               else ((take cap (thisSegment p), None), p'))
      else if nextSegment p \<noteq> []
      then punctuated_segment cap (nextSegment p) True (p\<lparr>nextSegment := []\<rparr>)
      else (case rd cap (prR p) of
              ((out, Some e), r) \<Rightarrow> ((out, Some e), p\<lparr>prR := r\<rparr>)
            | ((out, None), r) \<Rightarrow> punctuated_segment cap out False (p\<lparr>prR := r\<rparr>)))"

text \<open>The size of the reader's own buffer.\<close>

definition punctuatedBufSize :: nat where "punctuatedBufSize = 4096"

function ReadUntilPunctuation_loop ::
  "'r simple_reader \<Rightarrow> nat \<Rightarrow> bytes \<Rightarrow> 'r punctuatedReader \<Rightarrow> (err + bytes) \<times> 'r punctuatedReader" where
  "ReadUntilPunctuation_loop rd lim res p =
     (case punctuatedReader_Read rd punctuatedBufSize p of
        ((out, e), p') \<Rightarrow>
          if e = None \<or> e = Some ErrPunctuated
          then (if e = Some ErrPunctuated then (Inr (res @ out), p')
                else if length (res @ out) \<ge> lim then (Inl ErrOverflow, p')
                else if out = [] then (Inl ErrUnexpectedEOF, p')
                else ReadUntilPunctuation_loop rd lim (res @ out) p')
          else (Inl (if e = Some EOF then ErrUnexpectedEOF else the e), p'))"
  by pat_completeness auto
termination
  by (relation "measure (\<lambda>(rd, lim, res, p). lim - length res)") (auto intro!: diff_less_mono2)

declare ReadUntilPunctuation_loop.simps [simp del]

definition ReadUntilPunctuation ::
  "'r simple_reader \<Rightarrow> nat \<Rightarrow> 'r punctuatedReader \<Rightarrow> (err + bytes) \<times> 'r punctuatedReader" where
  "ReadUntilPunctuation rd lim p = ReadUntilPunctuation_loop rd lim [] p"

section \<open>Over a source\<close>

text \<open>A source given by a reader that always returns.\<close>

locale plain_source = source "plain_reader rd" R Z
  for rd :: "'r simple_reader" and R :: "'r \<Rightarrow> bytes \<Rightarrow> err \<Rightarrow> bool" and Z :: "'r \<Rightarrow> err \<Rightarrow> bool"

interpretation input_plain: plain_source input_Read input_holds input_over
  by (rule plain_source.intro) (rule input_source.source_axioms)

lemma split_punct:
  assumes "c \<in> set bs"
  shows "takeWhile (\<lambda>b. b \<noteq> c) bs @ c # tl (dropWhile (\<lambda>b. b \<noteq> c) bs) = bs"
    and "c \<notin> set (takeWhile (\<lambda>b. b \<noteq> c) bs)"
proof -
  have "dropWhile (\<lambda>b. b \<noteq> c) bs \<noteq> []" using assms by (simp add: dropWhile_eq_Nil_conv)
  moreover from this have "hd (dropWhile (\<lambda>b. b \<noteq> c) bs) = c" 
    using hd_dropWhile [of "\<lambda>b. b \<noteq> c" bs] by simp
  ultimately have "c # tl (dropWhile (\<lambda>b. b \<noteq> c) bs) = dropWhile (\<lambda>b. b \<noteq> c) bs" by (metis list.collapse)
  then show "takeWhile (\<lambda>b. b \<noteq> c) bs @ c # tl (dropWhile (\<lambda>b. b \<noteq> c) bs) = bs"
    by (simp only: takeWhile_dropWhile_id)
  show "c \<notin> set (takeWhile (\<lambda>b. b \<noteq> c) bs)" by (auto dest: set_takeWhileD)
qed

text \<open>The first punctuation of a list, by position.\<close>

lemma before_punct: "c \<notin> set (take k (a @ c # bs)) \<Longrightarrow> k \<le> length a"
  by (rule ccontr) (auto simp: take_Cons' split: if_splits)

lemma at_punct:
  assumes "c \<notin> set a" "(a @ c # bs) ! k = c" "c \<notin> set (take k (a @ c # bs))"
  shows "k = length a"
  using before_punct [OF assms(3)] assms(1,2) nth_mem [of k a] by (cases "k < length a") (auto simp: nth_append)

context plain_source
begin

lemma plain_step:
  assumes "R r bs e" "0 < n"
  obtains (more) k r' where "bs \<noteq> []" "0 < k" "k \<le> n" "k \<le> length bs" "rd n r = ((take k bs, None), r')"
      "R r' (drop k bs) e"
    | (finish) r' where "bs = []" "rd n r = (([], Some e), r')" "Z r' e"
  using assms
proof (cases rule: rd_step)
  case (more k r')
  then show thesis using that(1) by (auto simp: plain_reader_def split: prod.splits)
next
  case (finish r')
  then show thesis using that(2) by (auto simp: plain_reader_def split: prod.splits)
qed

text \<open>What the reader still holds, punctuation included.\<close>

definition held :: "'r punctuatedReader \<Rightarrow> bytes" where
  "held p = thisSegment p @ (if errThisSegment p = None then [] else [punctuation p]) @ nextSegment p"

definition punctuated :: "'r punctuatedReader \<Rightarrow> bytes \<Rightarrow> err \<Rightarrow> bool" where
  "punctuated p bs e \<longleftrightarrow> punctuation p \<notin> set (thisSegment p) \<and>
     (thisSegment p = [] \<longrightarrow> errThisSegment p = None) \<and>
     errThisSegment p \<in> {None, Some ErrPunctuated} \<and>
     (\<exists>s. R (prR p) s e \<and> bs = held p @ s)"

definition punctuated_over :: "'r punctuatedReader \<Rightarrow> err \<Rightarrow> bool" where
  "punctuated_over p e \<longleftrightarrow> punctuated p [] e \<and> Z (prR p) e"

lemma punctuated_new: "R r bs e \<Longrightarrow> punctuated (newPunctuatedReader r c) bs e"
  by (simp add: punctuated_def held_def newPunctuatedReader_def)

lemma punctuated_segment_step:
  assumes "thisSegment p = []" "errThisSegment p = None" "nextSegment p = []" "R (prR p) s e" "0 < cap"
    and "src \<noteq> []" "used \<or> length src \<le> cap"
  obtains (data) k p' where "punctuated_segment cap src used p = ((take k (src @ s), None), p')"
      "0 < k" "k \<le> cap" "k \<le> length (src @ s)" "punctuation p \<notin> set (take k (src @ s))"
      "punctuated p' (drop k (src @ s)) e" "punctuation p' = punctuation p"
    | (punct) k p' where "punctuated_segment cap src used p = ((take k (src @ s), Some ErrPunctuated), p')"
      "k < length (src @ s)" "k \<le> cap" "(src @ s) ! k = punctuation p" "punctuation p \<notin> set (take k (src @ s))"
      "punctuated p' (drop (Suc k) (src @ s)) e" "punctuation p' = punctuation p"
proof (cases "punctuation p \<in> set src")
  case False
  show thesis
  proof (rule data)
    let ?k = "if used then min cap (length src) else length src"
    let ?p = "if used then p\<lparr>thisSegment := drop cap src\<rparr> else p"
    show "punctuated_segment cap src used p = ((take ?k (src @ s), None), ?p)"
      using False by (auto simp: punctuated_segment_def Let_def min_def)
    show "punctuation p \<notin> set (take ?k (src @ s))" using False by (auto simp: min_def dest: in_set_takeD)
    show "punctuated ?p (drop ?k (src @ s)) e"
      using False assms by (auto simp: punctuated_def held_def min_def dest: in_set_dropD)
  qed (use assms in auto)
next
  case True
  let ?a = "takeWhile (\<lambda>b. b \<noteq> punctuation p) src" and ?b = "tl (dropWhile (\<lambda>b. b \<noteq> punctuation p) src)"
  note src = split_punct(1) [OF True] and a = split_punct(2) [OF True]
  have src_s: "src @ s = ?a @ punctuation p # ?b @ s" by (metis append.assoc append_Cons src)
  have la: "length ?a < length src" using arg_cong [OF src, of length] by simp
  show thesis
  proof (cases "used \<and> cap < length ?a")
    case short: True
    have tk: "take cap (src @ s) = take cap ?a" "drop cap (src @ s) = drop cap ?a @ punctuation p # ?b @ s"
      by (subst src_s, use short in simp)+
    show thesis
    proof (rule data)
      let ?p = "p\<lparr>nextSegment := ?b, thisSegment := drop cap ?a, errThisSegment := Some ErrPunctuated\<rparr>"
      show "punctuated_segment cap src used p = ((take cap (src @ s), None), ?p)"
        unfolding tk using True short by (simp add: punctuated_segment_def Let_def)
      show "punctuation p \<notin> set (take cap (src @ s))"
        unfolding tk using a by (auto dest: in_set_takeD)
      show "punctuated ?p (drop cap (src @ s)) e"
        unfolding tk using assms short a by (auto simp: punctuated_def held_def dest: in_set_dropD)
    qed (use assms short la in auto)
  next
    case False
    have tk: "take (length ?a) (src @ s) = ?a" "drop (Suc (length ?a)) (src @ s) = ?b @ s"
      "(src @ s) ! length ?a = punctuation p"
      by (subst src_s, simp)+
    show thesis
    proof (rule punct)
      let ?p = "p\<lparr>nextSegment := ?b\<rparr>"
      have same: "p\<lparr>nextSegment := ?b, thisSegment := []\<rparr> = ?p" using assms(1) by (cases p) simp
      show "punctuated_segment cap src used p = ((take (length ?a) (src @ s), Some ErrPunctuated), ?p)"
        unfolding tk using True False same assms(1) by (auto simp: punctuated_segment_def Let_def)
      show "punctuation p \<notin> set (take (length ?a) (src @ s))" unfolding tk by (rule a)
      show "punctuated ?p (drop (Suc (length ?a)) (src @ s)) e"
        unfolding tk using assms by (simp add: punctuated_def held_def)
    qed (use tk(3) assms False la in auto)
  qed
qed

lemma punctuated_step:
  assumes p: "punctuated p bs e" and cap: "0 < cap"
  obtains (data) k p' where "punctuatedReader_Read rd cap p = ((take k bs, None), p')"
      "0 < k" "k \<le> cap" "k \<le> length bs" "punctuation p \<notin> set (take k bs)"
      "punctuated p' (drop k bs) e" "punctuation p' = punctuation p"
    | (punct) k p' where "punctuatedReader_Read rd cap p = ((take k bs, Some ErrPunctuated), p')"
      "k < length bs" "k \<le> cap" "bs ! k = punctuation p" "punctuation p \<notin> set (take k bs)"
      "punctuated p' (drop (Suc k) bs) e" "punctuation p' = punctuation p"
    | (finish) p' where "bs = []" "punctuatedReader_Read rd cap p = (([], Some e), p')" "punctuated_over p' e"
      "punctuation p' = punctuation p"
proof -
  obtain s where s: "R (prR p) s e" "bs = held p @ s" and clean: "punctuation p \<notin> set (thisSegment p)"
    and errs: "thisSegment p = [] \<longrightarrow> errThisSegment p = None" "errThisSegment p \<in> {None, Some ErrPunctuated}"
    using p by (auto simp: punctuated_def)
  let ?seg = "thisSegment p"
  show thesis
  proof (cases "?seg = []")
    case False
    show thesis
    proof (cases "cap < length ?seg \<or> errThisSegment p = None")
      case True
      show thesis
      proof (rule data)
        let ?k = "min cap (length ?seg)"
        let ?p = "p\<lparr>thisSegment := drop cap ?seg\<rparr>"
        have same: "?p\<lparr>errThisSegment := None\<rparr> = ?p" if "errThisSegment p = None" using that by (cases p) simp
        show "punctuatedReader_Read rd cap p = ((take ?k bs, None), ?p)"
          using False True s same
          by (cases "cap < length ?seg") (auto simp: punctuatedReader_Read_def Let_def held_def)
        show "punctuation p \<notin> set (take ?k bs)" using s clean by (auto simp: held_def dest: in_set_takeD)
        show "punctuated ?p (drop ?k bs) e"
          using s clean errs True by (cases "cap < length ?seg")
            (auto simp: punctuated_def held_def dest: in_set_dropD)
      qed (use False cap s in \<open>auto simp: held_def\<close>)
    next
      case punct': False
      then have e: "errThisSegment p = Some ErrPunctuated" using errs by auto
      show thesis
      proof (rule punct)
        let ?p = "p\<lparr>thisSegment := [], errThisSegment := None\<rparr>"
        show "punctuatedReader_Read rd cap p = ((take (length ?seg) bs, Some ErrPunctuated), ?p)"
          using False punct' s e by (auto simp: punctuatedReader_Read_def Let_def held_def)
        show "bs ! length ?seg = punctuation p" using s e by (simp add: held_def)
        show "punctuation p \<notin> set (take (length ?seg) bs)" using s clean by (simp add: held_def)
        show "punctuated ?p (drop (Suc (length ?seg)) bs) e" using s e by (simp add: punctuated_def held_def)
      qed (use punct' s e in \<open>auto simp: held_def\<close>)
    qed
  next
    case seg0: True
    then have e: "errThisSegment p = None" using errs by simp
    show thesis
    proof (cases "nextSegment p = []")
      case False
      let ?p = "p\<lparr>nextSegment := []\<rparr>"
      have bs: "bs = nextSegment p @ s" using s seg0 e by (simp add: held_def)
      have read: "punctuatedReader_Read rd cap p = punctuated_segment cap (nextSegment p) True ?p"
        using seg0 False by (simp add: punctuatedReader_Read_def)
      have pre: "thisSegment ?p = []" "errThisSegment ?p = None" "nextSegment ?p = []" "R (prR ?p) s e"
        using seg0 e s by simp_all
      from pre cap False disjI1 [OF TrueI] show thesis
      proof (cases rule: punctuated_segment_step [of ?p s e cap "nextSegment p" True])
        case (data k p')
        then show thesis using read bs that(1) [of k p'] by simp
      next
        case (punct k p')
        then show thesis using read bs that(2) [of k p'] by simp
      qed
    next
      case nxt: True
      have bs: "bs = s" using s seg0 e nxt by (simp add: held_def)
      from s(1) cap show thesis
      proof (cases rule: plain_step)
        case (more k r)
        let ?p = "p\<lparr>prR := r\<rparr>"
        have read: "punctuatedReader_Read rd cap p = punctuated_segment cap (take k s) False ?p"
          using seg0 nxt more by (simp add: punctuatedReader_Read_def)
        have pre: "thisSegment ?p = []" "errThisSegment ?p = None" "nextSegment ?p = []" "R (prR ?p) (drop k s) e"
          "0 < cap" "take k s \<noteq> []" "False \<or> length (take k s) \<le> cap"
          using seg0 e nxt more cap by auto
        from pre show thesis
        proof (cases rule: punctuated_segment_step)
          case (data k p')
          then show thesis using read bs that(1) [of k p'] by simp
        next
          case (punct k p')
          then show thesis using read bs that(2) [of k p'] by simp
        qed
      next
        case (finish r)
        let ?p = "p\<lparr>prR := r\<rparr>"
        have "punctuatedReader_Read rd cap p = (([], Some e), ?p)"
          using seg0 nxt finish by (simp add: punctuatedReader_Read_def)
        moreover have "punctuated_over ?p e"
          using finish Z_R [OF finish(3)] seg0 nxt \<open>errThisSegment p = None\<close>
          by (simp add: punctuated_over_def punctuated_def held_def)
        ultimately show thesis using that(3) [of ?p] bs finish by simp
      qed
    qed
  qed
qed

text \<open>Everything before the next punctuation, however the source cuts it.\<close>

lemma ReadUntilPunctuation_loop_finds:
  assumes "punctuated p (a @ punctuation p # bs) e" "punctuation p \<notin> set a" "length res + length a < lim"
  shows "\<exists>p'. ReadUntilPunctuation_loop rd lim res p = (Inr (res @ a), p') \<and> punctuated p' bs e \<and>
    punctuation p' = punctuation p"
  using assms
proof (induction "length a" arbitrary: a res p rule: less_induct)
  case less
  let ?c = "punctuation p"
  have "0 < punctuatedBufSize" by (simp add: punctuatedBufSize_def)
  from less.prems(1) this show ?case
  proof (cases rule: punctuated_step)
    case (data k p')
    have k: "k \<le> length a" using data(5) by (rule before_punct)
    then have t: "take k (a @ ?c # bs) = take k a" "drop k (a @ ?c # bs) = drop k a @ ?c # bs" by simp_all
    have "length (drop k a) < length a" using data(2) k by simp
    moreover have "?c \<notin> set (drop k a)" using less.prems(2) by (auto dest: in_set_dropD)
    moreover have "length (res @ take k a) + length (drop k a) < lim" using less.prems(3) k by simp
    ultimately obtain p'' where "ReadUntilPunctuation_loop rd lim (res @ take k a) p' =
        (Inr ((res @ take k a) @ drop k a), p'')" "punctuated p'' bs e" "punctuation p'' = ?c"
      using less.hyps [of "drop k a" p' "res @ take k a"] data(6,7) t by auto
    moreover have "ReadUntilPunctuation_loop rd lim res p = ReadUntilPunctuation_loop rd lim (res @ take k a) p'"
      using data(1,2) k t less.prems(3)
      by (subst ReadUntilPunctuation_loop.simps) auto
    ultimately show ?thesis by simp
  next
    case (punct k p')
    have "k = length a" using less.prems(2) punct(4,5) by (rule at_punct)
    with punct show ?thesis by (subst ReadUntilPunctuation_loop.simps) simp
  qed simp
qed

lemma ReadUntilPunctuation_finds:
  assumes "punctuated p (a @ punctuation p # bs) e" "punctuation p \<notin> set a" "length a < lim"
  obtains p' where "ReadUntilPunctuation rd lim p = (Inr a, p')" "punctuated p' bs e"
    "punctuation p' = punctuation p"
  using ReadUntilPunctuation_loop_finds [of p a bs e "[]" lim] assms by (auto simp: ReadUntilPunctuation_def)

end

section \<open>Over a reader that ends\<close>

locale plain_finite = finite_source "plain_reader rd" I size_of
  for rd :: "'r simple_reader" and I :: "'r \<Rightarrow> bool" and size_of :: "'r \<Rightarrow> nat"

interpretation input_plain_finite: plain_finite input_Read "\<lambda>_. True" "\<lambda>r. length (pending r)"
  by (rule plain_finite.intro) (rule input_finite.finite_source_axioms)

context plain_finite
begin

definition punctuated_size :: "'r punctuatedReader \<Rightarrow> nat" where
  "punctuated_size p = length (thisSegment p) + length (nextSegment p) + size_of (prR p)"

lemma punctuated_segment_ends:
  assumes "thisSegment p = []" "nextSegment p = []" "I (prR p)" "0 < cap" "src \<noteq> []" "used \<or> length src \<le> cap"
  shows "\<exists>out e p'. punctuated_segment cap src used p = ((out, e), p') \<and> I (prR p') \<and> length out \<le> cap \<and>
    length out + punctuated_size p' \<le> length src + size_of (prR p) \<and> (e = None \<longrightarrow> out \<noteq> [])"
proof (cases "punctuation p \<in> set src")
  case True
  let ?a = "takeWhile (\<lambda>b. b \<noteq> punctuation p) src"
  have "length ?a < length src" "length (tl (dropWhile (\<lambda>b. b \<noteq> punctuation p) src)) + Suc (length ?a) = length src"
    using arg_cong [OF split_punct(1) [OF True], of length] by simp_all
  with assms True show ?thesis
    by (cases used) (auto simp: punctuated_segment_def Let_def punctuated_size_def)
qed (use assms in \<open>auto simp: punctuated_segment_def Let_def punctuated_size_def\<close>)

lemma punctuated_finite:
  "plain_finite (punctuatedReader_Read rd) (\<lambda>p. I (prR p)) punctuated_size"
proof
  fix p :: "'r punctuatedReader" and n :: nat
  assume p: "I (prR p)" and n: "0 < n"
  have "\<exists>out e p'. punctuatedReader_Read rd n p = ((out, e), p') \<and> I (prR p') \<and> length out \<le> n \<and>
      length out + punctuated_size p' \<le> punctuated_size p \<and> (e = None \<longrightarrow> out \<noteq> [])"
  proof (cases "thisSegment p = []")
    case False
    let ?p = "p\<lparr>thisSegment := drop n (thisSegment p)\<rparr>"
    have "punctuatedReader_Read rd n p = (if drop n (thisSegment p) = []
        then ((take n (thisSegment p), errThisSegment p), ?p\<lparr>errThisSegment := None\<rparr>)
        else ((take n (thisSegment p), None), ?p))"
      using False by (simp add: punctuatedReader_Read_def Let_def)
    with False p n show ?thesis by (simp add: punctuated_size_def)
  next
    case seg0: True
    show ?thesis
    proof (cases "nextSegment p = []")
      case False
      with seg0 p n punctuated_segment_ends [of "p\<lparr>nextSegment := []\<rparr>" n "nextSegment p" True] show ?thesis
        by (auto simp: punctuatedReader_Read_def punctuated_size_def)
    next
      case nxt: True
      obtain out e r where r: "rd n (prR p) = ((out, e), r)" "I r" "length out \<le> n"
          "length out + size_of r \<le> size_of (prR p)" "e = None \<longrightarrow> out \<noteq> []"
        using rd_ends [OF p n] by (auto simp: plain_reader_def split: prod.splits)
      show ?thesis
      proof (cases e)
        case None
        have "\<exists>out' e' p'. punctuated_segment n out False (p\<lparr>prR := r\<rparr>) = ((out', e'), p') \<and> I (prR p') \<and>
            length out' \<le> n \<and> length out' + punctuated_size p' \<le> length out + size_of r \<and> (e' = None \<longrightarrow> out' \<noteq> [])"
          using punctuated_segment_ends [of "p\<lparr>prR := r\<rparr>" n out False] r seg0 nxt n None by simp
        with r None seg0 nxt show ?thesis
          by (fastforce simp: punctuatedReader_Read_def punctuated_size_def)
      next
        case (Some e')
        with r seg0 nxt show ?thesis by (simp add: punctuatedReader_Read_def punctuated_size_def)
      qed
    qed
  qed
  then show "\<exists>out e p'. plain_reader (punctuatedReader_Read rd) n p = Some (Ret (out, e) p') \<and> I (prR p') \<and>
      length out \<le> n \<and> length out + punctuated_size p' \<le> punctuated_size p \<and> (e = None \<longrightarrow> out \<noteq> [])"
    by (auto simp: plain_reader_def)
qed

lemma ReadUntilPunctuation_loop_ends:
  assumes "I (prR p)"
  shows "I (prR (snd (ReadUntilPunctuation_loop rd lim res p))) \<and>
    punctuated_size (snd (ReadUntilPunctuation_loop rd lim res p)) \<le> punctuated_size p"
  using assms
proof (induction "lim - length res" arbitrary: res p rule: less_induct)
  case less
  have "0 < punctuatedBufSize" by (simp add: punctuatedBufSize_def)
  from finite_source.rd_ends [OF plain_finite.axioms [OF punctuated_finite] less.prems this]
  obtain out e p' where r: "punctuatedReader_Read rd punctuatedBufSize p = ((out, e), p')" "I (prR p')"
      "length out + punctuated_size p' \<le> punctuated_size p" "e = None \<longrightarrow> out \<noteq> []"
    by (auto simp: plain_reader_def split: prod.splits)
  show ?case
  proof (cases "e = None \<and> length (res @ out) < lim")
    case True
    then have "lim - length (res @ out) < lim - length res" using r(4) by (cases out) auto
    from less.hyps [OF this r(2)] r True show ?thesis
      by (subst (1 2) ReadUntilPunctuation_loop.simps) simp
  qed (use r in \<open>subst (1 2) ReadUntilPunctuation_loop.simps, auto\<close>)
qed

lemma ReadUntilPunctuation_ends:
  "I (prR p) \<Longrightarrow> ReadUntilPunctuation rd lim p = (x, p') \<Longrightarrow>
     I (prR p') \<and> punctuated_size p' \<le> punctuated_size p"
  using ReadUntilPunctuation_loop_ends [of p lim "[]"] by (simp add: ReadUntilPunctuation_def)

end

end
