(* ===== verification/Frame.thy ===== *)
theory Frame
  imports Types
begin

text \<open>
  \<open>frame.go\<close>: the header and footer lines of an armored message. Strings are their bytes. The
  functions of Go's \<open>strings\<close> and \<open>regexp\<close> that the file uses are modelled for the arguments
  it gives them. The lemmas characterise when a frame that was made parses back.
\<close>

section \<open>Strings\<close>

text \<open>\<open>strings.ToUpper\<close> on ASCII.\<close>

definition ToUpper :: "bytes \<Rightarrow> bytes" where
  "ToUpper = map (\<lambda>b. if 97 \<le> b \<and> b \<le> 122 then b - 32 else b)"

text \<open>\<open>strings.Split\<close> with a separator of one byte, \<open>strings.Join\<close> with a space.\<close>

fun split_on :: "byte \<Rightarrow> bytes \<Rightarrow> bytes list" where
  "split_on c [] = [[]]"
| "split_on c (b # s) =
     (if b = c then [] # split_on c s
      else case split_on c s of [] \<Rightarrow> [[b]] | w # ws \<Rightarrow> (b # w) # ws)"

fun join_words :: "bytes list \<Rightarrow> bytes" where
  "join_words [] = []"
| "join_words [w] = w"
| "join_words (w # v # ws) = w @ [32] @ join_words (v # ws)"

text \<open>
  \<open>regexp.MustCompile("[>\\n\\r\\t ]+").ReplaceAllString(m, " ")\<close>: every maximal run of
  these characters becomes one space.
\<close>

definition frame_space :: "byte \<Rightarrow> bool" where
  "frame_space b = (b \<in> {62, 10, 13, 9, 32})"

fun squeeze :: "bool \<Rightarrow> bytes \<Rightarrow> bytes" where
  "squeeze inRun [] = []"
| "squeeze inRun (b # s) =
     (if frame_space b then (if inRun then squeeze True s else 32 # squeeze True s)
      else b # squeeze False s)"

text \<open>
  \<open>strings.TrimSpace\<close> removes white space of Unicode at both ends: the code points that
  \<open>unicode.IsSpace\<close> accepts, in UTF-8.
\<close>

definition utf8_spaces :: "bytes list" where
  "utf8_spaces = [[9], [10], [11], [12], [13], [32], [0xC2, 0x85], [0xC2, 0xA0], [0xE1, 0x9A, 0x80]] @
     map (\<lambda>k. [0xE2, 0x80, 0x80 + of_nat k]) [0..<11] @
     [[0xE2, 0x80, 0xA8], [0xE2, 0x80, 0xA9], [0xE2, 0x80, 0xAF], [0xE2, 0x81, 0x9F], [0xE3, 0x80, 0x80]]"

function trim_prefixes :: "bytes list \<Rightarrow> bytes \<Rightarrow> bytes" where
  "trim_prefixes ws s =
     (case find (\<lambda>w. w \<noteq> [] \<and> take (length w) s = w) ws of
        None \<Rightarrow> s
      | Some w \<Rightarrow> trim_prefixes ws (drop (length w) s))"
  by pat_completeness auto
termination
  by (relation "measure (\<lambda>(ws, s). length s)")
    (auto dest!: find_Some_iff [THEN iffD1] intro!: diff_less simp flip: length_greater_0_conv)

declare trim_prefixes.simps [simp del]

definition TrimSpace :: "bytes \<Rightarrow> bytes" where
  "TrimSpace s = rev (trim_prefixes (map rev utf8_spaces) (rev (trim_prefixes utf8_spaces s)))"

section \<open>Frames\<close>

definition headerMarker :: bytes where "headerMarker = ascii ''BEGIN''"
definition footerMarker :: bytes where "footerMarker = ascii ''END''"
definition maxFrameLength :: nat where "maxFrameLength = 512"
definition maxBrandLength :: nat where "maxBrandLength = 128"

definition pop :: "bytes list \<Rightarrow> nat \<Rightarrow> bytes list \<times> bytes list" where
  "pop v n = (drop (length v - n) v, take (length v - n) v)"

definition shift :: "bytes list \<Rightarrow> nat \<Rightarrow> bytes list \<times> bytes list" where
  "shift v n = (take n v, drop n v)"

definition getStringForType :: "MessageType \<Rightarrow> bytes" where
  "getStringForType typ =
     (if typ = MessageTypeEncryption then EncryptionArmorString
      else if typ = MessageTypeAttachedSignature then SignedArmorString
      else if typ = MessageTypeDetachedSignature then DetachedSignatureArmorString
      else [])"

definition makeFrame :: "bytes \<Rightarrow> MessageType \<Rightarrow> bytes \<Rightarrow> bytes" where
  "makeFrame which typ brand =
     (let sffx = getStringForType typ
      in if length sffx = 0 then sffx
         else join_words ([which] @ (if length brand > 0 then [brand] else []) @ [ToUpper FormatName] @ [sffx]))"

definition MakeArmorHeader :: "MessageType \<Rightarrow> bytes \<Rightarrow> bytes" where
  "MakeArmorHeader typ brand = makeFrame headerMarker typ brand"

definition MakeArmorFooter :: "MessageType \<Rightarrow> bytes \<Rightarrow> bytes" where
  "MakeArmorFooter typ brand = makeFrame footerMarker typ brand"

text \<open>\<open>parseFrame\<close> returns the brand and an error.\<close>

definition parseFrame :: "bytes \<Rightarrow> MessageType \<Rightarrow> bytes \<Rightarrow> bytes \<times> err option" where
  "parseFrame m typ hof =
     (if length m > maxFrameLength then ([], Some (ErrBadFrame FrameTooLong))
      else let s = TrimSpace (squeeze False m); sffx = getStringForType typ
      in if length sffx = 0 then ([], Some (ErrBadFrame (FrameTypeNotFound typ)))
      else let v = split_on 32 s
      in if length v \<noteq> 4 \<and> length v \<noteq> 5 then ([], Some (ErrBadFrame (FrameWrongWordCount (length v))))
      else let (front, v) = shift v 1
      in if front ! 0 \<noteq> hof then ([], Some (ErrBadFrame (FrameBadPrefix (front ! 0) hof)))
      else let expected = getStringForType typ; (tmp, v) = pop v 2; received = join_words tmp
      in if received \<noteq> expected then ([], Some (ErrBadFrame (FrameWanted expected received)))
      else let (spfn, v) = pop v 1
      in if spfn ! 0 \<noteq> ToUpper FormatName then ([], Some (ErrBadFrame (FrameBadFormatName (spfn ! 0))))
      else if length v > 0
      then (if length (v ! 0) > maxBrandLength then (v ! 0, Some (ErrBadFrame FrameBrandTooLong))
            else (v ! 0, None))
      else ([], None))"

text \<open>\<open>CheckArmor62\<close> of \<open>armor62.go\<close>: both lines, with the same brand.\<close>

definition CheckArmor62 :: "bytes \<Rightarrow> bytes \<Rightarrow> MessageType \<Rightarrow> bytes \<times> err option" where
  "CheckArmor62 hdr ftr typ =
     (case parseFrame hdr typ headerMarker of
        (_, Some e) \<Rightarrow> ([], Some e)
      | (brand, None) \<Rightarrow>
          (case parseFrame ftr typ footerMarker of
             (_, Some e) \<Rightarrow> ([], Some e)
           | (b2, None) \<Rightarrow>
               if b2 \<noteq> brand then ([], Some (ErrBadFrame (FrameBrandMismatch brand b2)))
               else (brand, None)))"

section \<open>Splitting, squeezing and trimming\<close>

definition solid :: "bytes \<Rightarrow> bool" where
  "solid w \<longleftrightarrow> (\<forall>b\<in>set w. \<not> frame_space b)"

lemma solid_simps [simp]:
  "solid []" "solid (b # w) \<longleftrightarrow> \<not> frame_space b \<and> solid w" "solid (v @ w) \<longleftrightarrow> solid v \<and> solid w"
  by (auto simp: solid_def)

lemma solid_no_space: "solid w \<Longrightarrow> 32 \<notin> set w"
  by (auto simp: solid_def frame_space_def)

lemma split_on_not_Nil [simp]: "split_on c s \<noteq> []"
  by (induction s) (auto split: list.splits)

lemma split_on_word: "c \<notin> set w \<Longrightarrow> split_on c w = [w]"
  by (induction w) auto

lemma split_on_cons: "c \<notin> set w \<Longrightarrow> split_on c (w @ c # s) = w # split_on c s"
  by (induction w) auto

lemma split_on_join: "\<forall>w\<in>set ws. 32 \<notin> set w \<Longrightarrow> ws \<noteq> [] \<Longrightarrow> split_on 32 (join_words ws) = ws"
  by (induction ws rule: join_words.induct) (simp_all add: split_on_word split_on_cons)

lemma split_on_sets: "w \<in> set (split_on c s) \<Longrightarrow> set w \<subseteq> set s - {c}"
proof (induction s arbitrary: w)
  case (Cons b s)
  show ?case
  proof (cases "b = c")
    case False
    obtain v vs where v: "split_on c s = v # vs" using split_on_not_Nil by (meson neq_Nil_conv)
    with False Cons.prems have "w = b # v \<or> w \<in> set vs" by simp
    with False Cons.IH [of v] Cons.IH [of w] v show ?thesis by auto
  qed (use Cons in fastforce)
qed simp

lemma squeeze_solid: "solid w \<Longrightarrow> squeeze r (w @ s) = (if w = [] then squeeze r s else w @ squeeze False s)"
  by (induction w arbitrary: r) auto

lemma squeeze_sets: "set (squeeze r s) \<subseteq> {b. \<not> frame_space b} \<union> {32}"
  by (induction r s rule: squeeze.induct) (auto simp: frame_space_def)

lemma squeeze_words:
  "\<forall>w\<in>set ws. solid w \<and> w \<noteq> [] \<Longrightarrow> squeeze False (join_words ws) = join_words ws"
proof (induction ws rule: join_words.induct)
  case (2 w)
  then show ?case using squeeze_solid [of w False "[]"] by simp
next
  case (3 w v ws)
  have "squeeze True (join_words (v # ws)) = squeeze False (join_words (v # ws))"
  proof -
    obtain b u where "join_words (v # ws) = b # u" "\<not> frame_space b"
      using "3.prems" by (cases v; cases ws) auto
    then show ?thesis by simp
  qed
  moreover have "frame_space 32" by (simp add: frame_space_def)
  ultimately show ?case using 3 squeeze_solid [of w False "32 # join_words (v # ws)"] by simp
qed simp

text \<open>Nothing is trimmed from a string that begins and ends with a printable ASCII character.\<close>

definition printable :: "byte \<Rightarrow> bool" where
  "printable b \<longleftrightarrow> 33 \<le> b \<and> b < 127"

lemma trim_prefixes_none:
  assumes "\<forall>w\<in>set ws. w \<noteq> [] \<longrightarrow> hd w \<noteq> b"
  shows "trim_prefixes ws (b # s) = b # s"
proof -
  have "find (\<lambda>w. w \<noteq> [] \<and> take (length w) (b # s) = w) ws = None"
    using assms by (auto simp: find_None_iff neq_Nil_conv)
  then show ?thesis by (subst trim_prefixes.simps) simp
qed

lemma utf8_spaces_ends:
  "w \<in> set utf8_spaces \<Longrightarrow> hd w \<in> {9, 10, 11, 12, 13, 32, 0xC2, 0xE1, 0xE2, 0xE3}"
  "w \<in> set utf8_spaces \<Longrightarrow> w \<noteq> [] \<and> \<not> printable (last w)"
  by (auto simp: utf8_spaces_def upt_rec printable_def)

lemma not_printable: "b \<in> {9, 10, 11, 12, 13, 32, 0xC2, 0xE1, 0xE2, 0xE3} \<Longrightarrow> \<not> printable b"
  by (auto simp: printable_def)

lemma TrimSpace_printable:
  assumes "s \<noteq> []" "printable (hd s)" "printable (last s)"
  shows "TrimSpace s = s"
proof -
  obtain b u where b: "s = b # u" "printable b" using assms by (cases s) auto
  have "trim_prefixes utf8_spaces s = s"
    unfolding b(1) using utf8_spaces_ends(1) not_printable b(2) by (intro trim_prefixes_none) blast
  moreover obtain c v where c: "rev s = c # v" "printable c" using assms
    by (cases s rule: rev_cases) auto
  have "trim_prefixes (map rev utf8_spaces) (rev s) = rev s"
    unfolding c(1)
  proof (rule trim_prefixes_none, rule ballI, rule impI)
    fix w assume "w \<in> set (map rev utf8_spaces)" "w \<noteq> []"
    then obtain u where "u \<in> set utf8_spaces" "w = rev u" by auto
    with utf8_spaces_ends(2) [of u] c(2) show "hd w \<noteq> c" by (auto simp: hd_rev)
  qed
  ultimately show ?thesis by (simp add: TrimSpace_def)
qed

lemma set_trim_prefixes: "set (trim_prefixes ws s) \<subseteq> set s"
proof (induction ws s rule: trim_prefixes.induct)
  case (1 ws s)
  then show ?case
    by (subst trim_prefixes.simps) (auto split: option.splits dest: in_set_dropD)
qed

lemma set_TrimSpace: "set (TrimSpace s) \<subseteq> set s"
  using set_trim_prefixes [of "map rev utf8_spaces" "rev (trim_prefixes utf8_spaces s)"]
    set_trim_prefixes [of utf8_spaces s]
  by (auto simp: TrimSpace_def)

lemma frame_words_solid: "w \<in> set (split_on 32 (TrimSpace (squeeze False m))) \<Longrightarrow> solid w"
  using split_on_sets [of w 32] set_TrimSpace [of "squeeze False m"] squeeze_sets [of False m]
  by (fastforce simp: solid_def)

section \<open>Frames that are made\<close>

definition framed_type :: "MessageType \<Rightarrow> bool" where
  "framed_type typ \<longleftrightarrow>
     typ \<in> {MessageTypeEncryption, MessageTypeAttachedSignature, MessageTypeDetachedSignature}"

text \<open>The two words of the message type.\<close>

definition type_words :: "MessageType \<Rightarrow> bytes list" where
  "type_words typ =
     (if typ = MessageTypeEncryption then [ascii ''ENCRYPTED'', ascii ''MESSAGE'']
      else if typ = MessageTypeAttachedSignature then [ascii ''SIGNED'', ascii ''MESSAGE'']
      else [ascii ''DETACHED'', ascii ''SIGNATURE''])"

lemmas frame_string_defs = headerMarker_def footerMarker_def ToUpper_def FormatName_def type_words_def
  getStringForType_def EncryptionArmorString_def SignedArmorString_def DetachedSignatureArmorString_def

lemma type_words:
  assumes "framed_type typ"
  obtains u v where "type_words typ = [u, v]" "getStringForType typ = u @ [32] @ v" "solid u" "solid v"
    "u \<noteq> []" "v \<noteq> []" "printable (last v)" "length u + length v \<le> 17"
proof -
  have "\<exists>u v. type_words typ = [u, v] \<and> getStringForType typ = u @ [32] @ v \<and> solid u \<and> solid v \<and>
      u \<noteq> [] \<and> v \<noteq> [] \<and> printable (last v) \<and> length u + length v \<le> 17"
    using assms
    by (auto simp: framed_type_def type_words_def getStringForType_def message_type_defs
        EncryptionArmorString_def SignedArmorString_def DetachedSignatureArmorString_def ascii_def
        frame_space_def printable_def)
  then show thesis using that by blast
qed

lemma markers:
  "hof = headerMarker \<or> hof = footerMarker \<Longrightarrow>
     solid hof \<and> hof \<noteq> [] \<and> printable (hd hof) \<and> length hof \<le> 5"
  by (auto simp: headerMarker_def footerMarker_def ascii_def frame_space_def printable_def)

lemma SALTPACK: "solid (ToUpper FormatName)" "ToUpper FormatName \<noteq> []" "length (ToUpper FormatName) = 8"
  by (simp_all add: ToUpper_def FormatName_def ascii_def frame_space_def)

text \<open>The words of a frame.\<close>

definition frame_words :: "bytes \<Rightarrow> MessageType \<Rightarrow> bytes \<Rightarrow> bytes list" where
  "frame_words hof typ brand =
     [hof] @ (if brand = [] then [] else [brand]) @ [ToUpper FormatName] @ type_words typ"

lemma makeFrame_words: "framed_type typ \<Longrightarrow> makeFrame hof typ brand = join_words (frame_words hof typ brand)"
  by (erule type_words) (auto simp: makeFrame_def frame_words_def Let_def)

lemma length_join_words: "ws \<noteq> [] \<Longrightarrow> length (join_words ws) + 1 = sum_list (map length ws) + length ws"
  by (induction ws rule: join_words.induct) simp_all

lemma join_words_ends:
  "ws \<noteq> [] \<Longrightarrow> \<forall>w\<in>set ws. w \<noteq> [] \<Longrightarrow> join_words ws \<noteq> [] \<and> hd (join_words ws) = hd (hd ws) \<and>
     last (join_words ws) = last (last ws)"
  by (induction ws rule: join_words.induct) auto

lemma parseFrame_makeFrame:
  assumes fty: "framed_type typ" and hof: "hof = headerMarker \<or> hof = footerMarker"
    and brand: "solid brand" "length brand \<le> maxBrandLength"
  shows "parseFrame (makeFrame hof typ brand) typ hof = (brand, None)"
proof -
  obtain u v where uv: "type_words typ = [u, v]" "getStringForType typ = u @ [32] @ v" "solid u" "solid v"
    "u \<noteq> []" "v \<noteq> []" "printable (last v)" "length u + length v \<le> 17" by (rule type_words [OF fty])
  let ?ws = "frame_words hof typ brand"
  note m = markers [OF hof]
  have ws: "\<forall>w\<in>set ?ws. solid w \<and> w \<noteq> []" "?ws \<noteq> []"
    using m brand SALTPACK uv by (auto simp: frame_words_def)
  have nosp: "\<forall>w\<in>set ?ws. 32 \<notin> set w" using ws(1) solid_no_space by blast
  have "length (join_words ?ws) + 1 \<le> 512"
    using length_join_words [OF ws(2)] m brand(2) uv SALTPACK by (simp add: frame_words_def maxBrandLength_def)
  then have len: "\<not> length (join_words ?ws) > maxFrameLength" by (simp add: maxFrameLength_def)
  have "last ?ws = v" "hd ?ws = hof" using uv by (simp_all add: frame_words_def)
  then have "TrimSpace (join_words ?ws) = join_words ?ws"
    using join_words_ends [OF ws(2)] ws(1) m uv by (intro TrimSpace_printable) auto
  then have "split_on 32 (TrimSpace (squeeze False (join_words ?ws))) = ?ws"
    using squeeze_words [OF ws(1)] split_on_join [OF nosp ws(2)] by simp
  then have p: "split_on 32 (TrimSpace (squeeze False (makeFrame hof typ brand))) = ?ws"
    "\<not> length (makeFrame hof typ brand) > maxFrameLength"
    using len by (simp_all add: makeFrame_words [OF fty])
  show ?thesis
    using uv brand(2)
    by (simp add: parseFrame_def p Let_def) (simp add: frame_words_def shift_def pop_def)
qed

lemma parseFrame_brand:
  assumes "parseFrame m typ hof = (brand, None)"
  shows "solid brand \<and> length brand \<le> maxBrandLength"
proof -
  let ?v = "split_on 32 (TrimSpace (squeeze False m))"
  have "brand = [] \<or> (brand \<in> set ?v \<and> length brand \<le> maxBrandLength)"
  proof -
    have "length ?v = 4 \<or> length ?v = 5"
      using assms by (auto simp: parseFrame_def Let_def split: if_splits)
    then consider "length ?v = 4" | "length ?v = 5" by blast
    then show ?thesis
    proof cases
      case 2
      then obtain a b c d e where v: "?v = [a, b, c, d, e]" by (auto simp: length_Suc_conv numeral_eq_Suc)
      show ?thesis using assms
        by (auto simp: parseFrame_def Let_def v shift_def pop_def split: if_splits)
    next
      case 1
      then obtain a b c d where v: "?v = [a, b, c, d]" by (auto simp: length_Suc_conv numeral_eq_Suc)
      show ?thesis using assms
        by (auto simp: parseFrame_def Let_def v shift_def pop_def split: if_splits)
    qed
  qed
  then show ?thesis using frame_words_solid by (auto simp: maxBrandLength_def)
qed

lemma CheckArmor62_made:
  assumes "framed_type typ" "solid brand" "length brand \<le> maxBrandLength"
  shows "CheckArmor62 (makeFrame headerMarker typ brand) (makeFrame footerMarker typ brand) typ = (brand, None)"
  using assms by (simp add: CheckArmor62_def parseFrame_makeFrame)

lemma unframed_type: "\<not> framed_type typ \<Longrightarrow> snd (parseFrame m typ hof) \<noteq> None"
  by (simp add: parseFrame_def getStringForType_def framed_type_def Let_def)

text \<open>
  C28: a frame that was made parses back to its brand exactly when the message type has a frame
  and the brand has at most 128 bytes and none of the bytes that separate words: space, tab,
  newline, carriage return and \<open>>\<close>. \<open>makeFrame\<close> checks none of this: with another brand it returns
  a frame that does not parse to it. Nor does either function restrict the brand to letters and
  digits, as rule 2 for the framing in \<open>specs/saltpack_armor.md\<close> does.
\<close>

theorem parseFrame_makeFrame_iff:
  assumes "hof = headerMarker \<or> hof = footerMarker"
  shows "parseFrame (makeFrame hof typ brand) typ hof = (brand, None) \<longleftrightarrow>
    framed_type typ \<and> set brand \<inter> {32, 9, 10, 13, 62} = {} \<and> length brand \<le> maxBrandLength"
proof -
  have "solid brand \<longleftrightarrow> set brand \<inter> {32, 9, 10, 13, 62} = {}"
    by (auto simp: solid_def frame_space_def)
  then show ?thesis
    using parseFrame_makeFrame [OF _ assms, of "typ" brand] parseFrame_brand [of "makeFrame hof typ brand" "typ" hof brand]
      unframed_type [of "typ" "makeFrame hof typ brand" hof] by force
qed

theorem parseFrame_makeFrame_iff_witness:
  "(parseFrame (makeFrame headerMarker MessageTypeEncryption (ascii ''A>B'')) MessageTypeEncryption headerMarker
     = (ascii ''A>B'', None) \<longleftrightarrow> False) \<and>
   (parseFrame (makeFrame headerMarker MessageTypeEncryption (ascii ''a-b'')) MessageTypeEncryption headerMarker
     = (ascii ''a-b'', None) \<longleftrightarrow> True)"
  using parseFrame_makeFrame_iff [of headerMarker MessageTypeEncryption "ascii ''A>B''"]
    parseFrame_makeFrame_iff [of headerMarker MessageTypeEncryption "ascii ''a-b''"]
  by (simp add: framed_type_def ascii_def maxBrandLength_def)

text \<open>The text of a made frame, for the armor: no punctuation and only characters of the alphabet and spaces.\<close>

lemma set_join_words: "set (join_words ws) \<subseteq> (\<Union>w\<in>set ws. set w) \<union> {32}"
  by (induction ws rule: join_words.induct) auto

definition frame_chars :: "byte \<Rightarrow> bool" where
  "frame_chars b \<longleftrightarrow> b = 32 \<or> (65 \<le> b \<and> b \<le> 90)"

lemma makeFrame_chars:
  assumes "framed_type typ" "hof = headerMarker \<or> hof = footerMarker" "b \<in> set (makeFrame hof typ brand)"
  shows "frame_chars b \<or> b \<in> set brand"
proof -
  have "b \<in> set hof \<union> set brand \<union> set (ToUpper FormatName) \<union> (\<Union>w\<in>set (type_words typ). set w) \<union> {32}"
    using assms set_join_words [of "frame_words hof typ brand"]
    by (auto simp: makeFrame_words frame_words_def split: if_splits)
  then show ?thesis using assms(2)
    by (auto simp: frame_chars_def headerMarker_def footerMarker_def ToUpper_def FormatName_def
        type_words_def ascii_def split: if_splits)
qed

lemma makeFrame_ends:
  assumes "framed_type typ" "hof = headerMarker \<or> hof = footerMarker" "solid brand"
  shows "TrimSpace (makeFrame hof typ brand) = makeFrame hof typ brand"
proof -
  obtain u v where uv: "type_words typ = [u, v]" "u \<noteq> []" "v \<noteq> []" "printable (last v)"
    by (rule type_words [OF assms(1)])
  let ?ws = "frame_words hof typ brand"
  have "\<forall>w\<in>set ?ws. w \<noteq> []" "?ws \<noteq> []" "last ?ws = v" "hd ?ws = hof"
    using markers [OF assms(2)] SALTPACK uv by (auto simp: frame_words_def)
  then show ?thesis
    unfolding makeFrame_words [OF assms(1)]
    using join_words_ends [of ?ws] markers [OF assms(2)] uv by (intro TrimSpace_printable) auto
qed

lemma length_makeFrame:
  assumes "framed_type typ" "hof = headerMarker \<or> hof = footerMarker" "length brand \<le> maxBrandLength"
  shows "length (makeFrame hof typ brand) < 8000"
proof -
  obtain u v where uv: "type_words typ = [u, v]" "length u + length v \<le> 17" by (rule type_words [OF assms(1)])
  have "frame_words hof typ brand \<noteq> []" by (simp add: frame_words_def)
  from length_join_words [OF this] show ?thesis
    unfolding makeFrame_words [OF assms(1)]
    using assms(3) markers [OF assms(2)] SALTPACK uv by (simp add: frame_words_def maxBrandLength_def)
qed

end
