(* ===== verification/Dearmor.thy ===== *)
theory Dearmor
  imports Armor Punctuated Frame
begin

text \<open>
  The reading half of \<open>armor.go\<close>: the stream that strips header and footer from an armored
  message and checks them, the base-x decoder on top of it and \<open>armorOpen\<close>. The frame object
  that the source returns beside the decoder is the stream inside the decoder; the model reaches
  it through \<open>decoderFrame\<close>.
\<close>

datatype fdsState = fdsHeader | fdsBody | fdsFooter | fdsEndOfStream

type_synonym HeaderChecker = "bytes \<Rightarrow> bytes \<times> err option"
type_synonym FrameChecker = "bytes \<Rightarrow> bytes \<Rightarrow> bytes \<times> err option"

record 'r framedDecoderStream =
  fdHeader :: bytes
  fdFooter :: bytes
  frameBrand :: bytes
  fdState :: fdsState
  fdParams :: armorParams
  fdR :: "'r punctuatedReader"
  headerChecker :: "HeaderChecker option"
  frameChecker :: "FrameChecker option"
  frameLim :: nat

definition isValidByteSequence :: "armorParams \<Rightarrow> bytes \<Rightarrow> bool" where
  "isValidByteSequence params p = list_all (IsValidByte (ArmorEncoding params)) p"

definition toASCII :: "armorParams \<Rightarrow> bytes \<Rightarrow> bytes \<times> err option" where
  "toASCII params buf =
     (if \<not> isValidByteSequence params buf then ([], Some (ErrBadFrame FrameInvalidASCII))
      else (TrimSpace buf, None))"

definition loadHeader ::
  "'r simple_reader \<Rightarrow> 'r framedDecoderStream \<Rightarrow> err option \<times> 'r framedDecoderStream" where
  "loadHeader rd s =
     (if fdState s = fdsHeader
      then (case ReadUntilPunctuation rd (frameLim s) (fdR s) of
              (Inl e, r) \<Rightarrow> (Some e, s\<lparr>fdHeader := [], fdR := r\<rparr>)
            | (Inr header, r) \<Rightarrow>
                (let s1 = s\<lparr>fdHeader := header, fdR := r\<rparr>
                 in case headerChecker s of
                      None \<Rightarrow> (None, s1\<lparr>fdState := fdsBody\<rparr>)
                    | Some check \<Rightarrow>
                        (case toASCII (fdParams s) header of
                           (_, Some e) \<Rightarrow> (Some e, s1)
                         | (headerStr, None) \<Rightarrow>
                             (case check headerStr of
                                (brand, Some e) \<Rightarrow> (Some e, s1\<lparr>frameBrand := brand\<rparr>)
                              | (brand, None) \<Rightarrow> (None, s1\<lparr>frameBrand := brand, fdState := fdsBody\<rparr>)))))
      else (None, s))"

text \<open>\<open>consumeUntilEOF\<close> always returns an error; it may not return on an endless stream.\<close>

partial_function (option) consumeUntilEOF ::
  "'r simple_reader \<Rightarrow> 'r framedDecoderStream \<Rightarrow> (err \<times> 'r framedDecoderStream) option" where
  "consumeUntilEOF rd s =
     (case punctuatedReader_Read rd 4096 (fdR s) of
        (oe, r) \<Rightarrow>
          (case oe of (out, e) \<Rightarrow>
             (case e of
                Some e \<Rightarrow> Some (e, s\<lparr>fdR := r\<rparr>)
              | None \<Rightarrow>
                  if out = [] then Some (EOF, s\<lparr>fdR := r\<rparr>)
                  else if \<not> isValidByteSequence (fdParams s) out then Some (ErrTrailingGarbage, s\<lparr>fdR := r\<rparr>)
                  else consumeUntilEOF rd (s\<lparr>fdR := r\<rparr>))))"

text \<open>The check of the footer.\<close>

definition checkFooter :: "'r framedDecoderStream \<Rightarrow> err option" where
  "checkFooter s =
     (case frameChecker s of
        None \<Rightarrow> None
      | Some check \<Rightarrow>
          (case toASCII (fdParams s) (fdHeader s) of
             (_, Some e) \<Rightarrow> Some e
           | (headerStr, None) \<Rightarrow>
               (case toASCII (fdParams s) (fdFooter s) of
                  (_, Some e) \<Rightarrow> Some e
                | (footerStr, None) \<Rightarrow> snd (check headerStr footerStr))))"

text \<open>
  \<open>Read\<close>, in the order of its four parts; \<open>out\<close> is the data of the body part, empty in the
  later states.
\<close>

definition framed_end ::
  "'r simple_reader \<Rightarrow> bytes \<Rightarrow> 'r framedDecoderStream \<Rightarrow>
     (bytes \<times> err option, 'r framedDecoderStream) go option" where
  "framed_end rd out s =
     (if fdState s = fdsEndOfStream
      then (case consumeUntilEOF rd s of
              None \<Rightarrow> None
            | Some (e, s') \<Rightarrow> Some (Ret (out, if e = EOF \<and> out \<noteq> [] then None else Some e) s'))
      else Some (Ret (out, None) s))"

definition framed_footer ::
  "'r simple_reader \<Rightarrow> bytes \<Rightarrow> 'r framedDecoderStream \<Rightarrow>
     (bytes \<times> err option, 'r framedDecoderStream) go option" where
  "framed_footer rd out s =
     (if fdState s = fdsFooter
      then (case ReadUntilPunctuation rd (frameLim s) (fdR s) of
              (Inl e, r) \<Rightarrow> Some (Ret ([], Some e) (s\<lparr>fdFooter := [], fdR := r\<rparr>))
            | (Inr footer, r) \<Rightarrow>
                (let s1 = s\<lparr>fdFooter := footer, fdR := r\<rparr>
                 in case checkFooter s1 of
                      Some e \<Rightarrow> Some (Ret ([], Some e) s1)
                    | None \<Rightarrow> framed_end rd out (s1\<lparr>fdState := fdsEndOfStream\<rparr>)))
      else framed_end rd out s)"

definition framed_body ::
  "'r simple_reader \<Rightarrow> nat \<Rightarrow> 'r framedDecoderStream \<Rightarrow>
     (bytes \<times> err option, 'r framedDecoderStream) go option" where
  "framed_body rd cap s =
     (if fdState s = fdsBody
      then (case punctuatedReader_Read rd cap (fdR s) of
              ((out, e), r) \<Rightarrow>
                (let s1 = s\<lparr>fdR := r\<rparr>
                 in if e = Some ErrPunctuated then framed_footer rd out (s1\<lparr>fdState := fdsFooter\<rparr>)
                    else if e = Some EOF then Some (Ret ([], Some ErrUnexpectedEOF) s1)
                    else case e of
                           Some e \<Rightarrow> Some (Ret ([], Some e) s1)
                         | None \<Rightarrow> framed_footer rd out s1))
      else framed_footer rd [] s)"

definition framedDecoderStream_Read :: "'r simple_reader \<Rightarrow> 'r framedDecoderStream reader" where
  "framedDecoderStream_Read rd cap s =
     (if fdState s = fdsHeader
      then (case loadHeader rd s of
              (Some e, s') \<Rightarrow> Some (Ret ([], Some e) s')
            | (None, s') \<Rightarrow> framed_body rd cap s')
      else framed_body rd cap s)"

text \<open>The frame. A footer asked for too early is an error of \<open>fmt\<close> that is not compared.\<close>

definition ErrFooterTooEarly :: err where "ErrFooterTooEarly = ErrForeign 0"

definition GetFooter :: "'r framedDecoderStream \<Rightarrow> bytes \<times> err option" where
  "GetFooter s =
     (if fdState s = fdsHeader \<or> fdState s = fdsBody then ([], Some ErrFooterTooEarly)
      else toASCII (fdParams s) (fdFooter s))"

definition GetHeader ::
  "'r simple_reader \<Rightarrow> 'r framedDecoderStream \<Rightarrow> (bytes \<times> err option) \<times> 'r framedDecoderStream" where
  "GetHeader rd s =
     (if fdState s = fdsHeader
      then (case loadHeader rd s of
              (Some e, s') \<Rightarrow> (([], Some e), s')
            | (None, s') \<Rightarrow> (toASCII (fdParams s') (fdHeader s'), s'))
      else (toASCII (fdParams s) (fdHeader s), s))"

definition GetBrand ::
  "'r simple_reader \<Rightarrow> 'r framedDecoderStream \<Rightarrow> (bytes \<times> err option) \<times> 'r framedDecoderStream" where
  "GetBrand rd s =
     (if fdState s = fdsHeader
      then (case loadHeader rd s of
              (Some e, s') \<Rightarrow> (([], Some e), s')
            | (None, s') \<Rightarrow> ((frameBrand s', None), s'))
      else ((frameBrand s, None), s))"

text \<open>
  \<open>newArmorDecoderStream\<close> never fails. \<open>decoderFrame\<close> is the frame of the decoder it makes and
  \<open>setDecoderFrame\<close> the decoder after a call of a method of the frame.
\<close>

definition newArmorDecoderStream ::
  "'r \<Rightarrow> armorParams \<Rightarrow> HeaderChecker option \<Rightarrow> FrameChecker option \<Rightarrow> 'r framedDecoderStream bxDecoder" where
  "newArmorDecoderStream r params hc fc =
     NewDecoder (ArmorEncoding params)
       \<lparr>fdHeader = [], fdFooter = [], frameBrand = [], fdState = fdsHeader, fdParams = params,
        fdR = newPunctuatedReader r (Punctuation params), headerChecker = hc, frameChecker = fc,
        frameLim = 8192\<rparr>"

definition decoderFrame :: "'f bxDecoder \<Rightarrow> 'f" where
  "decoderFrame d = (case dR d of Filtered f \<Rightarrow> fWrapped f | Plain s \<Rightarrow> s)"

definition setDecoderFrame :: "'f \<Rightarrow> 'f bxDecoder \<Rightarrow> 'f bxDecoder" where
  "setDecoderFrame s d =
     d\<lparr>dR := (case dR d of Filtered f \<Rightarrow> Filtered (f\<lparr>fWrapped := s\<rparr>) | Plain _ \<Rightarrow> Plain s)\<rparr>"

definition armorRead :: "'r simple_reader \<Rightarrow> 'r framedDecoderStream bxDecoder reader" where
  "armorRead rd = decoder_Read (framedDecoderStream_Read rd)"

text \<open>\<open>armorOpen\<close> gives the body, the brand, the header and the footer.\<close>

definition armorOpen ::
  "(nat \<Rightarrow> nat) \<Rightarrow> bytes \<Rightarrow> armorParams \<Rightarrow> HeaderChecker option \<Rightarrow> FrameChecker option \<Rightarrow>
     (bytes \<times> bytes \<times> bytes \<times> bytes) result option" where
  "armorOpen grow msg params hc fc =
     (case readAll grow (armorRead input_Read) (newArmorDecoderStream (bytes_input msg) params hc fc) of
        None \<Rightarrow> None
      | Some Panic \<Rightarrow> Some Panicked
      | Some (Ret (_, Some e) _) \<Rightarrow> Some (Err e)
      | Some (Ret (body, None) d) \<Rightarrow>
          Some (case GetHeader input_Read (decoderFrame d) of
                  ((_, Some e), _) \<Rightarrow> Err e
                | ((header, None), s) \<Rightarrow>
                    (case GetFooter s of
                       (_, Some e) \<Rightarrow> Err e
                     | (footer, None) \<Rightarrow>
                         (case GetBrand input_Read s of
                            ((_, Some e), _) \<Rightarrow> Err e
                          | ((brand, None), _) \<Rightarrow> Ok (body, brand, header, footer)))))"

end
