(* ===== verification/Dearmor_Correct.thy ===== *)
theory Dearmor_Correct
  imports Dearmor Basex_Stream_Correct
begin

text \<open>
  The dearmoring stream is a \<open>source\<close> of the body of a well-framed message, so the decoder on it
  is a \<open>source\<close> of the decoded bytes; on any text at all both are a \<open>finite_source\<close>.
\<close>

section \<open>Well-framed messages\<close>

definition header_passes :: "armorParams \<Rightarrow> HeaderChecker option \<Rightarrow> bytes \<Rightarrow> bytes \<Rightarrow> bool" where
  "header_passes params hc hdr brand \<longleftrightarrow>
     (case hc of
        None \<Rightarrow> brand = []
      | Some check \<Rightarrow> isValidByteSequence params hdr \<and> check (TrimSpace hdr) = (brand, None))"

definition frame_passes :: "armorParams \<Rightarrow> FrameChecker option \<Rightarrow> bytes \<Rightarrow> bytes \<Rightarrow> bool" where
  "frame_passes params fc hdr ftr \<longleftrightarrow>
     (case fc of
        None \<Rightarrow> True
      | Some check \<Rightarrow> isValidByteSequence params hdr \<and> isValidByteSequence params ftr \<and>
          snd (check (TrimSpace hdr) (TrimSpace ftr)) = None)"

text \<open>
  A source that delivers a header, a body, a footer and trailing white space, each but the last
  before a punctuation byte, with checkers that accept the frame.
\<close>

locale framed_source = plain_source rd R Z
  for rd :: "'r simple_reader" and R :: "'r \<Rightarrow> bytes \<Rightarrow> err \<Rightarrow> bool" and Z :: "'r \<Rightarrow> err \<Rightarrow> bool" +
  fixes params :: armorParams
    and hc :: "HeaderChecker option"
    and fc :: "FrameChecker option"
    and hdr ftr brand :: bytes
  assumes hdr_passes: "header_passes params hc hdr brand"
    and frm_passes: "frame_passes params fc hdr ftr"
    and hdr_clean: "Punctuation params \<notin> set hdr" "length hdr < 8192"
    and ftr_clean: "Punctuation params \<notin> set ftr" "length ftr < 8192"
begin

abbreviation punct :: byte where
  "punct \<equiv> Punctuation params"

definition trailer :: "bytes \<Rightarrow> bool" where
  "trailer t \<longleftrightarrow> isValidByteSequence params t \<and> punct \<notin> set t"

definition framed :: "'r framedDecoderStream \<Rightarrow> bytes \<Rightarrow> err \<Rightarrow> bool" where
  "framed s bs e \<longleftrightarrow> e = EOF \<and> fdParams s = params \<and> headerChecker s = hc \<and> frameChecker s = fc \<and>
     frameLim s = 8192 \<and> punctuation (fdR s) = punct \<and> punct \<notin> set bs \<and>
     (case fdState s of
        fdsHeader \<Rightarrow> frameBrand s = [] \<and>
          (\<exists>t. punctuated (fdR s) (hdr @ punct # bs @ punct # ftr @ punct # t) EOF \<and> trailer t)
      | fdsBody \<Rightarrow> fdHeader s = hdr \<and> frameBrand s = brand \<and>
          (\<exists>t. punctuated (fdR s) (bs @ punct # ftr @ punct # t) EOF \<and> trailer t)
      | fdsFooter \<Rightarrow> False
      | fdsEndOfStream \<Rightarrow> fdHeader s = hdr \<and> frameBrand s = brand \<and> fdFooter s = ftr \<and> bs = [] \<and>
          punctuated (fdR s) [] EOF)"

definition framed_over :: "'r framedDecoderStream \<Rightarrow> err \<Rightarrow> bool" where
  "framed_over s e \<longleftrightarrow> framed s [] e \<and> fdState s = fdsEndOfStream"

lemma consumeUntilEOF_trailer:
  assumes "punctuated (fdR s) t EOF" "trailer t" "fdParams s = params" "punctuation (fdR s) = punct"
  shows "\<exists>r. consumeUntilEOF rd s = Some (EOF, s\<lparr>fdR := r\<rparr>) \<and> punctuated r [] EOF \<and> punctuation r = punct"
  using assms
proof (induction "length t" arbitrary: t s rule: less_induct)
  case less
  have "(0 :: nat) < 4096" by simp
  from less.prems(1) this show ?case
  proof (cases rule: punctuated_step)
    case (data k p)
    let ?s = "s\<lparr>fdR := p\<rparr>"
    have valid: "isValidByteSequence params (take k t)" "trailer (drop k t)"
      using less.prems(2)
      by (auto simp: trailer_def isValidByteSequence_def list_all_iff dest: in_set_takeD in_set_dropD)
    have "take k t \<noteq> []" using data by auto
    then have "consumeUntilEOF rd s = consumeUntilEOF rd ?s"
      using data(1) valid(1) less.prems(3) by (subst consumeUntilEOF.simps) simp
    moreover have "length (drop k t) < length t" using data by simp
    ultimately show ?thesis
      using less.hyps [of "drop k t" ?s] data(6,7) valid(2) less.prems(3,4) by simp
  next
    case (punct k p)
    then have "punct \<in> set t" using less.prems(4) by (metis nth_mem)
    with less.prems(2) show ?thesis by (simp add: trailer_def)
  next
    case (finish p)
    then have "consumeUntilEOF rd s = Some (EOF, s\<lparr>fdR := p\<rparr>)"
      by (subst consumeUntilEOF.simps) simp
    with finish less.prems(4) show ?thesis by (auto simp: punctuated_over_def)
  qed
qed

lemma loadHeader_framed:
  assumes "framed s bs EOF" "fdState s = fdsHeader"
  obtains s' where "loadHeader rd s = (None, s')" "framed s' bs EOF" "fdState s' = fdsBody"
proof -
  obtain t where t: "punctuated (fdR s) (hdr @ punctuation (fdR s) # bs @ punct # ftr @ punct # t) EOF" "trailer t"
    and s: "fdParams s = params" "headerChecker s = hc" "frameChecker s = fc" "frameLim s = 8192"
      "punctuation (fdR s) = punct" "punct \<notin> set bs" "frameBrand s = []"
    using assms by (auto simp: framed_def)
  have clean: "punctuation (fdR s) \<notin> set hdr" "length hdr < frameLim s" using s hdr_clean by simp_all
  obtain r where r: "ReadUntilPunctuation rd (frameLim s) (fdR s) = (Inr hdr, r)"
      "punctuated r (bs @ punct # ftr @ punct # t) EOF" "punctuation r = punctuation (fdR s)"
    by (rule ReadUntilPunctuation_finds [OF t(1) clean])
  let ?s = "s\<lparr>fdHeader := hdr, fdR := r, frameBrand := brand, fdState := fdsBody\<rparr>"
  have "loadHeader rd s = (None, ?s)"
  proof (cases hc)
    case None
    then have "brand = frameBrand s" using hdr_passes s by (simp add: header_passes_def)
    with None show ?thesis using assms(2) r s by (cases s) (simp add: loadHeader_def)
  next
    case (Some check)
    then show ?thesis
      using assms(2) r s hdr_passes by (simp add: loadHeader_def header_passes_def toASCII_def)
  qed
  moreover have "framed ?s bs EOF" using s t(2) r by (auto simp: framed_def)
  ultimately show thesis by (rule that) simp
qed

lemma framed_body_step:
  assumes "framed s bs EOF" "fdState s = fdsBody \<or> fdState s = fdsEndOfStream" "0 < cap"
  shows "\<exists>k s'. framed_body rd cap s = Some (Ret (take k bs, if bs = [] then Some EOF else None) s') \<and>
    (bs = [] \<longrightarrow> framed_over s' EOF) \<and> k \<le> cap \<and> k \<le> length bs \<and> (bs \<noteq> [] \<longrightarrow> 0 < k) \<and>
    framed s' (drop k bs) EOF"
proof (cases "fdState s = fdsBody")
  case True
  obtain t where t: "punctuated (fdR s) (bs @ punct # ftr @ punct # t) EOF" "trailer t"
    and s: "fdParams s = params" "headerChecker s = hc" "frameChecker s = fc" "frameLim s = 8192"
      "punctuation (fdR s) = punct" "punct \<notin> set bs" "fdHeader s = hdr" "frameBrand s = brand"
    using assms True by (auto simp: framed_def)
  from t(1) \<open>0 < cap\<close> show ?thesis
  proof (cases rule: punctuated_step)
    case (data k p)
    then have k: "k \<le> length bs" using before_punct s(5) by metis
    let ?s = "s\<lparr>fdR := p\<rparr>"
    have "framed_body rd cap s = Some (Ret (take k bs, None) ?s)"
      using True data(1) k by (simp add: framed_body_def framed_footer_def framed_end_def)
    moreover have "framed ?s (drop k bs) EOF"
      using True s t(2) data(6,7) k by (auto simp: framed_def dest: in_set_dropD)
    ultimately show ?thesis using data k by (intro exI [of _ k] exI [of _ ?s]) auto
  next
    case (punct k p)
    then have k: "k = length bs" using at_punct s(5,6) by metis
    have p: "punctuated p (ftr @ punctuation p # t) EOF" "punctuation p \<notin> set ftr" "length ftr < 8192"
      using punct k s ftr_clean by simp_all
    obtain r where r: "ReadUntilPunctuation rd 8192 p = (Inr ftr, r)" "punctuated r t EOF"
        "punctuation r = punctuation p"
      by (rule ReadUntilPunctuation_finds [OF p])
    let ?s1 = "s\<lparr>fdFooter := ftr, fdR := r, fdState := fdsEndOfStream\<rparr>"
    have check: "checkFooter (s\<lparr>fdState := fdsFooter, fdFooter := ftr, fdR := r\<rparr>) = None"
      using frm_passes s by (auto simp: checkFooter_def frame_passes_def toASCII_def split: option.splits)
    have "punctuation r = punct" using r(3) punct(7) s(5) by simp
    then obtain r' where r': "consumeUntilEOF rd ?s1 = Some (EOF, ?s1\<lparr>fdR := r'\<rparr>)" "punctuated r' [] EOF"
        "punctuation r' = punct"
      using consumeUntilEOF_trailer [of ?s1 t] r(2) t(2) s(1) by auto
    let ?s2 = "?s1\<lparr>fdR := r'\<rparr>"
    have "framed_body rd cap s = Some (Ret (bs, if bs = [] then Some EOF else None) ?s2)"
      using True punct(1) k s(4) r(1) check r'(1)
      by (simp add: framed_body_def framed_footer_def framed_end_def Let_def)
    moreover have "framed ?s2 [] EOF" using s r' by (simp add: framed_def)
    moreover from this have "framed_over ?s2 EOF" by (simp add: framed_over_def)
    ultimately show ?thesis using punct(3) k by (intro exI [of _ k] exI [of _ ?s2]) auto
  next
    case (finish p)
    then show ?thesis by simp
  qed
next
  case False
  then have state: "fdState s = fdsEndOfStream" using assms(2) by simp
  then have s: "fdParams s = params" "bs = []" "punctuated (fdR s) [] EOF" "punctuation (fdR s) = punct"
    using assms(1) by (auto simp: framed_def)
  have "trailer []" by (simp add: trailer_def isValidByteSequence_def)
  from consumeUntilEOF_trailer [OF s(3) this s(1,4)] obtain r where
    r: "consumeUntilEOF rd s = Some (EOF, s\<lparr>fdR := r\<rparr>)" "punctuated r [] EOF" "punctuation r = punct" by blast
  have "framed (s\<lparr>fdR := r\<rparr>) [] EOF" using assms(1) state r by (auto simp: framed_def)
  with state s r show ?thesis
    by (intro exI [of _ 0] exI [of _ "s\<lparr>fdR := r\<rparr>"])
      (simp add: framed_body_def framed_footer_def framed_end_def framed_over_def)
qed

lemma framed_step:
  assumes s: "framed s bs EOF" and cap: "0 < cap"
  shows "\<exists>k s'. framedDecoderStream_Read rd cap s =
      Some (Ret (take k bs, if bs = [] then Some EOF else None) s') \<and>
    (bs = [] \<longrightarrow> framed_over s' EOF) \<and> k \<le> cap \<and> k \<le> length bs \<and> (bs \<noteq> [] \<longrightarrow> 0 < k) \<and>
    framed s' (drop k bs) EOF"
proof (cases "fdState s = fdsHeader")
  case True
  from loadHeader_framed [OF s True] obtain s1 where
    "loadHeader rd s = (None, s1)" "framed s1 bs EOF" "fdState s1 = fdsBody" .
  with framed_body_step [of s1 bs cap] cap True show ?thesis by (simp add: framedDecoderStream_Read_def)
next
  case False
  moreover from this have "fdState s = fdsBody \<or> fdState s = fdsEndOfStream"
    using s by (cases "fdState s") (simp_all add: framed_def)
  ultimately show ?thesis
    using framed_body_step [OF s _ cap] by (simp add: framedDecoderStream_Read_def)
qed

lemma framed_is_source: "source (framedDecoderStream_Read rd) framed framed_over"
proof
  fix s bs e and n :: nat
  assume "framed s bs e" "bs \<noteq> []" "0 < n"
  then show "\<exists>k r'. 0 < k \<and> k \<le> n \<and> k \<le> length bs \<and>
      framedDecoderStream_Read rd n s = Some (Ret (take k bs, None) r') \<and> framed r' (drop k bs) e"
    using framed_step [of s bs n] by (auto simp: framed_def)
next
  fix s e and n :: nat
  assume "framed s [] e" "0 < n"
  then show "\<exists>r'. framedDecoderStream_Read rd n s = Some (Ret ([], Some e) r') \<and> framed_over r' e"
    using framed_step [of s "[]" n] by (auto simp: framed_def)
qed (simp add: framed_over_def)

section \<open>The decoder on a well-framed message\<close>

abbreviation dearmored :: "'r framedDecoderStream bxDecoder \<Rightarrow> bytes \<Rightarrow> err \<Rightarrow> bool" where
  "dearmored \<equiv> source.decoded framed framed_over"

lemma dearmored_source:
  "source (armorRead rd) (source.decoded framed framed_over) (source.decoder_over framed framed_over)"
  unfolding armorRead_def by (rule source.decoder_source [OF framed_is_source])

lemma newArmorDecoderStream_header:
  assumes r: "R r (hdr @ punct # chars @ punct # ftr @ punct # t) EOF" and t: "trailer t" "punct \<notin> set chars"
  obtains s where "loadHeader rd (decoderFrame (newArmorDecoderStream r params hc fc)) = (None, s)"
    "frameBrand s = brand"
proof -
  let ?s = "decoderFrame (newArmorDecoderStream r params hc fc)"
  have "framed ?s chars EOF" "fdState ?s = fdsHeader"
    using punctuated_new [OF r] t
    by (auto simp: framed_def newArmorDecoderStream_def NewDecoder_def decoderFrame_def newPunctuatedReader_def)
  then obtain s where "loadHeader rd ?s = (None, s)" "framed s chars EOF" "fdState s = fdsBody"
    by (rule loadHeader_framed)
  then show thesis by (intro that [of s]) (simp_all add: framed_def)
qed

lemma newArmorDecoderStream_framed:
  assumes enc: "wf_enc (ArmorEncoding params)" "hasSkipBytes (ArmorEncoding params)"
    and r: "R r (hdr @ punct # chars @ punct # ftr @ punct # t) EOF" and t: "trailer t"
    and chars: "isValidByteSequence params chars" "punct \<notin> set chars"
    and dec: "decode_spec (ArmorEncoding params) (goods (ArmorEncoding params) chars) = (w, None)"
  shows "source.decoded framed framed_over (newArmorDecoderStream r params hc fc) w EOF"
proof -
  let ?s = "\<lparr>fdHeader = [], fdFooter = [], frameBrand = [], fdState = fdsHeader, fdParams = params,
      fdR = newPunctuatedReader r punct, headerChecker = hc, frameChecker = fc, frameLim = 8192\<rparr>"
  have p: "punctuation (newPunctuatedReader r punct) = punct" by (simp add: newPunctuatedReader_def)
  have "framed ?s chars EOF" using punctuated_new [OF r] t chars(2) p by (auto simp: framed_def)
  moreover have "\<forall>b\<in>set chars. IsValidByte (ArmorEncoding params) b"
    using chars(1) by (simp add: isValidByteSequence_def list_all_iff)
  ultimately show ?thesis
    unfolding newArmorDecoderStream_def
    by (rule source.NewDecoder_decoded [OF framed_is_source enc _ _ dec])
qed

text \<open>When the decoder has reported the end, the frame is complete.\<close>

lemma decoder_over_frame:
  assumes "source.decoder_over framed framed_over d e"
  obtains "fdState (decoderFrame d) = fdsEndOfStream" "fdHeader (decoderFrame d) = hdr"
    "fdFooter (decoderFrame d) = ftr" "frameBrand (decoderFrame d) = brand" "fdParams (decoderFrame d) = params"
proof -
  have "framed_over (decoderFrame d) EOF"
    using assms source.decoder_over_def [OF framed_is_source]
    by (auto simp: source.feeds_over_def [OF framed_is_source] source.filter_over_def [OF framed_is_source]
        decoderFrame_def split: decoderInput.splits)
  then show thesis by (intro that) (auto simp: framed_over_def framed_def)
qed

end

section \<open>Any text at all\<close>

context plain_finite
begin

lemma consumeUntilEOF_ends:
  assumes "I (prR (fdR s))"
  shows "\<exists>e r. consumeUntilEOF rd s = Some (e, s\<lparr>fdR := r\<rparr>) \<and> I (prR r) \<and>
    punctuated_size r \<le> punctuated_size (fdR s)"
  using assms
proof (induction "punctuated_size (fdR s)" arbitrary: s rule: less_induct)
  case less
  have "(0 :: nat) < 4096" by simp
  from finite_source.rd_ends [OF plain_finite.axioms [OF punctuated_finite] less.prems this]
  obtain out e r where r: "punctuatedReader_Read rd 4096 (fdR s) = ((out, e), r)" "I (prR r)"
      "length out + punctuated_size r \<le> punctuated_size (fdR s)" "e = None \<longrightarrow> out \<noteq> []"
    by (auto simp: plain_reader_def split: prod.splits)
  show ?case
  proof (cases "e = None \<and> isValidByteSequence (fdParams s) out")
    case True
    let ?s = "s\<lparr>fdR := r\<rparr>"
    have "consumeUntilEOF rd s = consumeUntilEOF rd ?s"
      using r True by (subst consumeUntilEOF.simps) simp
    moreover have "punctuated_size (fdR ?s) < punctuated_size (fdR s)" using r True by (cases out) simp_all
    from less.hyps [OF this] r obtain e' r' where "consumeUntilEOF rd ?s = Some (e', ?s\<lparr>fdR := r'\<rparr>)"
      "I (prR r')" "punctuated_size r' \<le> punctuated_size r" by auto
    ultimately show ?thesis using r(3) by (intro exI [of _ e'] exI [of _ r']) simp
  next
    case False
    then have "consumeUntilEOF rd s = Some (case e of None \<Rightarrow> ErrTrailingGarbage | Some e \<Rightarrow> e, s\<lparr>fdR := r\<rparr>)"
      using r(1,4) by (subst consumeUntilEOF.simps) (auto split: option.splits)
    with r show ?thesis
      by (intro exI [of _ "case e of None \<Rightarrow> ErrTrailingGarbage | Some e \<Rightarrow> e"] exI [of _ r]) simp
  qed
qed

definition framed_size :: "'r framedDecoderStream \<Rightarrow> nat" where
  "framed_size s = punctuated_size (fdR s)"

definition framed_I :: "'r framedDecoderStream \<Rightarrow> bool" where
  "framed_I s \<longleftrightarrow> I (prR (fdR s))"

lemma loadHeader_ends:
  "framed_I s \<Longrightarrow> loadHeader rd s = (e, s') \<Longrightarrow> framed_I s' \<and> framed_size s' \<le> framed_size s"
  using ReadUntilPunctuation_ends [of "fdR s" "frameLim s"]
  by (auto simp: loadHeader_def framed_I_def framed_size_def Let_def
      split: if_splits prod.splits sum.splits option.splits)

lemma framed_end_ends:
  assumes "framed_I s" "out = [] \<longrightarrow> fdState s = fdsEndOfStream"
  shows "\<exists>p e s'. framed_end rd out s = Some (Ret (p, e) s') \<and> framed_I s' \<and> length p \<le> length out \<and>
    framed_size s' \<le> framed_size s \<and> (e = None \<longrightarrow> p \<noteq> [])"
  using assms consumeUntilEOF_ends [of s] by (auto simp: framed_end_def framed_I_def framed_size_def)

lemma framed_footer_ends:
  assumes "framed_I s" "out = [] \<longrightarrow> fdState s = fdsFooter \<or> fdState s = fdsEndOfStream"
  shows "\<exists>p e s'. framed_footer rd out s = Some (Ret (p, e) s') \<and> framed_I s' \<and> length p \<le> length out \<and>
    framed_size s' \<le> framed_size s \<and> (e = None \<longrightarrow> p \<noteq> [])"
proof (cases "fdState s = fdsFooter")
  case False
  with assms framed_end_ends [of s out] show ?thesis by (simp add: framed_footer_def)
next
  case True
  obtain x r where x: "ReadUntilPunctuation rd (frameLim s) (fdR s) = (x, r)" by fastforce
  have r: "I (prR r)" "punctuated_size r \<le> punctuated_size (fdR s)"
    using ReadUntilPunctuation_ends [OF _ x] assms(1) by (simp_all add: framed_I_def)
  show ?thesis
  proof (cases x)
    case (Inl e)
    with True x r show ?thesis by (simp add: framed_footer_def framed_I_def framed_size_def)
  next
    case (Inr f)
    let ?s = "s\<lparr>fdFooter := f, fdR := r\<rparr>"
    show ?thesis
    proof (cases "checkFooter ?s")
      case None
      have "framed_I (?s\<lparr>fdState := fdsEndOfStream\<rparr>)" "framed_size (?s\<lparr>fdState := fdsEndOfStream\<rparr>) \<le> framed_size s"
        using r by (simp_all add: framed_I_def framed_size_def)
      with framed_end_ends [of "?s\<lparr>fdState := fdsEndOfStream\<rparr>" out] True x Inr None show ?thesis
        by (fastforce simp: framed_footer_def Let_def)
    next
      case (Some e)
      with True x Inr r show ?thesis by (simp add: framed_footer_def framed_I_def framed_size_def Let_def)
    qed
  qed
qed

lemma framed_body_ends:
  assumes "framed_I s" "0 < cap" "fdState s \<noteq> fdsHeader"
  shows "\<exists>p e s'. framed_body rd cap s = Some (Ret (p, e) s') \<and> framed_I s' \<and> length p \<le> cap \<and>
    length p + framed_size s' \<le> framed_size s \<and> (e = None \<longrightarrow> p \<noteq> [])"
proof (cases "fdState s = fdsBody")
  case False
  then have "fdState s = fdsFooter \<or> fdState s = fdsEndOfStream" using assms(3) by (cases "fdState s") simp_all
  with False framed_footer_ends [OF assms(1), of "[]"] show ?thesis by (auto simp: framed_body_def)
next
  case True
  from finite_source.rd_ends [OF plain_finite.axioms [OF punctuated_finite] assms(1) [unfolded framed_I_def] assms(2)]
  obtain out e r where r: "punctuatedReader_Read rd cap (fdR s) = ((out, e), r)" "I (prR r)" "length out \<le> cap"
      "length out + punctuated_size r \<le> punctuated_size (fdR s)" "e = None \<longrightarrow> out \<noteq> []"
    by (auto simp: plain_reader_def split: prod.splits)
  have inv: "framed_I (s\<lparr>fdR := r, fdState := st\<rparr>)" "framed_I (s\<lparr>fdR := r\<rparr>)"
    "length out + framed_size (s\<lparr>fdR := r, fdState := st\<rparr>) \<le> framed_size s"
    "length out + framed_size (s\<lparr>fdR := r\<rparr>) \<le> framed_size s" for st
    using r by (simp_all add: framed_I_def framed_size_def)
  consider "e = Some ErrPunctuated" | "e = None" | e' where "e = Some e'" "e' \<noteq> ErrPunctuated"
    by (cases e) auto
  then show ?thesis
  proof cases
    case 1
    with True r(1) have "framed_body rd cap s = framed_footer rd out (s\<lparr>fdR := r, fdState := fdsFooter\<rparr>)"
      by (simp add: framed_body_def Let_def)
    with framed_footer_ends [OF inv(1), of out fdsFooter] inv(3) [of fdsFooter] r(3) show ?thesis
      by fastforce
  next
    case 2
    with True r(1) have "framed_body rd cap s = framed_footer rd out (s\<lparr>fdR := r\<rparr>)"
      by (simp add: framed_body_def Let_def)
    with framed_footer_ends [OF inv(2), of out] inv(4) r(3,5) 2 show ?thesis by fastforce
  next
    case 3
    with True r(1) inv(2,4) show ?thesis by (auto simp: framed_body_def Let_def)
  qed
qed

lemma framed_finite: "finite_source (framedDecoderStream_Read rd) framed_I framed_size"
proof
  fix s and n :: nat
  assume s: "framed_I s" and n: "0 < n"
  show "\<exists>p e s'. framedDecoderStream_Read rd n s = Some (Ret (p, e) s') \<and> framed_I s' \<and> length p \<le> n \<and>
      length p + framed_size s' \<le> framed_size s \<and> (e = None \<longrightarrow> p \<noteq> [])"
  proof (cases "fdState s = fdsHeader")
    case True
    obtain e s1 where l: "loadHeader rd s = (e, s1)" by fastforce
    note l' = loadHeader_ends [OF s l]
    show ?thesis
    proof (cases e)
      case None
      have "fdState s1 \<noteq> fdsHeader"
        using l None True by (auto simp: loadHeader_def Let_def split: sum.splits option.splits prod.splits)
      with framed_body_ends [of s1 n] l l' None True n show ?thesis
        by (fastforce simp: framedDecoderStream_Read_def)
    next
      case (Some e')
      with l l' True show ?thesis by (auto simp: framedDecoderStream_Read_def)
    qed
  next
    case False
    with framed_body_ends [OF s n] show ?thesis by (simp add: framedDecoderStream_Read_def)
  qed
qed

lemma armorRead_finite:
  "finite_source (armorRead rd) (finite_source.decoder_I framed_I) (finite_source.decoder_size framed_size)"
  unfolding armorRead_def by (rule finite_source.decoder_finite [OF framed_finite])

lemma newArmorDecoderStream_I:
  "wf_enc (ArmorEncoding params) \<Longrightarrow> hasSkipBytes (ArmorEncoding params) \<Longrightarrow> I r \<Longrightarrow>
     finite_source.decoder_I framed_I (newArmorDecoderStream r params hc fc)"
  unfolding newArmorDecoderStream_def
  by (rule finite_source.NewDecoder_I [OF framed_finite])
    (simp_all add: framed_I_def newPunctuatedReader_def)

end

end
