(* ===== verification/Armor62.thy ===== *)
theory Armor62
  imports Armor_Correct Dearmor_Correct
begin

text \<open>
  \<open>armor62.go\<close>: armor with the base-62 alphabet and the frame of \<open>frame.go\<close>, and what users rely
  on: the text that is written, for any sequence of writes; the round trip; that opening any text
  ends without a panic; and what happens to a reader that returns its last bytes with the error.
\<close>

section \<open>The functions of armor62.go\<close>

definition Armor62Params :: armorParams where
  "Armor62Params =
     \<lparr>BytesPerWord = 15, WordsPerLine = 200, Punctuation = 46, ArmorEncoding = Base62StdEncoding\<rparr>"

definition NewArmor62EncoderStream ::
  "'w writer \<Rightarrow> 'w \<Rightarrow> MessageType \<Rightarrow> bytes \<Rightarrow> err \<times> 'w + 'w armorEncoderStream" where
  "NewArmor62EncoderStream wr encoded typ brand =
     (let hdr = makeFrame headerMarker typ brand; ftr = makeFrame footerMarker typ brand
      in newArmorEncoderStream wr encoded hdr ftr Armor62Params)"

definition Armor62Seal :: "bytes \<Rightarrow> MessageType \<Rightarrow> bytes \<Rightarrow> bytes result" where
  "Armor62Seal plaintext typ brand =
     (let hdr = makeFrame headerMarker typ brand; ftr = makeFrame footerMarker typ brand
      in armorSeal plaintext hdr ftr Armor62Params)"

definition NewArmor62DecoderStream ::
  "'r \<Rightarrow> HeaderChecker option \<Rightarrow> FrameChecker option \<Rightarrow> 'r framedDecoderStream bxDecoder" where
  "NewArmor62DecoderStream r hc fc = newArmorDecoderStream r Armor62Params hc fc"

definition Armor62OpenWithValidation ::
  "(nat \<Rightarrow> nat) \<Rightarrow> bytes \<Rightarrow> HeaderChecker option \<Rightarrow> FrameChecker option \<Rightarrow>
     (bytes \<times> bytes \<times> bytes \<times> bytes) result option" where
  "Armor62OpenWithValidation grow msg hc fc = armorOpen grow msg Armor62Params hc fc"

text \<open>The body, the header and the footer.\<close>

definition Armor62Open :: "(nat \<Rightarrow> nat) \<Rightarrow> bytes \<Rightarrow> (bytes \<times> bytes \<times> bytes) result option" where
  "Armor62Open grow msg =
     map_option (\<lambda>r. bind_out r (\<lambda>(body, _, header, footer). Ok (body, header, footer)))
       (Armor62OpenWithValidation grow msg None None)"

definition CheckArmor62Frame ::
  "'r simple_reader \<Rightarrow> 'r framedDecoderStream \<Rightarrow> MessageType \<Rightarrow>
     (bytes \<times> err option) \<times> 'r framedDecoderStream" where
  "CheckArmor62Frame rd frame typ =
     (case GetHeader rd frame of
        ((_, Some e), s) \<Rightarrow> (([], Some e), s)
      | ((hdr, None), s) \<Rightarrow>
          (case GetFooter s of
             (_, Some e) \<Rightarrow> (([], Some e), s)
           | (ftr, None) \<Rightarrow> (CheckArmor62 hdr ftr typ, s)))"

text \<open>The checkers of the \<open>armor62_*.go\<close> files, by message type.\<close>

definition armor62HeaderChecker :: "MessageType \<Rightarrow> HeaderChecker" where
  "armor62HeaderChecker typ header = parseFrame header typ headerMarker"

definition armor62FrameChecker :: "MessageType \<Rightarrow> FrameChecker" where
  "armor62FrameChecker typ header footer = CheckArmor62 header footer typ"

section \<open>The text of a message\<close>

lemma Armor62Params_sel [simp]:
  "BytesPerWord Armor62Params = 15" "WordsPerLine Armor62Params = 200" "Punctuation Armor62Params = 46"
  "ArmorEncoding Armor62Params = Base62StdEncoding"
  by (simp_all add: Armor62Params_def)

lemma Armor62Params_ok [simp]: "params_ok Armor62Params"
  by (simp add: params_ok_def)

lemma hasSkipBytes_Base62 [simp]: "hasSkipBytes Base62StdEncoding"
  by (simp add: hasSkipBytes_def Base62StdEncoding_def NewEncoding_def)

definition armored :: "MessageType \<Rightarrow> bytes \<Rightarrow> bytes \<Rightarrow> bytes" where
  "armored typ brand plaintext =
     armor_text Armor62Params (makeFrame headerMarker typ brand) (makeFrame footerMarker typ brand) plaintext"

text \<open>The body between the two punctuation marks, with the white space around it.\<close>

definition armor_chars :: "bytes \<Rightarrow> bytes" where
  "armor_chars plaintext =
     (let chars = encode_spec Base62StdEncoding plaintext; l = last_block 15 chars; ws = full_blocks 15 chars
      in [32] @ armor_body Armor62Params chars @
         (if length l = 15 then [word_sep Armor62Params (length ws + 1)] else []))"

lemma armored_parts:
  "armored typ brand plaintext =
     makeFrame headerMarker typ brand @ 46 # armor_chars plaintext @
     46 # ([32] @ makeFrame footerMarker typ brand) @ 46 # [10]"
  by (simp add: armored_def armor_text_def armor_open_def armor_close_def armor_chars_def fmt_c_def Let_def)

lemma valid_separators:
  "IsValidByte Base62StdEncoding 32" "IsValidByte Base62StdEncoding 10" "\<not> IsValidByte Base62StdEncoding 46"
  by (simp_all add: IsValidByte_Base62 base62_bytes)

lemma word_sep_cases: "word_sep params n = 10 \<or> word_sep params n = 32"
  by (simp add: word_sep_def)

lemma decodeMap_None:
  "b \<notin> set base62EncodeStd \<Longrightarrow> decodeMap Base62StdEncoding b = None"
  using decode_table_None [of b base62EncodeStd] by (simp add: Base62StdEncoding_def NewEncoding_def)

lemma separators_skipped [simp]:
  "decodeMap Base62StdEncoding 32 = None" "decodeMap Base62StdEncoding (word_sep params n) = None"
  using decodeMap_None [of 32] decodeMap_None [of 10] word_sep_cases [of params n]
  by (auto simp: base62_bytes)

lemma render_chars:
  "goods Base62StdEncoding (render params n ws) = goods Base62StdEncoding (concat ws)"
  "b \<in> set (render params n ws) \<Longrightarrow> b \<in> set (concat ws) \<or> b = 10 \<or> b = 32"
  using word_sep_cases by (induction ws arbitrary: n) auto

lemma goods_armor_chars:
  "goods Base62StdEncoding (armor_chars plaintext) = goods Base62StdEncoding (encode_spec Base62StdEncoding plaintext)"
proof -
  let ?c = "encode_spec Base62StdEncoding plaintext"
  have "goods Base62StdEncoding ?c = goods Base62StdEncoding (concat (full_blocks 15 ?c) @ last_block 15 ?c)"
    by (simp only: concat_full_blocks)
  then show ?thesis by (simp add: armor_chars_def armor_body_def render_chars(1) Let_def)
qed

lemma armor_chars_valid: "b \<in> set (armor_chars plaintext) \<Longrightarrow> IsValidByte Base62StdEncoding b"
proof -
  let ?c = "encode_spec Base62StdEncoding plaintext"
  assume "b \<in> set (armor_chars plaintext)"
  then have "b \<in> set (concat (full_blocks 15 ?c) @ last_block 15 ?c) \<or> b = 10 \<or> b = 32"
    using word_sep_cases render_chars(2) [of b Armor62Params 0 "full_blocks 15 ?c"]
    by (auto simp: armor_chars_def armor_body_def Let_def split: if_splits)
  then show ?thesis
    using encode_spec_valid [of Base62StdEncoding b plaintext] valid_separators
    by (auto simp only: concat_full_blocks Base62_wf)
qed

text \<open>Writing.\<close>

lemma Armor62_writes:
  "\<exists>s. NewArmor62EncoderStream buffer_Write d typ brand = Inr s \<and>
     (\<exists>s'. writes_close (armorEncoderStream_Write buffer_Write) (armorEncoderStream_Close buffer_Write) ps s =
        Ret None s' \<and> aeEncoded s' = d @ armored typ brand (concat ps))"
proof -
  let ?h = "makeFrame headerMarker typ brand" and ?f = "makeFrame footerMarker typ brand"
  from buffer_sink.newArmorEncoderStream_ok [OF Armor62Params_ok refl, of d ?h ?f] obtain s where
    s: "newArmorEncoderStream buffer_Write d ?h ?f Armor62Params = Inr s"
      "buffer_sink.armoring Armor62Params ?f (d @ armor_open Armor62Params ?h) s []" by blast
  from buffer_sink.armor_writes_ok [OF Armor62Params_ok s(2), of ps] obtain s1 where
    s1: "writes (armorEncoderStream_Write buffer_Write) ps s = Ret None s1"
      "buffer_sink.armoring Armor62Params ?f (d @ armor_open Armor62Params ?h) s1 (concat ps)" by auto
  from buffer_sink.armor_Close_ok [OF Armor62Params_ok s1(2)] obtain s2 where
    "armorEncoderStream_Close buffer_Write s1 = Ret None s2"
    "aeEncoded s2 = d @ armored typ brand (concat ps)"
    by (auto simp: armored_def armor_text_def Let_def)
  with s s1 show ?thesis by (simp add: NewArmor62EncoderStream_def Let_def writes_close_def)
qed

lemma Armor62Seal_text: "Armor62Seal plaintext typ brand = Ok (armored typ brand plaintext)"
proof -
  from Armor62_writes [of "[]" "typ" brand "[plaintext]"] obtain s s' where
    "NewArmor62EncoderStream buffer_Write [] typ brand = Inr s"
    "writes_close (armorEncoderStream_Write buffer_Write) (armorEncoderStream_Close buffer_Write) [plaintext] s =
       Ret None s'" "aeEncoded s' = armored typ brand plaintext" by auto
  then show ?thesis
    by (auto simp: Armor62Seal_def armorSeal_def NewArmor62EncoderStream_def Let_def writes_close_def
        split: go.splits option.splits)
qed

section \<open>Reading it back\<close>

lemma trim_space: "trim_prefixes utf8_spaces (32 # s) = trim_prefixes utf8_spaces s"
proof -
  have "find (\<lambda>w. w \<noteq> [] \<and> take (length w) (32 # s) = w) utf8_spaces = Some [32]"
    by (simp add: utf8_spaces_def)
  then show ?thesis by (subst trim_prefixes.simps) simp
qed

lemma TrimSpace_space: "TrimSpace (32 # s) = TrimSpace s"
  by (simp add: TrimSpace_def trim_space)

definition brand_ok :: "bytes \<Rightarrow> bool" where
  "brand_ok brand \<longleftrightarrow> set brand \<subseteq> set base62EncodeStd \<and> length brand \<le> maxBrandLength"

lemma brand_ok_solid: "brand_ok brand \<Longrightarrow> solid brand"
  by (auto simp: brand_ok_def solid_def frame_space_def base62_bytes)

lemma frame_chars_valid: "frame_chars b \<Longrightarrow> IsValidByte Base62StdEncoding b \<and> b \<noteq> 46"
proof -
  assume b: "frame_chars b"
  have "b \<in> set base62EncodeStd" if "65 \<le> b" "b \<le> 90"
  proof -
    have "unat b \<in> {65..90}" using that by (simp add: word_le_nat_alt)
    then have "unat b \<in> set [65..<91]" by (simp only: set_upt) auto
    then have mem: "word_of_nat (unat b) \<in> set (map word_of_nat [65..<91] :: bytes)"
      unfolding set_map by (rule imageI)
    have "set (map word_of_nat [65..<91]) \<subseteq> set base62EncodeStd" by (simp add: base62_bytes upt_rec)
    from subsetD [OF this mem] show ?thesis by simp
  qed
  with b show ?thesis by (auto simp: frame_chars_def IsValidByte_Base62 base62_bytes)
qed

lemma frame_valid:
  assumes "framed_type typ" "hof = headerMarker \<or> hof = footerMarker" "brand_ok brand"
  shows "isValidByteSequence Armor62Params (makeFrame hof typ brand)" "46 \<notin> set (makeFrame hof typ brand)"
proof -
  have "IsValidByte Base62StdEncoding b \<and> b \<noteq> 46" if "b \<in> set (makeFrame hof typ brand)" for b
    using makeFrame_chars [OF assms(1,2) that] frame_chars_valid assms(3)
    by (auto simp: brand_ok_def IsValidByte_Base62 base62_bytes)
  then show "isValidByteSequence Armor62Params (makeFrame hof typ brand)" "46 \<notin> set (makeFrame hof typ brand)"
    by (auto simp: isValidByteSequence_def list_all_iff)
qed

text \<open>Checkers that accept the frame: none, or the ones for the type.\<close>

definition checkers :: "MessageType \<Rightarrow> HeaderChecker option \<Rightarrow> FrameChecker option \<Rightarrow> bool" where
  "checkers typ hc fc \<longleftrightarrow> (hc = None \<or> hc = Some (armor62HeaderChecker typ)) \<and>
     (fc = None \<or> fc = Some (armor62FrameChecker typ))"

definition read_brand :: "HeaderChecker option \<Rightarrow> bytes \<Rightarrow> bytes" where
  "read_brand hc brand = (if hc = None then [] else brand)"

lemma armor62_framed:
  assumes "plain_source rd R Z" "framed_type typ" "brand_ok brand" "checkers typ hc fc"
  shows "framed_source rd R Z Armor62Params hc fc (makeFrame headerMarker typ brand)
    ([32] @ makeFrame footerMarker typ brand) (read_brand hc brand)"
proof -
  let ?h = "makeFrame headerMarker typ brand" and ?f = "makeFrame footerMarker typ brand"
  have solid: "solid brand" "length brand \<le> maxBrandLength"
    using assms(3) brand_ok_solid by (auto simp: brand_ok_def)
  have valid: "isValidByteSequence Armor62Params ?h" "isValidByteSequence Armor62Params ([32] @ ?f)"
    using frame_valid [OF assms(2) _ assms(3)] valid_separators by (simp_all add: isValidByteSequence_def)
  have trims: "TrimSpace ?h = ?h" "TrimSpace ([32] @ ?f) = ?f"
    using makeFrame_ends [OF assms(2) _ solid(1)] by (simp_all add: TrimSpace_space)
  have len: "length ?h < 8192" "length ([32] @ ?f) < 8192"
    using length_makeFrame [OF assms(2) _ solid(2), of headerMarker]
      length_makeFrame [OF assms(2) _ solid(2), of footerMarker] by simp_all
  show ?thesis
  proof (rule framed_source.intro [OF assms(1)], unfold_locales)
    show "header_passes Armor62Params hc ?h (read_brand hc brand)"
      using assms(4) valid trims parseFrame_makeFrame [OF assms(2) _ solid(1,2), of headerMarker]
      by (auto simp: header_passes_def checkers_def armor62HeaderChecker_def read_brand_def)
    show "frame_passes Armor62Params fc ?h ([32] @ ?f)"
      using assms(4) valid trims CheckArmor62_made [OF assms(2) solid(1,2)]
      by (auto simp: frame_passes_def checkers_def armor62FrameChecker_def)
  qed (use len frame_valid(2) [OF assms(2) _ assms(3)] in simp_all)
qed

lemma armored_decodes:
  assumes "plain_source rd R Z" and typ': "framed_type typ" and brand: "brand_ok brand"
    and ch: "checkers typ hc fc" and r: "R r (armored typ brand plaintext) EOF"
  defines "F \<equiv> framed_source.framed R Armor62Params hc fc (makeFrame headerMarker typ brand)
      ([32] @ makeFrame footerMarker typ brand) (read_brand hc brand)"
    and "Ov \<equiv> framed_source.framed_over R Armor62Params hc fc (makeFrame headerMarker typ brand)
      ([32] @ makeFrame footerMarker typ brand) (read_brand hc brand)"
  shows "source.decoded F Ov (NewArmor62DecoderStream r hc fc) plaintext EOF"
proof -
  note fs = armor62_framed [OF assms(1) typ' brand ch]
  have "framed_source.trailer Armor62Params [10]"
    using valid_separators by (simp add: framed_source.trailer_def [OF fs] isValidByteSequence_def)
  moreover have "isValidByteSequence Armor62Params (armor_chars plaintext)" "46 \<notin> set (armor_chars plaintext)"
    using armor_chars_valid valid_separators(3) by (auto simp: isValidByteSequence_def list_all_iff)
  moreover have "decode_spec Base62StdEncoding (goods Base62StdEncoding (armor_chars plaintext)) = (plaintext, None)"
    by (simp add: goods_armor_chars decode_spec_encode_spec)
  ultimately show ?thesis
    unfolding NewArmor62DecoderStream_def F_def Ov_def
    using framed_source.newArmorDecoderStream_framed [OF fs, of r "armor_chars plaintext" "[10]" plaintext]
      r [unfolded armored_parts]
    by simp
qed

text \<open>The decoder on the text, as a source of the plaintext, and its frame when it is done.\<close>

lemma armored_source:
  assumes "framed_type typ" "brand_ok brand" "checkers typ hc fc"
  obtains G V where "source (armorRead input_Read) G V"
    "G (NewArmor62DecoderStream (bytes_input (armored typ brand plaintext)) hc fc) plaintext EOF"
    "\<forall>d e. V d e \<longrightarrow> fdState (decoderFrame d) = fdsEndOfStream \<and> fdParams (decoderFrame d) = Armor62Params \<and>
       fdHeader (decoderFrame d) = makeFrame headerMarker typ brand \<and>
       fdFooter (decoderFrame d) = [32] @ makeFrame footerMarker typ brand \<and>
       frameBrand (decoderFrame d) = read_brand hc brand"
proof -
  note fs = armor62_framed [OF input_plain.plain_source_axioms assms]
  show thesis
  proof (rule that)
    show "source (armorRead input_Read)
        (source.decoded
          (framed_source.framed input_holds Armor62Params hc fc (makeFrame headerMarker typ brand)
            ([32] @ makeFrame footerMarker typ brand) (read_brand hc brand))
          (framed_source.framed_over input_holds Armor62Params hc fc (makeFrame headerMarker typ brand)
            ([32] @ makeFrame footerMarker typ brand) (read_brand hc brand)))
        (source.decoder_over
          (framed_source.framed input_holds Armor62Params hc fc (makeFrame headerMarker typ brand)
            ([32] @ makeFrame footerMarker typ brand) (read_brand hc brand))
          (framed_source.framed_over input_holds Armor62Params hc fc (makeFrame headerMarker typ brand)
            ([32] @ makeFrame footerMarker typ brand) (read_brand hc brand)))"
      by (rule framed_source.dearmored_source [OF fs])
  next
    show "source.decoded
          (framed_source.framed input_holds Armor62Params hc fc (makeFrame headerMarker typ brand)
            ([32] @ makeFrame footerMarker typ brand) (read_brand hc brand))
          (framed_source.framed_over input_holds Armor62Params hc fc (makeFrame headerMarker typ brand)
            ([32] @ makeFrame footerMarker typ brand) (read_brand hc brand))
        (NewArmor62DecoderStream (bytes_input (armored typ brand plaintext)) hc fc) plaintext EOF"
      by (rule armored_decodes [OF input_plain.plain_source_axioms assms input_holds_bytes])
  qed (intro allI impI conjI; rule framed_source.decoder_over_frame [OF fs], assumption+)
qed

lemma armored_readAll:
  assumes "framed_type typ" "brand_ok brand" "checkers typ hc fc" "\<forall>c. c < grow c"
  shows "Armor62OpenWithValidation grow (armored typ brand plaintext) hc fc =
    Some (Ok (plaintext, read_brand hc brand, makeFrame headerMarker typ brand, makeFrame footerMarker typ brand))"
proof -
  let ?h = "makeFrame headerMarker typ brand" and ?f = "makeFrame footerMarker typ brand"
  obtain G V where src: "source (armorRead input_Read) G V"
    and G: "G (NewArmor62DecoderStream (bytes_input (armored typ brand plaintext)) hc fc) plaintext EOF"
    and V: "\<forall>d e. V d e \<longrightarrow> fdState (decoderFrame d) = fdsEndOfStream \<and>
       fdParams (decoderFrame d) = Armor62Params \<and> fdHeader (decoderFrame d) = ?h \<and>
       fdFooter (decoderFrame d) = [32] @ ?f \<and> frameBrand (decoderFrame d) = read_brand hc brand"
    by (rule armored_source [OF assms(1-3), where plaintext = plaintext])
  from source.readAll_source [OF src G assms(4)] obtain d where
    d: "readAll grow (armorRead input_Read)
        (NewArmor62DecoderStream (bytes_input (armored typ brand plaintext)) hc fc) =
      Some (Ret (plaintext, None) d)" "V d EOF"
    by auto
  have "toASCII Armor62Params ?h = (?h, None)" "toASCII Armor62Params ([32] @ ?f) = (?f, None)"
    using frame_valid [OF assms(1) _ assms(2)] makeFrame_ends [OF assms(1) _ brand_ok_solid [OF assms(2)]]
      valid_separators(1)
    by (simp_all add: toASCII_def TrimSpace_space) (simp_all add: isValidByteSequence_def)
  then show ?thesis
    using d(1) V [rule_format, OF d(2)] by (simp add: Armor62OpenWithValidation_def armorOpen_def NewArmor62DecoderStream_def
        GetHeader_def GetFooter_def GetBrand_def)
qed

text \<open>What another decoder sees through the armor.\<close>

lemma armored_drain:
  assumes "framed_type typ" "brand_ok brand" "checkers typ hc fc" "\<forall>i. 0 < sz i"
  obtains d where "drain (armorRead input_Read) sz
      (NewArmor62DecoderStream (bytes_input (armored typ brand plaintext)) hc fc) =
        Some (Ret (bytes_input plaintext) d)"
    "frameBrand (decoderFrame d) = read_brand hc brand" "fdState (decoderFrame d) = fdsEndOfStream"
proof -
  obtain G V where src: "source (armorRead input_Read) G V"
    and G: "G (NewArmor62DecoderStream (bytes_input (armored typ brand plaintext)) hc fc) plaintext EOF"
    and V: "\<forall>d e. V d e \<longrightarrow> fdState (decoderFrame d) = fdsEndOfStream \<and>
       fdParams (decoderFrame d) = Armor62Params \<and> fdHeader (decoderFrame d) = makeFrame headerMarker typ brand \<and>
       fdFooter (decoderFrame d) = [32] @ makeFrame footerMarker typ brand \<and>
       frameBrand (decoderFrame d) = read_brand hc brand"
    by (rule armored_source [OF assms(1-3), where plaintext = plaintext])
  from source.drain_source [OF src G assms(4)] obtain d where
    d: "drain (armorRead input_Read) sz
        (NewArmor62DecoderStream (bytes_input (armored typ brand plaintext)) hc fc) =
      Some (Ret (bytes_input plaintext) d)" "V d EOF"
    by (auto simp: bytes_input_def)
  show thesis
    by (rule that [OF d(1)]) (simp_all add: V [rule_format, OF d(2)])
qed

section \<open>Properties\<close>

text \<open>
  C27: whatever the calls of \<open>Write\<close>, the stream writes the header, the characters of the
  base-62 encoding of the whole input in words of 15 and lines of 200 words, and the footer, and it
  writes what \<open>Armor62Seal\<close> returns for the concatenated input.
\<close>

theorem Armor62_stream_text:
  "\<exists>s s'. NewArmor62EncoderStream buffer_Write d typ brand = Inr s \<and>
     writes_close (armorEncoderStream_Write buffer_Write) (armorEncoderStream_Close buffer_Write) ps s = Ret None s' \<and>
     aeEncoded s' = d @ armor_text Armor62Params (makeFrame headerMarker typ brand)
       (makeFrame footerMarker typ brand) (concat ps) \<and>
     Armor62Seal (concat ps) typ brand = Ok (drop (length d) (aeEncoded s'))"
  using Armor62_writes [of d "typ" brand ps] Armor62Seal_text [of "concat ps" "typ" brand]
  by (auto simp: armored_def)

text \<open>
  C25: opening a sealed message returns the plaintext, the header and the footer, and with the
  header checker of its type the brand, for every plaintext, every type that has a frame, every
  alphanumeric brand of at most 128 characters and any growth of the buffer of \<open>io.ReadAll\<close>.
\<close>

theorem Armor62Open_Armor62Seal:
  assumes "framed_type typ" "set brand \<subseteq> set base62EncodeStd" "length brand \<le> maxBrandLength"
    and "\<forall>c. c < grow c"
  shows "\<exists>msg. Armor62Seal plaintext typ brand = Ok msg \<and>
    Armor62OpenWithValidation grow msg (Some (armor62HeaderChecker typ)) (Some (armor62FrameChecker typ)) =
      Some (Ok (plaintext, brand, MakeArmorHeader typ brand, MakeArmorFooter typ brand)) \<and>
    Armor62Open grow msg =
      Some (Ok (plaintext, MakeArmorHeader typ brand, MakeArmorFooter typ brand))"
  using armored_readAll [of "typ" brand "Some (armor62HeaderChecker typ)" "Some (armor62FrameChecker typ)" grow plaintext]
    armored_readAll [of "typ" brand None None grow plaintext] assms
  by (simp add: Armor62Seal_text checkers_def brand_ok_def read_brand_def Armor62Open_def
      MakeArmorHeader_def MakeArmorFooter_def)

theorem Armor62Open_Armor62Seal_witness:
  "\<exists>msg. Armor62Seal [1, 2, 3] MessageTypeEncryption (ascii ''KEYBASE'') = Ok msg \<and>
    Armor62OpenWithValidation Suc msg (Some (armor62HeaderChecker MessageTypeEncryption))
      (Some (armor62FrameChecker MessageTypeEncryption)) =
      Some (Ok ([1, 2, 3], ascii ''KEYBASE'', MakeArmorHeader MessageTypeEncryption (ascii ''KEYBASE''),
        MakeArmorFooter MessageTypeEncryption (ascii ''KEYBASE''))) \<and>
    Armor62Open Suc msg =
      Some (Ok ([1, 2, 3], MakeArmorHeader MessageTypeEncryption (ascii ''KEYBASE''),
        MakeArmorFooter MessageTypeEncryption (ascii ''KEYBASE'')))"
  by (rule Armor62Open_Armor62Seal)
    (simp_all add: framed_type_def base62_bytes ascii_def maxBrandLength_def)

text \<open>
  C26: opening any text at all, with any checkers, ends and does not panic: neither the reader of
  the frame nor the decoder runs for ever or indexes out of range.
\<close>

theorem Armor62Open_total:
  assumes grow: "\<forall>c. c < grow c"
  shows "\<exists>r. Armor62OpenWithValidation grow msg hc fc = Some r \<and> r \<noteq> Panicked"
proof -
  let ?d = "newArmorDecoderStream (bytes_input msg) Armor62Params hc fc"
  have "finite_source.decoder_I (plain_finite.framed_I (\<lambda>_. True)) ?d"
    by (rule input_plain_finite.newArmorDecoderStream_I) simp_all
  from finite_source.readAll_ends [OF input_plain_finite.armorRead_finite this grow]
  obtain p e d where "readAll grow (armorRead input_Read) ?d = Some (Ret (p, e) d)" by blast
  then show ?thesis
    by (cases e) (auto simp: Armor62OpenWithValidation_def armorOpen_def split: prod.splits option.splits)
qed

theorem Armor62Open_total_witness:
  "\<exists>r. Armor62OpenWithValidation Suc (ascii ''BEGIN SALTPACK. 0'') None None = Some r \<and> r \<noteq> Panicked"
  by (rule Armor62Open_total) simp

text \<open>
  C29: a reader may return its last bytes together with the end of the stream, as the contract of
  \<open>io.Reader\<close> allows. The punctuated reader hands such bytes on without looking for punctuation
  in them, and its caller discards them: if the first read of the source returns a whole message
  with \<open>io.EOF\<close>, the dearmored stream fails with \<open>io.ErrUnexpectedEOF\<close> whatever the message.
\<close>

theorem data_with_EOF_is_lost:
  assumes "rd 4096 r = ((bs, Some EOF), r')" "0 < n"
  shows "\<exists>d. armorRead rd n (NewArmor62DecoderStream r hc fc) = Some (Ret ([], Some ErrUnexpectedEOF) d)"
proof -
  let ?p = "newPunctuatedReader r 46"
  have "punctuatedReader_Read rd 4096 ?p = ((bs, Some EOF), ?p\<lparr>prR := r'\<rparr>)"
    using assms by (simp add: punctuatedReader_Read_def newPunctuatedReader_def)
  then have "ReadUntilPunctuation rd 8192 ?p = (Inl ErrUnexpectedEOF, ?p\<lparr>prR := r'\<rparr>)"
    by (simp add: ReadUntilPunctuation_def ReadUntilPunctuation_loop.simps punctuatedBufSize_def)
  then show ?thesis
    by (simp add: armorRead_def decoder_Read_def NewArmor62DecoderStream_def newArmorDecoderStream_def
        NewDecoder_def decoder_fill.simps filtering_Read.simps framedDecoderStream_Read_def loadHeader_def)
qed

theorem data_with_EOF_is_lost_witness:
  "\<exists>d. armorRead (\<lambda>n r. ((armored MessageTypeEncryption [] [1, 2, 3], Some EOF), r)) 512
     (NewArmor62DecoderStream () None None) = Some (Ret ([], Some ErrUnexpectedEOF) d)"
  by (rule data_with_EOF_is_lost) simp_all

end
