(* ===== verification/Encoder_Sim.thy ===== *)
theory Encoder_Sim
  imports Sign Encrypt Signcrypt_Seal
begin

text \<open>
  The signing, encryption and signcryption streams write to any destination through their
  encoder. If one encoder simulates another (same errors, related destinations), every operation
  of a stream over the one simulates the operation over the other. With it what is known of the
  streams that write to a buffer carries over to the streams that write to an armor.
\<close>

section \<open>The contract of an encoder\<close>

locale encoder_sim =
  fixes enc :: "'a encoder" and enc' :: "'b encoder" and D :: "'a \<Rightarrow> 'b \<Rightarrow> bool"
  assumes enc_sim: "D w w' \<Longrightarrow> \<exists>e v v'. enc p w = (e, v) \<and> enc' p w' = (e, v') \<and> D v v'"
begin

lemma enc_step:
  assumes "D w w'"
  obtains e v v' where "enc p w = (e, v)" "enc' p w' = (e, v')" "D v v'"
  using enc_sim [OF assms] by blast

lemma enc_both: "D w w' \<Longrightarrow> enc p w = (e, v) \<Longrightarrow> enc' p w' = (e', v') \<Longrightarrow> e' = e \<and> D v v'"
  using enc_sim [of w w' p] by auto

end

text \<open>Related results of a method: the same value and related states, or both panic.\<close>

abbreviation sim_go :: "('s \<Rightarrow> 't \<Rightarrow> bool) \<Rightarrow> ('r, 's) go \<Rightarrow> ('r, 't) go \<Rightarrow> bool" where
  "sim_go S \<equiv> rel_go (=) S"

text \<open>Related results of a constructor, with the destination in the case of an error.\<close>

abbreviation sim_new :: "('a \<Rightarrow> 'b \<Rightarrow> bool) \<Rightarrow> ('s \<Rightarrow> 't \<Rightarrow> bool) \<Rightarrow> err \<times> 'a + 's \<Rightarrow> err \<times> 'b + 't \<Rightarrow> bool" where
  "sim_new D S \<equiv> rel_sum (rel_prod (=) D) S"

lemma sim_go_cases:
  assumes "sim_go S g g'"
  obtains (panic) "g = Panic" "g' = Panic"
    | (ret) r s t where "g = Ret r s" "g' = Ret r t" "S s t"
  using assms by (cases g; cases g') auto

text \<open>
  The loop of \<open>Write\<close> takes blocks while the buffer holds more than one: if a block simulates a
  block, the loop simulates the loop.
\<close>

lemma block_loop_sim:
  assumes loop: "\<And>s. loop s = (if length (buf s) > B
      then (case block s of Panic \<Rightarrow> Panic | Ret (Some e) s' \<Rightarrow> Ret (Some e) s' | Ret None s' \<Rightarrow> loop s')
      else Ret None s)"
    and loop': "\<And>t. loop' t = (if length (buf' t) > B
      then (case block' t of Panic \<Rightarrow> Panic | Ret (Some e) t' \<Rightarrow> Ret (Some e) t' | Ret None t' \<Rightarrow> loop' t')
      else Ret None t)"
    and block: "\<And>s t. S s t \<Longrightarrow> sim_go S (block s) (block' t)"
    and drops: "\<And>s r s'. block s = Ret r s' \<Longrightarrow> buf s' = drop B (buf s)"
    and buf: "\<And>s t. S s t \<Longrightarrow> buf' t = buf s" and "0 < B" "S s t"
  shows "sim_go S (loop s) (loop' t)"
  using \<open>S s t\<close>
proof (induction "length (buf s)" arbitrary: s t rule: less_induct)
  case less
  show ?case
  proof (cases "length (buf s) > B")
    case True
    from block [OF less.prems] show ?thesis
    proof (cases rule: sim_go_cases)
      case (ret r s1 t1)
      have "length (buf s1) < length (buf s)" using drops [OF ret(1)] True \<open>0 < B\<close> by simp
      from less.hyps [OF this ret(3)] show ?thesis
        using ret True buf [OF less.prems] by (subst loop, subst loop') (simp split: option.split)
    qed (use True buf [OF less.prems] in \<open>subst loop, subst loop', simp\<close>)
  qed (use less.prems buf [OF less.prems] in \<open>subst loop, subst loop', simp\<close>)
qed

text \<open>What \<open>Write\<close> makes of its loop, and \<open>Close\<close> of a block after which the buffer must be empty.\<close>

lemma write_sim:
  assumes "\<And>s t. S s t \<Longrightarrow> sim_go S (loop s) (loop' t)" and "S s t"
  shows "sim_go S
    (case loop s of Panic \<Rightarrow> Panic | Ret (Some e) s' \<Rightarrow> Ret (0, Some e) s' | Ret None s' \<Rightarrow> Ret (n, None) s')
    (case loop' t of Panic \<Rightarrow> Panic | Ret (Some e) s' \<Rightarrow> Ret (0, Some e) s' | Ret None s' \<Rightarrow> Ret (n, None) s')"
  using assms(1) [OF assms(2)] by (cases rule: sim_go_cases) (auto split: option.split)

lemma flush_sim:
  assumes "sim_go S g g'" "\<And>s t. S s t \<Longrightarrow> buf' t = buf s" "\<And>s t. S s t \<Longrightarrow> sim_go S (k s) (k' t)"
  shows "sim_go S
    (case g of Panic \<Rightarrow> Panic | Ret (Some e) s' \<Rightarrow> Ret (Some e) s'
      | Ret None s' \<Rightarrow> if length (buf s') > 0 then Panic else k s')
    (case g' of Panic \<Rightarrow> Panic | Ret (Some e) s' \<Rightarrow> Ret (Some e) s'
      | Ret None s' \<Rightarrow> if length (buf' s') > 0 then Panic else k' s')"
  using assms(1) by (cases rule: sim_go_cases) (auto simp: assms(2,3) split: option.split)

section \<open>The three streams\<close>

definition sa_sim :: "('a \<Rightarrow> 'b \<Rightarrow> bool) \<Rightarrow> 'a signAttachedStream \<Rightarrow> 'b signAttachedStream \<Rightarrow> bool" where
  "sa_sim D s t \<longleftrightarrow> saVersion t = saVersion s \<and> saHeaderHash t = saHeaderHash s \<and>
     saBuffer t = saBuffer s \<and> saSeqno t = saSeqno s \<and> saSecretKey t = saSecretKey s \<and>
     D (saEncoder s) (saEncoder t)"

definition sd_sim :: "('a \<Rightarrow> 'b \<Rightarrow> bool) \<Rightarrow> 'a signDetachedStream \<Rightarrow> 'b signDetachedStream \<Rightarrow> bool" where
  "sd_sim D s t \<longleftrightarrow> sdSecretKey t = sdSecretKey s \<and> sdHasher t = sdHasher s \<and> D (sdEncoder s) (sdEncoder t)"

definition es_sim :: "('a \<Rightarrow> 'b \<Rightarrow> bool) \<Rightarrow> 'a encryptStream \<Rightarrow> 'b encryptStream \<Rightarrow> bool" where
  "es_sim D s t \<longleftrightarrow> esVersion t = esVersion s \<and> esPayloadKey t = esPayloadKey s \<and>
     esBuffer t = esBuffer s \<and> esHeaderHash t = esHeaderHash s \<and> esMacKeys t = esMacKeys s \<and>
     esNumBlocks t = esNumBlocks s \<and> esErr t = esErr s \<and> D (esEncoder s) (esEncoder t)"

definition ss_sim :: "('a \<Rightarrow> 'b \<Rightarrow> bool) \<Rightarrow> 'a signcryptSealStream \<Rightarrow> 'b signcryptSealStream \<Rightarrow> bool" where
  "ss_sim D s t \<longleftrightarrow> ssVersion t = ssVersion s \<and> ssEncryptionKey t = ssEncryptionKey s \<and>
     ssSigningKey t = ssSigningKey s \<and> ssBuffer t = ssBuffer s \<and> ssHeaderHash t = ssHeaderHash s \<and>
     ssNumBlocks t = ssNumBlocks s \<and> ssErr t = ssErr s \<and> D (ssEncoder s) (ssEncoder t)"

text \<open>The packet of a chunk does not depend on the destination.\<close>

lemma packet_sim:
  "sa_sim D s t \<Longrightarrow> computeSig t = computeSig s"
  "es_sim D s' t' \<Longrightarrow> encrypt_packet E t' = encrypt_packet E s'"
  "ss_sim D s'' t'' \<Longrightarrow> signcrypt_packet E t'' = signcrypt_packet E s''"
  by (auto simp: sa_sim_def es_sim_def ss_sim_def computeSig_def encrypt_packet_def signcrypt_packet_def
      Let_def intro!: ext)

lemma sim_buffer:
  "sa_sim D s t \<Longrightarrow> sa_sim D (s\<lparr>saBuffer := x\<rparr>) (t\<lparr>saBuffer := x\<rparr>)"
  "es_sim D s' t' \<Longrightarrow> es_sim D (s'\<lparr>esBuffer := x\<rparr>) (t'\<lparr>esBuffer := x\<rparr>)"
  "ss_sim D s'' t'' \<Longrightarrow> ss_sim D (s''\<lparr>ssBuffer := x\<rparr>) (t''\<lparr>ssBuffer := x\<rparr>)"
  by (simp_all add: sa_sim_def es_sim_def ss_sim_def)

context encoder_sim
begin

subsection \<open>Attached signatures\<close>

lemma signBlock_sim:
  assumes "sa_sim D s t"
  shows "sim_go (sa_sim D) (signBlock enc f s) (signBlock enc' f t)"
proof -
  let ?s = "s\<lparr>saBuffer := drop signatureBlockSize (saBuffer s)\<rparr>"
    and ?t = "t\<lparr>saBuffer := drop signatureBlockSize (saBuffer s)\<rparr>"
  have sig: "computeSig ?t = computeSig ?s" by (rule packet_sim(1) [OF sim_buffer(1) [OF assms]])
  with assms show ?thesis
    by (auto simp: signBlock_def Let_def sa_sim_def split: outcome.split option.split prod.split dest: enc_both)
qed

lemma signAttachedStream_loop_sim:
  "sa_sim D s t \<Longrightarrow> sim_go (sa_sim D) (signAttachedStream_loop enc s) (signAttachedStream_loop enc' t)"
  by (rule block_loop_sim [OF signAttachedStream_loop.simps signAttachedStream_loop.simps
        signBlock_sim signBlock_buffer])
    (simp_all add: sa_sim_def)

lemma signAttachedStream_Write_sim:
  "sa_sim D s t \<Longrightarrow> sim_go (sa_sim D) (signAttachedStream_Write enc p s) (signAttachedStream_Write enc' p t)"
  unfolding signAttachedStream_Write_def
  by (rule write_sim [OF signAttachedStream_loop_sim]) (simp add: sa_sim_def)

lemma signAttachedStream_Close_sim:
  assumes "sa_sim D s t"
  shows "sim_go (sa_sim D) (signAttachedStream_Close enc s) (signAttachedStream_Close enc' t)"
proof -
  have eqs: "saVersion t = saVersion s" "saBuffer t = saBuffer s" using assms by (simp_all add: sa_sim_def)
  show ?thesis
    unfolding signAttachedStream_Close_def eqs
    using assms by (auto intro!: flush_sim signBlock_sim simp: sa_sim_def)
qed

lemma newSignAttachedStream_sim:
  assumes "D w w'"
  shows "rel_prod (sim_new D (sa_sim D)) (=) (newSignAttachedStream E enc v w signer rand)
    (newSignAttachedStream E enc' v w' signer rand)"
  using assms
  by (auto simp: newSignAttachedStream_def sa_sim_def split: option.split sum.split prod.split dest: enc_both)

subsection \<open>Detached signatures\<close>

lemma signDetachedStream_Write_sim:
  "sd_sim D s t \<Longrightarrow> sim_go (sd_sim D) (signDetachedStream_Write p s) (signDetachedStream_Write p t)"
  by (simp add: signDetachedStream_Write_def sd_sim_def)

lemma signDetachedStream_Close_sim:
  "sd_sim D s t \<Longrightarrow> sim_go (sd_sim D) (signDetachedStream_Close enc s) (signDetachedStream_Close enc' t)"
  by (auto simp: signDetachedStream_Close_def sd_sim_def split: sum.split prod.split dest: enc_both)

lemma newSignDetachedStream_sim:
  assumes "D w w'"
  shows "rel_prod (sim_new D (sd_sim D)) (=) (newSignDetachedStream E enc v w signer rand)
    (newSignDetachedStream E enc' v w' signer rand)"
  using assms
  by (auto simp: newSignDetachedStream_def sd_sim_def split: option.split sum.split prod.split dest: enc_both)

subsection \<open>Encryption\<close>

lemma encryptBlock_sim:
  assumes "es_sim D s t"
  shows "sim_go (es_sim D) (encryptBlock E enc f s) (encryptBlock E enc' f t)"
proof -
  let ?s = "s\<lparr>esBuffer := drop encryptionBlockSize (esBuffer s)\<rparr>"
    and ?t = "t\<lparr>esBuffer := drop encryptionBlockSize (esBuffer s)\<rparr>"
  have "encrypt_packet E ?t = encrypt_packet E ?s" by (rule packet_sim(2) [OF sim_buffer(2) [OF assms]])
  with assms show ?thesis
    by (auto simp: encryptBlock_def Let_def es_sim_def split: outcome.split option.split prod.split dest: enc_both)
qed

lemma encryptBlock_err_sim:
  assumes "es_sim D s t"
  shows "sim_go (es_sim D) (encryptBlock_err E enc f s) (encryptBlock_err E enc' f t)"
  using encryptBlock_sim [OF assms, of E f]
  by (cases rule: sim_go_cases) (simp_all add: encryptBlock_err_def es_sim_def)

lemma encryptStream_loop_sim:
  "es_sim D s t \<Longrightarrow> sim_go (es_sim D) (encryptStream_loop E enc s) (encryptStream_loop E enc' t)"
  by (rule block_loop_sim [OF encryptStream_loop.simps encryptStream_loop.simps
        encryptBlock_err_sim encryptBlock_err_buffer])
    (simp_all add: es_sim_def)

lemma encryptStream_Write_sim:
  assumes "es_sim D s t"
  shows "sim_go (es_sim D) (encryptStream_Write E enc p s) (encryptStream_Write E enc' p t)"
proof (cases "esErr s")
  case None
  with assms have "esErr t = None" by (simp add: es_sim_def)
  with None assms show ?thesis
    by (auto simp: encryptStream_Write_def es_sim_def intro!: write_sim encryptStream_loop_sim)
qed (use assms in \<open>simp add: encryptStream_Write_def es_sim_def\<close>)

lemma encryptStream_Close_sim:
  assumes "es_sim D s t"
  shows "sim_go (es_sim D) (encryptStream_Close E enc s) (encryptStream_Close E enc' t)"
proof -
  have eqs: "esVersion t = esVersion s" "esBuffer t = esBuffer s" using assms by (simp_all add: es_sim_def)
  show ?thesis
    unfolding encryptStream_Close_def eqs
    using assms by (auto intro!: flush_sim encryptBlock_sim simp: es_sim_def)
qed

lemma encrypt_start_sim:
  assumes "D w w'"
  shows "rel_outcome (rel_prod (=) D) (es_sim D) (encrypt_start E enc v w sender ephemeralKey payloadKey rs)
    (encrypt_start E enc' v w' sender ephemeralKey payloadKey rs)"
  using assms
  by (auto simp: encrypt_start_def es_sim_def split: outcome.split option.split sum.split prod.split dest: enc_both)

lemma newEncryptStream_sim:
  assumes "D w w'"
  shows "rel_go (sim_new D (es_sim D)) (=) (newEncryptStream E enc v w sender rs create rng r)
    (newEncryptStream E enc' v w' sender rs create rng r)"
proof -
  have "rel_go (sim_new D (es_sim D)) (=)
      (case encrypt_start E enc v w x y k rs' of Panicked \<Rightarrow> Panic | Err e \<Rightarrow> Ret (Inl e) r' | Ok s \<Rightarrow> Ret (Inr s) r')
      (case encrypt_start E enc' v w' x y k rs' of Panicked \<Rightarrow> Panic | Err e \<Rightarrow> Ret (Inl e) r' | Ok s \<Rightarrow> Ret (Inr s) r')"
    for x y k rs' and r' :: 'c
    using encrypt_start_sim [OF assms, of E v x y k rs']
    by (cases "encrypt_start E enc v w x y k rs'"; cases "encrypt_start E enc' v w' x y k rs'") auto
  then show ?thesis
    using assms by (simp add: newEncryptStream_def encryptStream_init_def split: option.split go.split sum.split prod.split)
qed

subsection \<open>Signcryption\<close>

lemma signcryptBlock_sim:
  assumes "ss_sim D s t"
  shows "sim_go (ss_sim D) (signcryptBlock E enc f s) (signcryptBlock E enc' f t)"
proof -
  let ?s = "s\<lparr>ssBuffer := drop encryptionBlockSize (ssBuffer s)\<rparr>"
    and ?t = "t\<lparr>ssBuffer := drop encryptionBlockSize (ssBuffer s)\<rparr>"
  have "signcrypt_packet E ?t = signcrypt_packet E ?s" by (rule packet_sim(3) [OF sim_buffer(3) [OF assms]])
  with assms show ?thesis
    by (auto simp: signcryptBlock_def Let_def ss_sim_def split: outcome.split option.split prod.split dest: enc_both)
qed

lemma signcryptBlock_err_sim:
  assumes "ss_sim D s t"
  shows "sim_go (ss_sim D) (signcryptBlock_err E enc f s) (signcryptBlock_err E enc' f t)"
  using signcryptBlock_sim [OF assms, of E f]
  by (cases rule: sim_go_cases) (simp_all add: signcryptBlock_err_def ss_sim_def)

lemma signcryptSealStream_loop_sim:
  "ss_sim D s t \<Longrightarrow> sim_go (ss_sim D) (signcryptSealStream_loop E enc s) (signcryptSealStream_loop E enc' t)"
  by (rule block_loop_sim [OF signcryptSealStream_loop.simps signcryptSealStream_loop.simps
        signcryptBlock_err_sim signcryptBlock_err_buffer])
    (simp_all add: ss_sim_def)

lemma signcryptSealStream_Write_sim:
  assumes "ss_sim D s t"
  shows "sim_go (ss_sim D) (signcryptSealStream_Write E enc p s) (signcryptSealStream_Write E enc' p t)"
proof (cases "ssErr s")
  case None
  with assms have "ssErr t = None" by (simp add: ss_sim_def)
  with None assms show ?thesis
    by (auto simp: signcryptSealStream_Write_def ss_sim_def intro!: write_sim signcryptSealStream_loop_sim)
qed (use assms in \<open>simp add: signcryptSealStream_Write_def ss_sim_def\<close>)

lemma signcryptSealStream_Close_sim:
  "ss_sim D s t \<Longrightarrow> sim_go (ss_sim D) (signcryptSealStream_Close E enc s) (signcryptSealStream_Close E enc' t)"
  unfolding signcryptSealStream_Close_def
  by (rule flush_sim [OF signcryptBlock_sim]) (simp_all add: ss_sim_def)

lemma signcrypt_start_sim:
  assumes "D w w'"
  shows "rel_outcome (rel_prod (=) D) (ss_sim D) (signcrypt_start E enc w sender ephemeralKey k rs)
    (signcrypt_start E enc' w' sender ephemeralKey k rs)"
  using assms
  by (auto simp: signcrypt_start_def ss_sim_def split: outcome.split option.split sum.split prod.split dest: enc_both)

lemma newSigncryptSealStream_sim:
  assumes "D w w'"
  shows "rel_go (sim_new D (ss_sim D)) (=) (newSigncryptSealStream E enc w sender bs sy create rng r)
    (newSigncryptSealStream E enc' w' sender bs sy create rng r)"
proof -
  have "rel_go (sim_new D (ss_sim D)) (=)
      (case signcrypt_start E enc w x y k rs of Panicked \<Rightarrow> Panic | Err e \<Rightarrow> Ret (Inl e) r' | Ok s \<Rightarrow> Ret (Inr s) r')
      (case signcrypt_start E enc' w' x y k rs of Panicked \<Rightarrow> Panic | Err e \<Rightarrow> Ret (Inl e) r' | Ok s \<Rightarrow> Ret (Inr s) r')"
    for x y k rs and r' :: 'c
    using signcrypt_start_sim [OF assms, of E x y k rs]
    by (cases "signcrypt_start E enc w x y k rs"; cases "signcrypt_start E enc' w' x y k rs") auto
  then show ?thesis
    using assms by (simp add: newSigncryptSealStream_def signcryptSealStream_init_def split: outcome.split go.split sum.split prod.split)
qed

end

end
