(* ===== verification/Armor62_Seal.thy ===== *)
theory Armor62_Seal
  imports Armor62 Encoder_Sim
begin

text \<open>
  The writing halves of \<open>armor62_sign.go\<close>, \<open>armor62_encrypt.go\<close> and \<open>armor62_signcrypt.go\<close>: a
  stream whose encoder writes to an armor stream, which writes to the caller's destination. The
  theory shows that each function that seals a whole message returns the armor of what its binary
  counterpart returns, whatever the keys and the randomness, errors and panics included.
\<close>

section \<open>The encoder over a stream\<close>

text \<open>
  The MessagePack encoder writes the encoding of a packet in pieces, which are not specified:
  \<open>sizes bs\<close> gives the lengths of all but the last.
\<close>

fun cut_into :: "nat list \<Rightarrow> bytes \<Rightarrow> bytes list" where
  "cut_into [] bs = [bs]"
| "cut_into (n # ns) bs = take n bs # cut_into ns (drop n bs)"

lemma concat_cut_into [simp]: "concat (cut_into ns bs) = bs"
  by (induction ns bs rule: cut_into.induct) simp_all

text \<open>
  The destination of the encoder is the stream, or \<open>None\<close> after a panic of the stream; then the
  method of \<open>closeForwarder\<close> that is running panics.
\<close>

definition stream_encoder :: "env \<Rightarrow> (bytes \<Rightarrow> nat list) \<Rightarrow> 's stream_write \<Rightarrow> 's option encoder" where
  "stream_encoder E sizes wr p d =
     (case d of
        None \<Rightarrow> (None, None)
      | Some s \<Rightarrow>
          (case marshal E p of
             Inl e \<Rightarrow> (Some e, d)
           | Inr bs \<Rightarrow>
               (case writes wr (cut_into (sizes bs) bs) s of
                  Panic \<Rightarrow> (None, None)
                | Ret e s' \<Rightarrow> (e, Some s'))))"

abbreviation armor_encoder ::
  "env \<Rightarrow> (bytes \<Rightarrow> nat list) \<Rightarrow> 'w writer \<Rightarrow> 'w armorEncoderStream option encoder" where
  "armor_encoder E sizes wr \<equiv> stream_encoder E sizes (armorEncoderStream_Write wr)"

section \<open>closeForwarder\<close>

text \<open>
  The first of the two streams holds the second as its destination; \<open>dest\<close> and \<open>upd\<close> read and
  replace it.
\<close>

definition closeForwarder_Write ::
  "'s stream_write \<Rightarrow> ('s \<Rightarrow> 'd option) \<Rightarrow> 's stream_write" where
  "closeForwarder_Write wr dest b s =
     (case wr b s of
        Panic \<Rightarrow> Panic
      | Ret r s' \<Rightarrow> if dest s' = None then Panic else Ret r s')"

definition closeForwarder_Close ::
  "('s \<Rightarrow> (err option, 's) go) \<Rightarrow> ('d \<Rightarrow> (err option, 'd) go) \<Rightarrow> ('s \<Rightarrow> 'd option) \<Rightarrow>
   ('d option \<Rightarrow> 's \<Rightarrow> 's) \<Rightarrow> 's \<Rightarrow> (err option, 's) go" where
  "closeForwarder_Close close close2 dest upd s =
     (case close s of
        Panic \<Rightarrow> Panic
      | Ret e s' \<Rightarrow>
          (case dest s' of
             None \<Rightarrow> Panic
           | Some d \<Rightarrow>
               if e \<noteq> None then Ret e s'
               else (case close2 d of
                       Panic \<Rightarrow> Panic
                     | Ret e' d' \<Rightarrow> Ret e' (upd (Some d') s'))))"

text \<open>The bytes in the caller's buffer behind an armor stream.\<close>

definition armor_buffer :: "bytes armorEncoderStream option \<Rightarrow> bytes" where
  "armor_buffer d = (case d of None \<Rightarrow> [] | Some a \<Rightarrow> aeEncoded a)"

section \<open>Signatures\<close>

text \<open>A constructor that fails returns the destination as it was left, none after a panic.\<close>

definition NewSignArmor62Stream ::
  "env \<Rightarrow> (bytes \<Rightarrow> nat list) \<Rightarrow> 'w writer \<Rightarrow> version \<Rightarrow> 'w \<Rightarrow> SigningSecretKey option \<Rightarrow> bytes \<Rightarrow> input \<Rightarrow>
     (err \<times> 'w option + 'w armorEncoderStream option signAttachedStream) \<times> input" where
  "NewSignArmor62Stream E sizes wr v signedtext signer brand rand =
     (case NewArmor62EncoderStream wr signedtext MessageTypeAttachedSignature brand of
        Inl (e, w) \<Rightarrow> (Inl (e, Some w), rand)
      | Inr enc \<Rightarrow>
          (case newSignAttachedStream E (armor_encoder E sizes wr) v (Some enc) signer rand of
             (Inl (e, d), rand') \<Rightarrow> (Inl (e, map_option aeEncoded d), rand')
           | (Inr out, rand') \<Rightarrow> (Inr out, rand')))"

definition SignArmor62 ::
  "env \<Rightarrow> (bytes \<Rightarrow> nat list) \<Rightarrow> version \<Rightarrow> bytes \<Rightarrow> SigningSecretKey option \<Rightarrow> bytes \<Rightarrow> input \<Rightarrow>
     bytes result \<times> input" where
  "SignArmor62 E sizes v plaintext signer brand rand =
     (let enc = armor_encoder E sizes buffer_Write
      in signToStream (\<lambda>v w signer. NewSignArmor62Stream E sizes buffer_Write v w signer brand)
           (closeForwarder_Write (signAttachedStream_Write enc) saEncoder)
           (closeForwarder_Close (signAttachedStream_Close enc) (armorEncoderStream_Close buffer_Write)
              saEncoder (\<lambda>d. saEncoder_update (\<lambda>_. d)))
           (armor_buffer \<circ> saEncoder) v plaintext signer rand)"

definition NewSignDetachedArmor62Stream ::
  "env \<Rightarrow> (bytes \<Rightarrow> nat list) \<Rightarrow> 'w writer \<Rightarrow> version \<Rightarrow> 'w \<Rightarrow> SigningSecretKey option \<Rightarrow> bytes \<Rightarrow> input \<Rightarrow>
     (err \<times> 'w option + 'w armorEncoderStream option signDetachedStream) \<times> input" where
  "NewSignDetachedArmor62Stream E sizes wr v detachedsig signer brand rand =
     (case NewArmor62EncoderStream wr detachedsig MessageTypeDetachedSignature brand of
        Inl (e, w) \<Rightarrow> (Inl (e, Some w), rand)
      | Inr enc \<Rightarrow>
          (case newSignDetachedStream E (armor_encoder E sizes wr) v (Some enc) signer rand of
             (Inl (e, d), rand') \<Rightarrow> (Inl (e, map_option aeEncoded d), rand')
           | (Inr out, rand') \<Rightarrow> (Inr out, rand')))"

definition SignDetachedArmor62 ::
  "env \<Rightarrow> (bytes \<Rightarrow> nat list) \<Rightarrow> version \<Rightarrow> bytes \<Rightarrow> SigningSecretKey option \<Rightarrow> bytes \<Rightarrow> input \<Rightarrow>
     bytes result \<times> input" where
  "SignDetachedArmor62 E sizes v plaintext signer brand rand =
     (let enc = armor_encoder E sizes buffer_Write
      in signToStream (\<lambda>v w signer. NewSignDetachedArmor62Stream E sizes buffer_Write v w signer brand)
           (closeForwarder_Write signDetachedStream_Write sdEncoder)
           (closeForwarder_Close (signDetachedStream_Close enc) (armorEncoderStream_Close buffer_Write)
              sdEncoder (\<lambda>d. sdEncoder_update (\<lambda>_. d)))
           (armor_buffer \<circ> sdEncoder) v plaintext signer rand)"

section \<open>Encryption and signcryption\<close>

definition newEncryptArmor62Stream ::
  "env \<Rightarrow> (bytes \<Rightarrow> nat list) \<Rightarrow> 'w writer \<Rightarrow> version \<Rightarrow> 'w \<Rightarrow> BoxSecretKey option \<Rightarrow> BoxPublicKey list \<Rightarrow>
     'r EphemeralKeyCreator \<Rightarrow> 'r encryptRNG \<Rightarrow> bytes \<Rightarrow> 'r \<Rightarrow>
     (err \<times> 'w option + 'w armorEncoderStream option encryptStream, 'r) go" where
  "newEncryptArmor62Stream E sizes wr v ciphertext sender receivers ephemeralKeyCreator rng brand r =
     (case NewArmor62EncoderStream wr ciphertext MessageTypeEncryption brand of
        Inl (e, w) \<Rightarrow> Ret (Inl (e, Some w)) r
      | Inr enc \<Rightarrow>
          (case newEncryptStream E (armor_encoder E sizes wr) v (Some enc) sender receivers
                  ephemeralKeyCreator rng r of
             Panic \<Rightarrow> Panic
           | Ret (Inl (e, d)) r' \<Rightarrow> Ret (Inl (e, map_option aeEncoded d)) r'
           | Ret (Inr out) r' \<Rightarrow> Ret (Inr out) r'))"

definition NewEncryptArmor62Stream ::
  "env \<Rightarrow> (bytes \<Rightarrow> nat list) \<Rightarrow> 'w writer \<Rightarrow> (BoxPublicKey \<Rightarrow> input EphemeralKeyCreator) \<Rightarrow> version \<Rightarrow> 'w \<Rightarrow>
     BoxSecretKey option \<Rightarrow> BoxPublicKey list \<Rightarrow> bytes \<Rightarrow> input \<Rightarrow>
     (err \<times> 'w option + 'w armorEncoderStream option encryptStream, input) go" where
  "NewEncryptArmor62Stream E sizes wr create v ciphertext sender receivers brand rand =
     (case receiversToEphemeralKeyCreator create receivers of
        Inl e \<Rightarrow> Ret (Inl (e, Some ciphertext)) rand
      | Inr ephemeralKeyCreator \<Rightarrow>
          newEncryptArmor62Stream E sizes wr v ciphertext sender receivers ephemeralKeyCreator
            defaultEncryptRNG brand rand)"

definition encryptArmor62Seal ::
  "env \<Rightarrow> (bytes \<Rightarrow> nat list) \<Rightarrow> version \<Rightarrow> bytes \<Rightarrow> BoxSecretKey option \<Rightarrow> BoxPublicKey list \<Rightarrow>
     'r EphemeralKeyCreator \<Rightarrow> 'r encryptRNG \<Rightarrow> bytes \<Rightarrow> 'r \<Rightarrow> bytes result" where
  "encryptArmor62Seal E sizes v plaintext sender receivers ephemeralKeyCreator rng brand r =
     (let enc = armor_encoder E sizes buffer_Write
      in case newEncryptArmor62Stream E sizes buffer_Write v [] sender receivers ephemeralKeyCreator
                rng brand r of
           Panic \<Rightarrow> Panicked
         | Ret (Inl (e, _)) _ \<Rightarrow> Err e
         | Ret (Inr s) _ \<Rightarrow>
             (case closeForwarder_Write (encryptStream_Write E enc) esEncoder plaintext s of
                Panic \<Rightarrow> Panicked
              | Ret (_, Some e) _ \<Rightarrow> Err e
              | Ret (_, None) s' \<Rightarrow>
                  (case closeForwarder_Close (encryptStream_Close E enc)
                          (armorEncoderStream_Close buffer_Write) esEncoder
                          (\<lambda>d. esEncoder_update (\<lambda>_. d)) s' of
                     Panic \<Rightarrow> Panicked
                   | Ret (Some e) _ \<Rightarrow> Err e
                   | Ret None s'' \<Rightarrow> Ok (armor_buffer (esEncoder s'')))))"

definition EncryptArmor62Seal ::
  "env \<Rightarrow> (bytes \<Rightarrow> nat list) \<Rightarrow> (BoxPublicKey \<Rightarrow> input EphemeralKeyCreator) \<Rightarrow> version \<Rightarrow> bytes \<Rightarrow>
     BoxSecretKey option \<Rightarrow> BoxPublicKey list \<Rightarrow> bytes \<Rightarrow> input \<Rightarrow> bytes result" where
  "EncryptArmor62Seal E sizes create v plaintext sender receivers brand rand =
     (case receiversToEphemeralKeyCreator create receivers of
        Inl e \<Rightarrow> Err e
      | Inr creator \<Rightarrow>
          encryptArmor62Seal E sizes v plaintext sender receivers creator defaultEncryptRNG brand rand)"

text \<open>Signcryption has the frame of encryption.\<close>

definition newSigncryptArmor62SealStream ::
  "env \<Rightarrow> (bytes \<Rightarrow> nat list) \<Rightarrow> 'w writer \<Rightarrow> 'w \<Rightarrow> SigningSecretKey option \<Rightarrow> BoxPublicKey list \<Rightarrow>
     ReceiverSymmetricKey list \<Rightarrow> 'r EphemeralKeyCreator \<Rightarrow> 'r signcryptRNG \<Rightarrow> bytes \<Rightarrow> 'r \<Rightarrow>
     (err \<times> 'w option + 'w armorEncoderStream option signcryptSealStream, 'r) go" where
  "newSigncryptArmor62SealStream E sizes wr ciphertext sender boxKeys symmetricKeys
       ephemeralKeyCreator rng brand r =
     (case NewArmor62EncoderStream wr ciphertext MessageTypeEncryption brand of
        Inl (e, w) \<Rightarrow> Ret (Inl (e, Some w)) r
      | Inr enc \<Rightarrow>
          (case newSigncryptSealStream E (armor_encoder E sizes wr) (Some enc) sender boxKeys
                  symmetricKeys ephemeralKeyCreator rng r of
             Panic \<Rightarrow> Panic
           | Ret (Inl (e, d)) r' \<Rightarrow> Ret (Inl (e, map_option aeEncoded d)) r'
           | Ret (Inr out) r' \<Rightarrow> Ret (Inr out) r'))"

definition NewSigncryptArmor62SealStream ::
  "env \<Rightarrow> (bytes \<Rightarrow> nat list) \<Rightarrow> 'w writer \<Rightarrow> 'w \<Rightarrow> input EphemeralKeyCreator \<Rightarrow> SigningSecretKey option \<Rightarrow>
     BoxPublicKey list \<Rightarrow> ReceiverSymmetricKey list \<Rightarrow> bytes \<Rightarrow> input \<Rightarrow>
     (err \<times> 'w option + 'w armorEncoderStream option signcryptSealStream, input) go" where
  "NewSigncryptArmor62SealStream E sizes wr ciphertext ephemeralKeyCreator sender boxKeys symmetricKeys
       brand rand =
     newSigncryptArmor62SealStream E sizes wr ciphertext sender boxKeys symmetricKeys
       ephemeralKeyCreator defaultSigncryptRNG brand rand"

definition signcryptArmor62Seal ::
  "env \<Rightarrow> (bytes \<Rightarrow> nat list) \<Rightarrow> bytes \<Rightarrow> SigningSecretKey option \<Rightarrow> BoxPublicKey list \<Rightarrow>
     ReceiverSymmetricKey list \<Rightarrow> 'r EphemeralKeyCreator \<Rightarrow> 'r signcryptRNG \<Rightarrow> bytes \<Rightarrow> 'r \<Rightarrow> bytes result" where
  "signcryptArmor62Seal E sizes plaintext sender boxKeys symmetricKeys ephemeralKeyCreator rng brand r =
     (let enc = armor_encoder E sizes buffer_Write
      in case newSigncryptArmor62SealStream E sizes buffer_Write [] sender boxKeys symmetricKeys
                ephemeralKeyCreator rng brand r of
           Panic \<Rightarrow> Panicked
         | Ret (Inl (e, _)) _ \<Rightarrow> Err e
         | Ret (Inr s) _ \<Rightarrow>
             (case closeForwarder_Write (signcryptSealStream_Write E enc) ssEncoder plaintext s of
                Panic \<Rightarrow> Panicked
              | Ret (_, Some e) _ \<Rightarrow> Err e
              | Ret (_, None) s' \<Rightarrow>
                  (case closeForwarder_Close (signcryptSealStream_Close E enc)
                          (armorEncoderStream_Close buffer_Write) ssEncoder
                          (\<lambda>d. ssEncoder_update (\<lambda>_. d)) s' of
                     Panic \<Rightarrow> Panicked
                   | Ret (Some e) _ \<Rightarrow> Err e
                   | Ret None s'' \<Rightarrow> Ok (armor_buffer (ssEncoder s'')))))"

definition SigncryptArmor62Seal ::
  "env \<Rightarrow> (bytes \<Rightarrow> nat list) \<Rightarrow> bytes \<Rightarrow> input EphemeralKeyCreator \<Rightarrow> SigningSecretKey option \<Rightarrow>
     BoxPublicKey list \<Rightarrow> ReceiverSymmetricKey list \<Rightarrow> bytes \<Rightarrow> input \<Rightarrow> bytes result" where
  "SigncryptArmor62Seal E sizes plaintext ephemeralKeyCreator sender boxKeys symmetricKeys brand rand =
     signcryptArmor62Seal E sizes plaintext sender boxKeys symmetricKeys ephemeralKeyCreator
       defaultSigncryptRNG brand rand"

section \<open>The armor as a destination\<close>

text \<open>
  Over the armor stream of a buffer the encoder simulates the one over a buffer: the stream has
  been given what the buffer holds.
\<close>

definition in_armor :: "MessageType \<Rightarrow> bytes \<Rightarrow> bytes \<Rightarrow> bytes armorEncoderStream option \<Rightarrow> bool" where
  "in_armor typ brand d a \<longleftrightarrow> (\<exists>s. a = Some s \<and>
     buffer_sink.armoring Armor62Params (makeFrame footerMarker typ brand)
       (armor_open Armor62Params (makeFrame headerMarker typ brand)) s d)"

interpretation armor_sim: encoder_sim "newEncoder E" "armor_encoder E sizes buffer_Write" "in_armor typ brand"
  for E sizes "typ" brand
proof
  fix w w' p
  assume "in_armor typ brand w w'"
  then obtain s where s: "w' = Some s"
    "buffer_sink.armoring Armor62Params (makeFrame footerMarker typ brand)
       (armor_open Armor62Params (makeFrame headerMarker typ brand)) s w"
    by (auto simp: in_armor_def)
  show "\<exists>e v v'. newEncoder E p w = (e, v) \<and> armor_encoder E sizes buffer_Write p w' = (e, v') \<and>
      in_armor typ brand v v'"
  proof (cases "marshal E p")
    case (Inr bs)
    from buffer_sink.armor_writes_ok [OF Armor62Params_ok s(2), of "cut_into (sizes bs) bs"] Inr s(1)
    show ?thesis by (auto simp: newEncoder_def stream_encoder_def in_armor_def)
  qed (use s in \<open>auto simp: newEncoder_def stream_encoder_def in_armor_def\<close>)
qed

lemma new_in_armor:
  obtains s where "NewArmor62EncoderStream buffer_Write [] typ brand = Inr s" "in_armor typ brand [] (Some s)"
  using buffer_sink.newArmorEncoderStream_ok [OF Armor62Params_ok refl,
      of "[]" "makeFrame headerMarker typ brand" "makeFrame footerMarker typ brand"]
  by (auto simp: NewArmor62EncoderStream_def Let_def in_armor_def)

lemma close_in_armor:
  assumes "in_armor typ brand m a"
  obtains s s' where "a = Some s" "armorEncoderStream_Close buffer_Write s = Ret None s'"
    "aeEncoded s' = armored typ brand m"
proof -
  from assms obtain s where s: "a = Some s"
    "buffer_sink.armoring Armor62Params (makeFrame footerMarker typ brand)
       (armor_open Armor62Params (makeFrame headerMarker typ brand)) s m" by (auto simp: in_armor_def)
  from buffer_sink.armor_Close_ok [OF Armor62Params_ok s(2)] s(1) show thesis
    by (auto simp: armored_def armor_text_def Let_def intro: that)
qed

text \<open>What the functions that seal a whole message do after the stream is made.\<close>

definition finish ::
  "(nat \<times> err option, 's) go \<Rightarrow> ('s \<Rightarrow> (err option, 's) go) \<Rightarrow> ('s \<Rightarrow> bytes) \<Rightarrow> bytes result" where
  "finish written close out =
     (case written of
        Panic \<Rightarrow> Panicked
      | Ret (_, Some e) _ \<Rightarrow> Err e
      | Ret (_, None) s \<Rightarrow>
          (case close s of
             Panic \<Rightarrow> Panicked
           | Ret (Some e) _ \<Rightarrow> Err e
           | Ret None s' \<Rightarrow> Ok (out s')))"

lemma signToStream_finish:
  "signToStream streamer wr close out v p signer rand =
     (case streamer v [] signer rand of
        (Inl (e, _), rand') \<Rightarrow> (Err e, rand')
      | (Inr s, rand') \<Rightarrow> (finish (wr p s) close out, rand'))"
  by (simp add: signToStream_def finish_def split: prod.split sum.split go.split option.split)

text \<open>The binary stream \<open>s\<close> and the stream \<open>t\<close> over the armor are written to once and closed.\<close>

lemma finish_in_armor:
  assumes wr: "sim_go S (wr p s) (wr' p t)"
    and close: "\<And>s t. S s t \<Longrightarrow> sim_go S (close s) (close' t)"
    and dest: "\<And>s t. S s t \<Longrightarrow> in_armor typ brand (out s) (dest t)"
    and upd: "\<And>d t. dest (upd d t) = d"
  shows "finish (closeForwarder_Write wr' dest p t)
      (closeForwarder_Close close' (armorEncoderStream_Close buffer_Write) dest upd) (armor_buffer \<circ> dest) =
    bind_out (finish (wr p s) close out) (\<lambda>m. Armor62Seal m typ brand)"
  using wr
proof (cases rule: sim_go_cases)
  case (ret r s1 t1)
  obtain n e where r: "r = (n, e)" by force
  from dest [OF ret(3)] have d1: "dest t1 \<noteq> None" by (auto simp: in_armor_def)
  show ?thesis
  proof (cases e)
    case None
    from close [OF ret(3)] show ?thesis
    proof (cases rule: sim_go_cases)
      case (ret e' s2 t2)
      from dest [OF ret(3)] obtain a a' where "dest t2 = Some a"
        "armorEncoderStream_Close buffer_Write a = Ret None a'" "aeEncoded a' = armored typ brand (out s2)"
        by (rule close_in_armor)
      with ret d1 r None \<open>wr p s = _\<close> \<open>wr' p t = _\<close> show ?thesis
        by (cases e') (simp_all add: finish_def closeForwarder_Write_def closeForwarder_Close_def
            armor_buffer_def upd Armor62Seal_text)
    qed (use ret d1 r None in \<open>simp add: finish_def closeForwarder_Write_def closeForwarder_Close_def\<close>)
  qed (use ret d1 r in \<open>simp add: finish_def closeForwarder_Write_def\<close>)
qed (simp add: finish_def closeForwarder_Write_def)

section \<open>Sealing is armoring the binary message\<close>

lemma SignArmor62_armor:
  "SignArmor62 E sizes v plaintext signer brand rand =
     map_prod (\<lambda>m. bind_out m (\<lambda>m. Armor62Seal m MessageTypeAttachedSignature brand)) id
       (Sign E v plaintext signer rand)"
proof -
  let ?t = MessageTypeAttachedSignature and ?enc = "armor_encoder E sizes buffer_Write"
  obtain a where a: "NewArmor62EncoderStream buffer_Write [] ?t brand = Inr a" "in_armor ?t brand [] (Some a)"
    by (rule new_in_armor)
  have fin: "finish (closeForwarder_Write (signAttachedStream_Write ?enc) saEncoder plaintext t)
      (closeForwarder_Close (signAttachedStream_Close ?enc) (armorEncoderStream_Close buffer_Write)
        saEncoder (\<lambda>d. saEncoder_update (\<lambda>_. d))) (armor_buffer \<circ> saEncoder) =
      bind_out (finish (signAttachedStream_Write (newEncoder E) plaintext s)
        (signAttachedStream_Close (newEncoder E)) saEncoder) (\<lambda>m. Armor62Seal m ?t brand)"
    if "sa_sim (in_armor ?t brand) s t" for s t
    by (rule finish_in_armor [where S = "sa_sim (in_armor ?t brand)"])
      (simp_all add: armor_sim.signAttachedStream_Write_sim that armor_sim.signAttachedStream_Close_sim,
        simp add: sa_sim_def)
  from armor_sim.newSignAttachedStream_sim [OF a(2), where E = E and Ea = E and v = v and signer = signer
      and rand = rand and sizes = sizes] fin
  show ?thesis
    by (cases "newSignAttachedStream E (newEncoder E) v [] signer rand";
        cases "newSignAttachedStream E ?enc v (Some a) signer rand";
        cases "fst (newSignAttachedStream E (newEncoder E) v [] signer rand)";
        cases "fst (newSignAttachedStream E ?enc v (Some a) signer rand)")
      (auto simp: SignArmor62_def Sign_def signToStream_finish NewSignArmor62Stream_def Let_def a(1))
qed

lemma SignDetachedArmor62_armor:
  "SignDetachedArmor62 E sizes v plaintext signer brand rand =
     map_prod (\<lambda>m. bind_out m (\<lambda>m. Armor62Seal m MessageTypeDetachedSignature brand)) id
       (SignDetached E v plaintext signer rand)"
proof -
  let ?t = MessageTypeDetachedSignature and ?enc = "armor_encoder E sizes buffer_Write"
  obtain a where a: "NewArmor62EncoderStream buffer_Write [] ?t brand = Inr a" "in_armor ?t brand [] (Some a)"
    by (rule new_in_armor)
  have fin: "finish (closeForwarder_Write signDetachedStream_Write sdEncoder plaintext t)
      (closeForwarder_Close (signDetachedStream_Close ?enc) (armorEncoderStream_Close buffer_Write)
        sdEncoder (\<lambda>d. sdEncoder_update (\<lambda>_. d))) (armor_buffer \<circ> sdEncoder) =
      bind_out (finish (signDetachedStream_Write plaintext s)
        (signDetachedStream_Close (newEncoder E)) sdEncoder) (\<lambda>m. Armor62Seal m ?t brand)"
    if "sd_sim (in_armor ?t brand) s t" for s t
    by (rule finish_in_armor [where S = "sd_sim (in_armor ?t brand)"])
      (simp_all add: armor_sim.signDetachedStream_Write_sim that armor_sim.signDetachedStream_Close_sim,
        simp add: sd_sim_def)
  from armor_sim.newSignDetachedStream_sim [OF a(2), where E = E and Ea = E and v = v and signer = signer
      and rand = rand and sizes = sizes] fin
  show ?thesis
    by (cases "newSignDetachedStream E (newEncoder E) v [] signer rand";
        cases "newSignDetachedStream E ?enc v (Some a) signer rand";
        cases "fst (newSignDetachedStream E (newEncoder E) v [] signer rand)";
        cases "fst (newSignDetachedStream E ?enc v (Some a) signer rand)")
      (auto simp: SignDetachedArmor62_def SignDetached_def signToStream_finish
        NewSignDetachedArmor62Stream_def Let_def a(1))
qed

lemma seal_finish:
  "seal E v p sender rs create rng r =
     (case newEncryptStream E (newEncoder E) v [] sender rs create rng r of
        Panic \<Rightarrow> Panicked
      | Ret (Inl (e, _)) _ \<Rightarrow> Err e
      | Ret (Inr s) _ \<Rightarrow> finish (encryptStream_Write E (newEncoder E) p s) (encryptStream_Close E (newEncoder E)) esEncoder)"
  by (simp add: seal_def finish_def split: prod.split sum.split go.split option.split)

lemma encryptArmor62Seal_armor:
  "encryptArmor62Seal E sizes v plaintext sender rs create rng brand r =
     bind_out (seal E v plaintext sender rs create rng r) (\<lambda>m. Armor62Seal m MessageTypeEncryption brand)"
proof -
  let ?t = MessageTypeEncryption and ?enc = "armor_encoder E sizes buffer_Write"
  obtain a where a: "NewArmor62EncoderStream buffer_Write [] ?t brand = Inr a" "in_armor ?t brand [] (Some a)"
    by (rule new_in_armor)
  have fin: "finish (closeForwarder_Write (encryptStream_Write E ?enc) esEncoder plaintext t)
      (closeForwarder_Close (encryptStream_Close E ?enc) (armorEncoderStream_Close buffer_Write)
        esEncoder (\<lambda>d. esEncoder_update (\<lambda>_. d))) (armor_buffer \<circ> esEncoder) =
      bind_out (finish (encryptStream_Write E (newEncoder E) plaintext s)
        (encryptStream_Close E (newEncoder E)) esEncoder) (\<lambda>m. Armor62Seal m ?t brand)"
    if "es_sim (in_armor ?t brand) s t" for s t
    by (rule finish_in_armor [where S = "es_sim (in_armor ?t brand)"])
      (simp_all add: armor_sim.encryptStream_Write_sim that armor_sim.encryptStream_Close_sim,
        simp add: es_sim_def)
  have "encryptArmor62Seal E sizes v plaintext sender rs create rng brand r =
     (case newEncryptArmor62Stream E sizes buffer_Write v [] sender rs create rng brand r of
        Panic \<Rightarrow> Panicked
      | Ret (Inl (e, _)) _ \<Rightarrow> Err e
      | Ret (Inr s) _ \<Rightarrow> finish (closeForwarder_Write (encryptStream_Write E ?enc) esEncoder plaintext s)
          (closeForwarder_Close (encryptStream_Close E ?enc) (armorEncoderStream_Close buffer_Write)
            esEncoder (\<lambda>d. esEncoder_update (\<lambda>_. d))) (armor_buffer \<circ> esEncoder))"
    by (simp add: encryptArmor62Seal_def Let_def finish_def split: prod.split sum.split go.split option.split)
  with armor_sim.newEncryptStream_sim [OF a(2), where E = E and Ea = E and v = v and sender = sender
      and rs = rs and create = create and rng = rng and r = r and sizes = sizes] fin
  show ?thesis
    by (cases rule: go.rel_cases)
      (auto simp: seal_finish newEncryptArmor62Stream_def a(1) elim!: rel_sum.cases)
qed

lemma EncryptArmor62Seal_armor:
  "EncryptArmor62Seal E sizes create v plaintext sender rs brand rand =
     bind_out (Seal E create v plaintext sender rs rand) (\<lambda>m. Armor62Seal m MessageTypeEncryption brand)"
  by (simp add: EncryptArmor62Seal_def Seal_def encryptArmor62Seal_armor split: sum.split)

lemma signcryptSeal_finish:
  "signcryptSeal E p sender bs sy create rng r =
     (case newSigncryptSealStream E (newEncoder E) [] sender bs sy create rng r of
        Panic \<Rightarrow> Panicked
      | Ret (Inl (e, _)) _ \<Rightarrow> Err e
      | Ret (Inr s) _ \<Rightarrow> finish (signcryptSealStream_Write E (newEncoder E) p s)
          (signcryptSealStream_Close E (newEncoder E)) ssEncoder)"
  by (simp add: signcryptSeal_def finish_def split: prod.split sum.split go.split option.split)

lemma SigncryptArmor62Seal_armor:
  "SigncryptArmor62Seal E sizes plaintext create sender bs sy brand r =
     bind_out (SigncryptSeal E plaintext create sender bs sy r) (\<lambda>m. Armor62Seal m MessageTypeEncryption brand)"
proof -
  let ?t = MessageTypeEncryption and ?enc = "armor_encoder E sizes buffer_Write" and ?rng = defaultSigncryptRNG
  obtain a where a: "NewArmor62EncoderStream buffer_Write [] ?t brand = Inr a" "in_armor ?t brand [] (Some a)"
    by (rule new_in_armor)
  have fin: "finish (closeForwarder_Write (signcryptSealStream_Write E ?enc) ssEncoder plaintext t)
      (closeForwarder_Close (signcryptSealStream_Close E ?enc) (armorEncoderStream_Close buffer_Write)
        ssEncoder (\<lambda>d. ssEncoder_update (\<lambda>_. d))) (armor_buffer \<circ> ssEncoder) =
      bind_out (finish (signcryptSealStream_Write E (newEncoder E) plaintext s)
        (signcryptSealStream_Close E (newEncoder E)) ssEncoder) (\<lambda>m. Armor62Seal m ?t brand)"
    if "ss_sim (in_armor ?t brand) s t" for s t
    by (rule finish_in_armor [where S = "ss_sim (in_armor ?t brand)"])
      (simp_all add: armor_sim.signcryptSealStream_Write_sim that armor_sim.signcryptSealStream_Close_sim,
        simp add: ss_sim_def)
  have "SigncryptArmor62Seal E sizes plaintext create sender bs sy brand r =
     (case newSigncryptArmor62SealStream E sizes buffer_Write [] sender bs sy create ?rng brand r of
        Panic \<Rightarrow> Panicked
      | Ret (Inl (e, _)) _ \<Rightarrow> Err e
      | Ret (Inr s) _ \<Rightarrow> finish (closeForwarder_Write (signcryptSealStream_Write E ?enc) ssEncoder plaintext s)
          (closeForwarder_Close (signcryptSealStream_Close E ?enc) (armorEncoderStream_Close buffer_Write)
            ssEncoder (\<lambda>d. ssEncoder_update (\<lambda>_. d))) (armor_buffer \<circ> ssEncoder))"
    by (simp add: SigncryptArmor62Seal_def signcryptArmor62Seal_def Let_def finish_def
        split: prod.split sum.split go.split option.split)
  with armor_sim.newSigncryptSealStream_sim [OF a(2), where E = E and Ea = E and sender = sender
      and bs = bs and sy = sy and create = create and rng = ?rng and r = r and sizes = sizes] fin
  show ?thesis
    by (cases rule: go.rel_cases)
      (auto simp: SigncryptSeal_def signcryptSeal_finish newSigncryptArmor62SealStream_def a(1) elim!: rel_sum.cases)
qed

end
