(* ===== verification/Armor62_Open.thy ===== *)
theory Armor62_Open
  imports Armor62 Verify Decrypt Signcrypt_Open
begin

text \<open>
  The reading halves of the \<open>armor62_*.go\<close> files: the armor decoder in front of the binary
  decoders. What these see of the caller's reader is the \<open>input\<close> that the dearmored stream
  delivers to a consumer that asks for \<open>sz i\<close> bytes in its \<open>i\<close>-th read; \<open>None\<close> is a run that
  does not end. The theory shows that on the armor of a binary message each function behaves as
  its binary counterpart on the message, and returns the brand.
\<close>

section \<open>Verification\<close>

definition NewDearmor62VerifyStream ::
  "env \<Rightarrow> (nat \<Rightarrow> nat) \<Rightarrow> 'r simple_reader \<Rightarrow> VersionValidator \<Rightarrow> 'r \<Rightarrow> SigKeyring \<Rightarrow>
     (SigningPublicKey \<times> verifyStream chunkReader \<times> bytes) result option" where
  "NewDearmor62VerifyStream E sz rd versionValidator r keyring =
     (let typ = MessageTypeAttachedSignature;
          dearmored = NewArmor62DecoderStream r (Some (armor62HeaderChecker typ)) (Some (armor62FrameChecker typ))
      in case drain (armorRead rd) sz dearmored of
           None \<Rightarrow> None
         | Some Panic \<Rightarrow> Some Panicked
         | Some (Ret inp d) \<Rightarrow>
             Some (case NewVerifyStream E versionValidator inp keyring of
                     Inl e \<Rightarrow> Err e
                   | Inr (skey, vs) \<Rightarrow>
                       (case fst (GetBrand rd (decoderFrame d)) of
                          (_, Some e) \<Rightarrow> Err e
                        | (brand, None) \<Rightarrow> Ok (skey, vs, brand))))"

definition Dearmor62Verify ::
  "env \<Rightarrow> (nat \<Rightarrow> nat) \<Rightarrow> (nat \<Rightarrow> nat) \<Rightarrow> VersionValidator \<Rightarrow> bytes \<Rightarrow> SigKeyring \<Rightarrow>
     (SigningPublicKey \<times> bytes \<times> bytes) result option" where
  "Dearmor62Verify E sz grow versionValidator signedMsg keyring =
     (case NewDearmor62VerifyStream E sz input_Read versionValidator (bytes_input signedMsg) keyring of
        None \<Rightarrow> None
      | Some Panicked \<Rightarrow> Some Panicked
      | Some (Err e) \<Rightarrow> Some (Err e)
      | Some (Ok (skey, stream, brand)) \<Rightarrow>
          map_option (\<lambda>r. case r of
                Panic \<Rightarrow> Panicked
              | Ret (_, Some e) _ \<Rightarrow> Err e
              | Ret (verifiedMsg, None) _ \<Rightarrow> Ok (skey, verifiedMsg, brand))
            (ReadAll grow (chunkReader_Read (verifyStream_getNextChunk E)) stream))"

text \<open>The detached functions return the brand also when the signature is wrong.\<close>

definition Dearmor62VerifyDetachedReader ::
  "env \<Rightarrow> (nat \<Rightarrow> nat) \<Rightarrow> VersionValidator \<Rightarrow> input \<Rightarrow> bytes \<Rightarrow> SigKeyring \<Rightarrow>
     (err + SigningPublicKey, bytes) go option" where
  "Dearmor62VerifyDetachedReader E grow versionValidator r signature keyring =
     (let typ = MessageTypeDetachedSignature
      in map_option (\<lambda>res. case res of
              Panicked \<Rightarrow> Panic
            | Err e \<Rightarrow> Ret (Inl e) []
            | Ok (dearmored, brand, _, _) \<Rightarrow>
                Ret (VerifyDetachedReader E versionValidator r dearmored keyring) brand)
          (Armor62OpenWithValidation grow signature (Some (armor62HeaderChecker typ))
             (Some (armor62FrameChecker typ))))"

definition Dearmor62VerifyDetached ::
  "env \<Rightarrow> (nat \<Rightarrow> nat) \<Rightarrow> VersionValidator \<Rightarrow> bytes \<Rightarrow> bytes \<Rightarrow> SigKeyring \<Rightarrow>
     (err + SigningPublicKey, bytes) go option" where
  "Dearmor62VerifyDetached E grow versionValidator message signature keyring =
     Dearmor62VerifyDetachedReader E grow versionValidator (bytes_input message) signature keyring"

section \<open>Decryption and signcryption\<close>

text \<open>
  The two streams ask for the brand first, which loads the header; the binary decoder reads on
  from there. \<open>dearmored_input\<close> is what they have in common.
\<close>

definition dearmored_input ::
  "(nat \<Rightarrow> nat) \<Rightarrow> 'r simple_reader \<Rightarrow> 'r \<Rightarrow> (bytes \<times> input) result option" where
  "dearmored_input sz rd r =
     (let typ = MessageTypeEncryption;
          dearmored = NewArmor62DecoderStream r (Some (armor62HeaderChecker typ)) (Some (armor62FrameChecker typ))
      in case GetBrand rd (decoderFrame dearmored) of
           ((_, Some e), _) \<Rightarrow> Some (Err e)
         | ((brand, None), frame) \<Rightarrow>
             (case drain (armorRead rd) sz (setDecoderFrame frame dearmored) of
                None \<Rightarrow> None
              | Some Panic \<Rightarrow> Some Panicked
              | Some (Ret inp _) \<Rightarrow> Some (Ok (brand, inp))))"

definition NewDearmor62DecryptStream ::
  "env \<Rightarrow> (nat \<Rightarrow> nat) \<Rightarrow> 'r simple_reader \<Rightarrow> VersionValidator \<Rightarrow> 'r \<Rightarrow> Keyring \<Rightarrow>
     (err + decryptStream chunkReader \<times> bytes, MessageKeyInfo option) go option" where
  "NewDearmor62DecryptStream E sz rd versionValidator ciphertext kr =
     map_option (\<lambda>res. case res of
           Panicked \<Rightarrow> Panic
         | Err e \<Rightarrow> Ret (Inl e) None
         | Ok (brand, inp) \<Rightarrow>
             (case NewDecryptStream E versionValidator inp kr of
                Panic \<Rightarrow> Panic
              | Ret (Inl e) mki \<Rightarrow> Ret (Inl e) (Some mki)
              | Ret (Inr ds) mki \<Rightarrow> Ret (Inr (ds, brand)) (Some mki)))
       (dearmored_input sz rd ciphertext)"

definition Dearmor62DecryptOpen ::
  "env \<Rightarrow> (nat \<Rightarrow> nat) \<Rightarrow> (nat \<Rightarrow> nat) \<Rightarrow> VersionValidator \<Rightarrow> bytes \<Rightarrow> Keyring \<Rightarrow>
     (err + bytes \<times> bytes, MessageKeyInfo option) go option" where
  "Dearmor62DecryptOpen E sz grow versionValidator ciphertext kr =
     (case NewDearmor62DecryptStream E sz input_Read versionValidator (bytes_input ciphertext) kr of
        None \<Rightarrow> None
      | Some Panic \<Rightarrow> Some Panic
      | Some (Ret (Inl e) mki) \<Rightarrow> Some (Ret (Inl e) mki)
      | Some (Ret (Inr (s, brand)) mki) \<Rightarrow>
          map_option (\<lambda>r. case r of
                Panic \<Rightarrow> Panic
              | Ret (_, Some e) _ \<Rightarrow> Ret (Inl e) mki
              | Ret (out, None) _ \<Rightarrow> Ret (Inr (out, brand)) mki)
            (ReadAll grow (chunkReader_Read (decryptStream_getNextChunk E)) s))"

text \<open>An error of the binary function comes with no sender.\<close>

definition NewDearmor62SigncryptOpenStream ::
  "env \<Rightarrow> (nat \<Rightarrow> nat) \<Rightarrow> 'r simple_reader \<Rightarrow> 'r \<Rightarrow> SigncryptKeyring \<Rightarrow> SymmetricKeyResolver option \<Rightarrow>
     (SigningPublicKey option \<times> signcryptOpenStream chunkReader \<times> bytes) result option" where
  "NewDearmor62SigncryptOpenStream E sz rd ciphertext keyring resolver =
     map_option (\<lambda>res. bind_out res (\<lambda>(brand, inp).
         bind_out (NewSigncryptOpenStream E inp keyring resolver) (\<lambda>(mki, r). Ok (mki, r, brand))))
       (dearmored_input sz rd ciphertext)"

definition Dearmor62SigncryptOpen ::
  "env \<Rightarrow> (nat \<Rightarrow> nat) \<Rightarrow> (nat \<Rightarrow> nat) \<Rightarrow> bytes \<Rightarrow> SigncryptKeyring \<Rightarrow> SymmetricKeyResolver option \<Rightarrow>
     (err + bytes \<times> bytes, SigningPublicKey option) go option" where
  "Dearmor62SigncryptOpen E sz grow ciphertext keyring resolver =
     (case NewDearmor62SigncryptOpenStream E sz input_Read (bytes_input ciphertext) keyring resolver of
        None \<Rightarrow> None
      | Some Panicked \<Rightarrow> Some Panic
      | Some (Err e) \<Rightarrow> Some (Ret (Inl e) None)
      | Some (Ok (mki, s, brand)) \<Rightarrow>
          map_option (\<lambda>r. case r of
                Panic \<Rightarrow> Panic
              | Ret (_, Some e) _ \<Rightarrow> Ret (Inl e) mki
              | Ret (out, None) _ \<Rightarrow> Ret (Inr (out, brand)) mki)
            (ReadAll grow (chunkReader_Read (signcrypt_getNextChunk E)) s))"

section \<open>Reading through the armor\<close>

text \<open>Loading the header before the first read changes nothing of what is read.\<close>

lemma framed_Read_loaded:
  assumes "loadHeader rd s = (None, s')" "fdState s = fdsHeader"
  shows "framedDecoderStream_Read rd n s' = framedDecoderStream_Read rd n s"
proof -
  have "fdState s' = fdsBody"
    using assms by (auto simp: loadHeader_def Let_def split: sum.splits prod.splits option.splits)
  with assms show ?thesis by (simp add: framedDecoderStream_Read_def)
qed

lemma decoder_fill_first:
  assumes "dNbuf d < baseXBlockLen (dEnc d)" "dErr d = None"
    and "\<And>n. decoderInput_Read rd n i = decoderInput_Read rd n (dR d)"
  shows "decoder_fill rd nn (d\<lparr>dR := i\<rparr>) = decoder_fill rd nn d"
  using assms
  by (subst (1 2) decoder_fill.simps) (simp split: option.split go.split)

lemma armorRead_loaded:
  assumes hdr: "loadHeader rd (decoderFrame (NewArmor62DecoderStream r hc fc)) = (None, s)"
  shows "armorRead rd n (setDecoderFrame s (NewArmor62DecoderStream r hc fc)) =
    armorRead rd n (NewArmor62DecoderStream r hc fc)"
proof -
  let ?d = "NewArmor62DecoderStream r hc fc"
  obtain f where f: "dR ?d = Filtered f" "dErr ?d = None" "dOut ?d = []" "dNbuf ?d = 0" "dEnc ?d = Base62StdEncoding"
    by (simp add: NewArmor62DecoderStream_def newArmorDecoderStream_def NewDecoder_def)
  have frame: "decoderFrame ?d = fWrapped f" using f(1) by (simp add: decoderFrame_def)
  have state: "fdState (decoderFrame ?d) = fdsHeader"
    by (simp add: NewArmor62DecoderStream_def newArmorDecoderStream_def NewDecoder_def decoderFrame_def)
  have rd: "framedDecoderStream_Read rd m s = framedDecoderStream_Read rd m (fWrapped f)" for m
    using framed_Read_loaded [OF hdr state] frame by simp
  have "filtering_Read (framedDecoderStream_Read rd) m (f\<lparr>fWrapped := s\<rparr>) =
      filtering_Read (framedDecoderStream_Read rd) m f" for m
    by (subst (1 2) filtering_Read.simps) (simp add: rd split: option.split go.split prod.split sum.split)
  then have "decoder_fill (framedDecoderStream_Read rd) m (?d\<lparr>dR := Filtered (f\<lparr>fWrapped := s\<rparr>)\<rparr>) =
      decoder_fill (framedDecoderStream_Read rd) m ?d" for m
    using f by (intro decoder_fill_first) simp_all
  then show ?thesis
    using f by (simp add: armorRead_def decoder_Read_def setDecoderFrame_def Let_def)
qed

lemma drain_first:
  assumes "\<And>n. rd n r = rd n r'"
  shows "drain rd sz r = drain rd sz r'"
  unfolding drain_def using assms by (subst (1 2) drain_loop.simps) simp

text \<open>The header of an armored message.\<close>

lemma armored_header:
  assumes typ': "framed_type typ" and brand: "brand_ok brand" and ch: "checkers typ hc fc"
  obtains s where
    "loadHeader input_Read (decoderFrame (NewArmor62DecoderStream (bytes_input (armored typ brand plaintext)) hc fc)) =
       (None, s)" "frameBrand s = read_brand hc brand"
proof -
  note fs = armor62_framed [OF input_plain.plain_source_axioms typ' brand ch]
  have "framed_source.trailer Armor62Params [10]"
    using valid_separators by (simp add: framed_source.trailer_def [OF fs] isValidByteSequence_def)
  moreover have "46 \<notin> set (armor_chars plaintext)"
    using armor_chars_valid valid_separators(3) by blast
  moreover have "input_holds (bytes_input (armored typ brand plaintext))
      (makeFrame headerMarker typ brand @ Punctuation Armor62Params # armor_chars plaintext @
       Punctuation Armor62Params # ([32] @ makeFrame footerMarker typ brand) @ Punctuation Armor62Params # [10]) EOF"
    using input_holds_bytes [of "armored typ brand plaintext"]
    by (simp only: armored_parts Armor62Params_sel)
  ultimately obtain s where "loadHeader input_Read (decoderFrame (newArmorDecoderStream
      (bytes_input (armored typ brand plaintext)) Armor62Params hc fc)) = (None, s)"
    "frameBrand s = read_brand hc brand"
    using framed_source.newArmorDecoderStream_header [OF fs] Armor62Params_sel(3) by metis
  then show thesis by (intro that [of s]) (simp_all add: NewArmor62DecoderStream_def)
qed

section \<open>Opening an armored message is opening the message\<close>

lemma typed_checkers:
  "checkers typ (Some (armor62HeaderChecker typ)) (Some (armor62FrameChecker typ))"
  "read_brand (Some (armor62HeaderChecker typ)) brand = brand"
  by (simp_all add: checkers_def read_brand_def)

lemma framed_types:
  "framed_type MessageTypeEncryption" "framed_type MessageTypeAttachedSignature"
  "framed_type MessageTypeDetachedSignature"
  by (simp_all add: framed_type_def)

lemma dearmored_input_armored:
  assumes "brand_ok brand" "\<forall>i. 0 < sz i"
  shows "dearmored_input sz input_Read (bytes_input (armored MessageTypeEncryption brand m)) =
    Some (Ok (brand, bytes_input m))"
proof -
  let ?t = MessageTypeEncryption
  let ?d = "NewArmor62DecoderStream (bytes_input (armored ?t brand m))
    (Some (armor62HeaderChecker ?t)) (Some (armor62FrameChecker ?t))"
  obtain s where s: "loadHeader input_Read (decoderFrame ?d) = (None, s)" "frameBrand s = brand"
    using armored_header [OF framed_types(1) assms(1) typed_checkers(1)] typed_checkers(2) by metis
  have "fdState (decoderFrame ?d) = fdsHeader"
    by (simp add: NewArmor62DecoderStream_def newArmorDecoderStream_def NewDecoder_def decoderFrame_def)
  then have "GetBrand input_Read (decoderFrame ?d) = ((brand, None), s)" using s by (simp add: GetBrand_def)
  moreover obtain d where "drain (armorRead input_Read) sz ?d = Some (Ret (bytes_input m) d)"
    by (rule armored_drain [OF framed_types(1) assms(1) typed_checkers(1) assms(2)])
  then have "drain (armorRead input_Read) sz (setDecoderFrame s ?d) = Some (Ret (bytes_input m) d)"
    using drain_first [of "armorRead input_Read" "setDecoderFrame s ?d" ?d sz] armorRead_loaded [OF s(1)] by simp
  ultimately show ?thesis by (simp add: dearmored_input_def Let_def)
qed

lemma Dearmor62Verify_armored:
  assumes "brand_ok brand" "\<forall>i. 0 < sz i"
  shows "Dearmor62Verify E sz grow vv (armored MessageTypeAttachedSignature brand m) keyring =
    map_option (\<lambda>r. bind_out r (\<lambda>(pk, x). Ok (pk, x, brand))) (Verify E grow vv m keyring)"
proof -
  let ?t = MessageTypeAttachedSignature
  let ?d = "NewArmor62DecoderStream (bytes_input (armored ?t brand m))
    (Some (armor62HeaderChecker ?t)) (Some (armor62FrameChecker ?t))"
  obtain d where d: "drain (armorRead input_Read) sz ?d = Some (Ret (bytes_input m) d)"
    "frameBrand (decoderFrame d) = brand" "fdState (decoderFrame d) = fdsEndOfStream"
    using armored_drain [OF framed_types(2) assms(1) typed_checkers(1) assms(2)] typed_checkers(2) by metis
  show ?thesis
    by (auto simp: Dearmor62Verify_def NewDearmor62VerifyStream_def Let_def d GetBrand_def Verify_def
        option.map_comp comp_def split: sum.split prod.split go.split option.split
        intro!: option.map_cong0)
qed

lemma Dearmor62VerifyDetached_armored:
  assumes "brand_ok brand" "\<forall>c. c < grow c"
  shows "Dearmor62VerifyDetached E grow vv message (armored MessageTypeDetachedSignature brand sig) keyring =
    Some (Ret (VerifyDetached E vv message sig keyring) brand)"
  using armored_readAll [OF framed_types(3) assms(1) typed_checkers(1) assms(2), of sig]
  by (simp add: Dearmor62VerifyDetached_def Dearmor62VerifyDetachedReader_def VerifyDetached_def Let_def
      typed_checkers(2))

text \<open>A result with what comes with it, and without what comes with an error.\<close>

fun opened :: "(err + 'a, 'k) go \<Rightarrow> ('a \<times> 'k) result" where
  "opened Panic = Panicked"
| "opened (Ret (Inl e) k) = Err e"
| "opened (Ret (Inr x) k) = Ok (x, k)"

lemma Dearmor62DecryptOpen_armored:
  assumes "brand_ok brand" "\<forall>i. 0 < sz i"
  shows "map_option opened (Dearmor62DecryptOpen E sz grow vv (armored MessageTypeEncryption brand m) ring) =
    map_option (\<lambda>g. bind_out (opened g) (\<lambda>(x, mki). Ok ((x, brand), mki))) (Open E grow vv m ring)"
  by (auto simp: Dearmor62DecryptOpen_def NewDearmor62DecryptStream_def Open_def
      dearmored_input_armored [OF assms] option.map_comp comp_def
      split: sum.split prod.split go.split option.split intro!: option.map_cong0)

lemma Dearmor62SigncryptOpen_armored:
  assumes "brand_ok brand" "\<forall>i. 0 < sz i"
  shows "map_option opened (Dearmor62SigncryptOpen E sz grow (armored MessageTypeEncryption brand m) ring resolver) =
    map_option (\<lambda>r. bind_out r (\<lambda>(spk, x). Ok ((x, brand), spk))) (SigncryptOpen E grow m ring resolver)"
  by (auto simp: Dearmor62SigncryptOpen_def NewDearmor62SigncryptOpenStream_def SigncryptOpen_def
      dearmored_input_armored [OF assms] option.map_comp comp_def
      split: sum.split prod.split go.split option.split outcome.split intro!: option.map_cong0)

end
