(* ===== verification/Armor62_Messages.thy ===== *)
theory Armor62_Messages
  imports Armor62_Seal Armor62_Open Sign_Verify Encrypt_Props Signcrypt_Props
begin

text \<open>
  Armored messages as users have them. The sealing functions are the armor of the binary ones and
  the opening functions read through it, so the round trips of signing, encryption and
  signcryption hold for armored messages, with the brand.
\<close>

text \<open>
  C30: each function that seals an armored message returns the armor of what its binary counterpart
  returns for the same keys and randomness, and fails or panics when that does, whatever the
  brand and however the codec cuts its writes.
\<close>

theorem sealing_armors_the_message:
  "SignArmor62 E sizes v plaintext signer brand rand =
     map_prod (\<lambda>r. bind_out r (\<lambda>m. Armor62Seal m MessageTypeAttachedSignature brand)) id
       (Sign E v plaintext signer rand) \<and>
   SignDetachedArmor62 E sizes v plaintext signer brand rand =
     map_prod (\<lambda>r. bind_out r (\<lambda>m. Armor62Seal m MessageTypeDetachedSignature brand)) id
       (SignDetached E v plaintext signer rand) \<and>
   EncryptArmor62Seal E sizes create v plaintext sender receivers brand rand =
     bind_out (Seal E create v plaintext sender receivers rand) (\<lambda>m. Armor62Seal m MessageTypeEncryption brand) \<and>
   SigncryptArmor62Seal E sizes plaintext ephemeralKeyCreator signer boxKeys symmetricKeys brand rand =
     bind_out (SigncryptSeal E plaintext ephemeralKeyCreator signer boxKeys symmetricKeys rand)
       (\<lambda>m. Armor62Seal m MessageTypeEncryption brand)"
  by (intro conjI SignArmor62_armor SignDetachedArmor62_armor EncryptArmor62Seal_armor SigncryptArmor62Seal_armor)

text \<open>
  C31: an armored signature verifies: \<open>Dearmor62Verify\<close> returns the signer's key, the plaintext and
  the brand of what \<open>SignArmor62\<close> returns, for any plaintext, both versions and any read sizes.
\<close>

theorem Dearmor62Verify_SignArmor62:
  assumes "codec_ok E" "signs_for sk pk" "v = Version1 \<or> v = Version2" "16 \<le> length (pending rand)"
    and "versionValidator v = None" "keyring (sigToKID pk) = Some pk"
    and "set brand \<subseteq> set base62EncodeStd" "length brand \<le> maxBrandLength"
    and "\<forall>c. c < grow c" "\<forall>i. 0 < sz i"
  shows "\<exists>msg rand'. SignArmor62 E sizes v plaintext (Some sk) brand rand = (Ok msg, rand') \<and>
    Dearmor62Verify E sz grow versionValidator msg keyring = Some (Ok (pk, plaintext, brand))"
proof -
  obtain m rand' where "Sign E v plaintext (Some sk) rand = (Ok m, rand')"
    "Verify E grow versionValidator m keyring = Some (Ok (pk, plaintext))"
    using verify_signed [where versionValidator = versionValidator and keyring = keyring,
        OF assms(1-4,9,5,6)] by blast
  then show ?thesis
    using assms(7,8,10) by (simp add: SignArmor62_armor Armor62Seal_text Dearmor62Verify_armored brand_ok_def)
qed

theorem Dearmor62Verify_SignArmor62_witness:
  "\<exists>msg rand'. SignArmor62 toy_env (\<lambda>_. [1]) Version2 [1, 2, 3] (Some (toy_sigsk [7])) (ascii ''KEYBASE'')
     (bytes_input (replicate 16 0)) = (Ok msg, rand') \<and>
   Dearmor62Verify toy_env Suc Suc CheckKnownMajorVersion msg (toy_sigring [7]) =
     Some (Ok (toy_sigpk [7], [1, 2, 3], ascii ''KEYBASE''))"
  by (rule Dearmor62Verify_SignArmor62)
    (simp_all add: bytes_input_def CheckKnownMajorVersion_None base62_bytes ascii_def maxBrandLength_def)

text \<open>The same for detached signatures.\<close>

lemma Dearmor62VerifyDetached_SignDetachedArmor62:
  assumes "codec_ok E" "signs_for sk pk" "16 \<le> length (pending rand)"
    and "versionValidator v = None" "keyring (sigToKID pk) = Some pk"
    and "set brand \<subseteq> set base62EncodeStd" "length brand \<le> maxBrandLength" "\<forall>c. c < grow c"
  shows "\<exists>sig rand'. SignDetachedArmor62 E sizes v plaintext (Some sk) brand rand = (Ok sig, rand') \<and>
    Dearmor62VerifyDetached E grow versionValidator plaintext sig keyring = Some (Ret (Inr pk) brand)"
proof -
  obtain m rand' where "SignDetached E v plaintext (Some sk) rand = (Ok m, rand')"
    "VerifyDetached E versionValidator plaintext m keyring = Inr pk"
    using detached_verifies [where versionValidator = versionValidator and keyring = keyring,
        OF assms(1-5)] by blast
  then show ?thesis
    using assms(6-8)
    by (simp add: SignDetachedArmor62_armor Armor62Seal_text Dearmor62VerifyDetached_armored brand_ok_def)
qed

text \<open>
  An armored encrypted message opens: every receiver's keyring opens what
  \<open>EncryptArmor62Seal\<close> returns to the plaintext and the brand, with the key information of
  \<open>Open\<close>.
\<close>

theorem Dearmor62DecryptOpen_EncryptArmor62Seal:
  assumes "codec_ok E" "secretbox_ok E" "v = Version1 \<or> v = Version2" "versionValidator v = None"
    and "\<forall>c. c < grow c" "\<forall>i. 0 < sz i"
    and "checkEncryptReceivers receivers = None"
    and "shuffleEncryptReceivers receivers rand = Ret (Inr rs) r1"
      "create (receivers ! 0) r1 = (Inr eph, r2)" "newRandomSymmetricKey r2 = (Inr key, r3)"
    and "keys_ok sender s eph sk ring (set receivers)" "length plaintext < 2 ^ 64 - 1"
    and "set brand \<subseteq> set base62EncodeStd" "length brand \<le> maxBrandLength"
  shows "\<exists>msg mki. EncryptArmor62Seal E sizes create v plaintext sender receivers brand rand = Ok msg \<and>
    Dearmor62DecryptOpen E sz grow versionValidator msg ring = Some (Ret (Inr (plaintext, brand)) (Some mki)) \<and>
    info_for sender s sk mki"
proof -
  obtain m mki where m: "Seal E create v plaintext sender receivers rand = Ok m"
    "Open E grow versionValidator m ring = Some (Ret (Inr plaintext) (Some mki))" "info_for sender s sk mki"
    using sealed_opens [where versionValidator = versionValidator and create = create,
        OF assms(1-5,7-12)] by blast
  have "map_option opened (Dearmor62DecryptOpen E sz grow versionValidator
      (armored MessageTypeEncryption brand m) ring) = Some (Ok ((plaintext, brand), Some mki))"
    using assms(6,13,14) m(2) by (simp add: Dearmor62DecryptOpen_armored brand_ok_def)
  then have "Dearmor62DecryptOpen E sz grow versionValidator (armored MessageTypeEncryption brand m) ring =
      Some (Ret (Inr (plaintext, brand)) (Some mki))"
    by (auto elim!: opened.elims)
  with m(1,3) show ?thesis by (simp add: EncryptArmor62Seal_armor Armor62Seal_text)
qed

theorem Dearmor62DecryptOpen_EncryptArmor62Seal_witness:
  "\<exists>msg mki. EncryptArmor62Seal toy_env (\<lambda>_. [1]) (\<lambda>_ r. (Inr (toy_boxsk 9 False), r)) Version2 [1, 2, 3]
       (Some (toy_boxsk 5 False)) [toy_boxpk 1 False, toy_boxpk 2 True] (ascii ''KEYBASE'')
       (bytes_input (replicate 36 1)) = Ok msg \<and>
     Dearmor62DecryptOpen toy_env Suc Suc CheckKnownMajorVersion msg (toy_ring (toy_boxsk 2 True)) =
       Some (Ret (Inr ([1, 2, 3], ascii ''KEYBASE'')) (Some mki)) \<and>
     info_for (Some (toy_boxsk 5 False)) (toy_boxsk 5 False) (toy_boxsk 2 True) mki"
proof (rule Dearmor62DecryptOpen_EncryptArmor62Seal [OF _ _ _ _ _ _ _ toy_shuffle _ toy_key])
  show "keys_ok (Some (toy_boxsk 5 False)) (toy_boxsk 5 False) (toy_boxsk 9 False) (toy_boxsk 2 True)
      (toy_ring (toy_boxsk 2 True)) (set [toy_boxpk 1 False, toy_boxpk 2 True])"
    using toy_keys_ok by (simp only: list.set)
qed (simp_all add: CheckKnownMajorVersion_None checkEncryptReceivers_None maxReceiverCount_def
    base62_bytes ascii_def maxBrandLength_def)

text \<open>
  An armored signcrypted message opens, for the holder of the box key or the symmetric key of
  any receiver, to the plaintext, the brand and the sender's key.
\<close>

theorem Dearmor62SigncryptOpen_SigncryptArmor62Seal:
  assumes "codec_ok E" "secretbox_ok E" "\<forall>c. c < grow c" "\<forall>i. 0 < sz i"
    and "checkSigncryptReceivers boxKeys symmetricKeys = Ok ()"
    and "shuffleSigncryptReceivers boxKeys symmetricKeys rand = Ret (Inr rs) r1"
      "create r1 = (Inr eph, r2)" "newRandomSymmetricKey r2 = (Inr key, r3)"
    and "sc_keys_ok sender spk eph keyring resolver
      (receiverBoxKey ` set boxKeys \<union> receiverSymmetric ` set symmetricKeys)"
    and "length plaintext < 2 ^ 64 - 1"
    and "set brand \<subseteq> set base62EncodeStd" "length brand \<le> maxBrandLength"
  shows "\<exists>msg. SigncryptArmor62Seal E sizes plaintext create sender boxKeys symmetricKeys brand rand = Ok msg \<and>
    Dearmor62SigncryptOpen E sz grow msg keyring resolver = Some (Ret (Inr (plaintext, brand)) spk)"
proof -
  obtain m where m: "SigncryptSeal E plaintext create sender boxKeys symmetricKeys rand = Ok m"
    "SigncryptOpen E grow m keyring resolver = Some (Ok (spk, plaintext))"
    using signcrypted_opens [where create = create, OF assms(1-3,5-10)] by blast
  have "map_option opened (Dearmor62SigncryptOpen E sz grow
      (armored MessageTypeEncryption brand m) keyring resolver) = Some (Ok ((plaintext, brand), spk))"
    using assms(4,11,12) m(2) by (simp add: Dearmor62SigncryptOpen_armored brand_ok_def)
  then have "Dearmor62SigncryptOpen E sz grow (armored MessageTypeEncryption brand m) keyring resolver =
      Some (Ret (Inr (plaintext, brand)) spk)"
    by (auto elim!: opened.elims)
  with m(1) show ?thesis by (simp add: SigncryptArmor62Seal_armor Armor62Seal_text)
qed

theorem Dearmor62SigncryptOpen_SigncryptArmor62Seal_witness:
  "\<exists>msg. SigncryptArmor62Seal toy_env (\<lambda>_. []) [1, 2, 3] (\<lambda>r. (Inr (toy_boxsk 9 False), r))
       (Some (toy_sigsk64 5)) [] [toy_receiver] [] (bytes_input (replicate 32 1)) = Ok msg \<and>
     Dearmor62SigncryptOpen toy_env Suc Suc msg toy_sc_ring (Some (toy_resolver toy_receiver)) =
       Some (Ret (Inr ([1, 2, 3], [])) (Some (toy_sigpk64 5)))"
proof (rule Dearmor62SigncryptOpen_SigncryptArmor62Seal [OF _ _ _ _ toy_sc_receivers toy_sc_shuffle _ toy_key])
  show "sc_keys_ok (Some (toy_sigsk64 5)) (Some (toy_sigpk64 5)) (toy_boxsk 9 False) toy_sc_ring
     (Some (toy_resolver toy_receiver)) (receiverBoxKey ` set [] \<union> receiverSymmetric ` set [toy_receiver])"
    using toy_sc_keys_ok by simp
qed simp_all

end
