(* ===== verification/Basex_Float.thy ===== *)
theory Basex_Float
  imports Basex_Correct Complex_Main
begin

text \<open>
  The lengths of \<open>encoding/basex/encoding.go\<close> as the source writes them, with base-2 logarithms of
  real numbers: the exact functions of \<open>Basex\<close> are the ceilings and floors that its
  \<open>float64\<close> expressions stand for. The rounding of \<open>float64\<close> is not modelled.
\<close>

text \<open>\<open>math.Ceil(float64(8*n) / logOfBase)\<close>\<close>

lemma least_exp_ceil:
  assumes b: "2 \<le> b" and v: "0 < v"
  shows "int (least_exp b v) = \<lceil>log b v\<rceil>"
proof (cases "least_exp b v")
  case 0
  then have "v = 1" using least_exp_upper [OF b, of v] v by simp
  with 0 show ?thesis by simp
next
  case (Suc m)
  then have "b ^ m < v" using less_least_exp_iff [OF b, of m v] by simp
  moreover have "v \<le> b ^ (m + 1)" using least_exp_upper [OF b, of v] Suc by simp
  ultimately show ?thesis using ceiling_log_nat_eq_if [of b m v] b Suc by simp
qed

lemma log2_pow: "(2 :: nat) \<le> b \<Longrightarrow> log b (256 ^ n) = real (8 * n) / log 2 b"
proof -
  assume b: "2 \<le> b"
  have "log b (256 ^ n) = log 2 (256 ^ n) / log 2 b" using b by (intro log_base_change) simp_all
  moreover have "log 2 (256 ^ n) = real n * log 2 (2 ^ 8)" by (simp add: log_nat_power)
  ultimately show ?thesis by (simp only: log_pow_cancel) simp
qed

theorem block_length_float:
  assumes "2 \<le> b"
  shows "int (least_exp b (256 ^ n)) = \<lceil>real (8 * n) / log 2 b\<rceil>"
  using least_exp_ceil [OF assms, of "256 ^ n"] log2_pow [OF assms, of n] by simp

text \<open>\<open>math.Floor(float64(n) * logOfBase / float64(8))\<close>\<close>

lemma floor_log256_spec: "0 < v \<Longrightarrow> 256 ^ floor_log256 v \<le> v \<and> v < 256 ^ (floor_log256 v + 1)"
proof (induction v rule: floor_log256.induct)
  case (1 v)
  show ?case
  proof (cases "v < 256")
    case True
    with "1.prems" show ?thesis by (simp add: floor_log256.simps)
  next
    case False
    with 1 have "256 ^ floor_log256 (v div 256) \<le> v div 256" "v div 256 < 256 ^ (floor_log256 (v div 256) + 1)"
      by simp_all
    then have "256 ^ floor_log256 (v div 256) * 256 \<le> v" "v < 256 ^ (floor_log256 (v div 256) + 1) * 256"
      by (simp_all add: less_eq_div_iff_mult_less_eq div_less_iff_less_mult)
    with False show ?thesis by (simp add: floor_log256.simps [of v] mult.commute)
  qed
qed

theorem decoded_length_float:
  assumes b: "2 \<le> b"
  shows "int (floor_log256 (b ^ n)) = \<lfloor>real n * log 2 b / 8\<rfloor>"
proof -
  have "\<lfloor>log (256 :: nat) (real (b ^ n))\<rfloor> = int (floor_log256 (b ^ n))"
    using floor_log256_spec [of "b ^ n"] b by (intro floor_log_nat_eq_if) simp_all
  moreover have "log 256 (real b ^ n) = real n * log 256 b" using b by (simp add: log_nat_power)
  moreover have "log 256 b = log 2 b / log 2 256" using b by (intro log_base_change) simp_all
  moreover have "log 2 256 = (8 :: real)" using log_pow_cancel [of 2 8] by simp
  ultimately show ?thesis by simp
qed

end
