(* ===== verification/Classify.thy ===== *)
theory Classify
  imports Armor62_Open
begin

text \<open>
  \<open>classify_and_decrypt.go\<close>: telling from the first bytes of a stream whether it holds a saltpack
  message, armored or not, and of which type, and making the decoder for an encrypted one. The
  regular expressions of the source are functions on bytes. The codec's decoders for the first
  three fields of a header are parameters.
\<close>

section \<open>Binary messages\<close>

record header_codec =
  decFormatName :: "bytes decode"
  decVersion :: "version decode"
  decMessageType :: "MessageType decode"

definition minLengthToIdentifyBinarySaltpack :: nat where
  "minLengthToIdentifyBinarySaltpack = 23"

text \<open>The bytes to skip for the \<open>bin\<close> tag and for the tag of the array.\<close>

definition bin_tag_bytes :: "byte \<Rightarrow> nat option" where
  "bin_tag_bytes b = (if b = 0xc4 then Some 2 else if b = 0xc5 then Some 3 else if b = 0xc6 then Some 5 else None)"

definition array_tag_bytes :: "byte \<Rightarrow> nat option" where
  "array_tag_bytes b =
     (if 0x93 \<le> b \<and> b \<le> 0x9f then Some 1 else if b = 0xdc then Some 3 else if b = 0xdd then Some 5 else None)"

text \<open>An error comes with \<open>MessageTypeUnknown\<close> and the zero version.\<close>

definition IsSaltpackBinarySlice :: "header_codec \<Rightarrow> bytes \<Rightarrow> (MessageType \<times> version) result" where
  "IsSaltpackBinarySlice C b =
     (if length b < minLengthToIdentifyBinarySaltpack then Err ErrShortSliceOrBuffer
      else case bin_tag_bytes (b ! 0) of
        None \<Rightarrow> Err ErrNotASaltpackMessage
      | Some binTagBytesToSkip \<Rightarrow>
     (case array_tag_bytes (b ! binTagBytesToSkip) of
        None \<Rightarrow> Err ErrNotASaltpackMessage
      | Some arrayTagBytesToSkip \<Rightarrow>
     (case decFormatName C (bytes_input (drop (binTagBytesToSkip + arrayTagBytesToSkip) b)) of
        (Inl _, _) \<Rightarrow> Err ErrNotASaltpackMessage
      | (Inr formatName, d) \<Rightarrow>
          if formatName \<noteq> FormatName then Err ErrNotASaltpackMessage
          else
     (case decVersion C d of
        (Inl _, _) \<Rightarrow> Err ErrNotASaltpackMessage
      | (Inr ver, d) \<Rightarrow>
     (case decMessageType C d of
        (Inl _, _) \<Rightarrow> Err ErrNotASaltpackMessage
      | (Inr msgType, _) \<Rightarrow>
          if msgType \<in> {MessageTypeEncryption, MessageTypeSigncryption, MessageTypeAttachedSignature,
                MessageTypeDetachedSignature}
          then Ok (msgType, ver) else Err ErrNotASaltpackMessage)))))"

section \<open>The regular expressions\<close>

definition is_alnum :: "byte \<Rightarrow> bool" where
  "is_alnum b \<longleftrightarrow> 48 \<le> b \<and> b \<le> 57 \<or> 65 \<le> b \<and> b \<le> 90 \<or> 97 \<le> b \<and> b \<le> 122"

definition has_prefix :: "bytes \<Rightarrow> bytes \<Rightarrow> bool" where
  "has_prefix s p \<longleftrightarrow> take (length p) s = p"

text \<open>
  \<open>SALTPACK (\<dots>|\<dots>|\<dots>) ?\\.([a-zA-Z0-9 ]*)\<close> at the beginning of \<open>s\<close>: the two groups. At most one
  of the alternatives is a prefix.
\<close>

definition match_tail :: "bytes \<Rightarrow> (bytes \<times> bytes) option" where
  "match_tail s =
     (let format = ascii ''SALTPACK ''
      in if \<not> has_prefix s format then None
         else let r = drop (length format) s
         in case find (has_prefix r) [EncryptionArmorString, SignedArmorString, DetachedSignatureArmorString] of
              None \<Rightarrow> None
            | Some t \<Rightarrow>
                (let r1 = drop (length t) r; r2 = (if r1 \<noteq> [] \<and> hd r1 = 32 then tl r1 else r1)
                 in if r2 \<noteq> [] \<and> hd r2 = 46 then Some (t, takeWhile (\<lambda>b. is_alnum b \<or> b = 32) (tl r2))
                    else None))"

text \<open>
  \<open>^BEGIN (?:([a-zA-Z0-9]+) )?SALTPACK\<dots>\<close>: the brand, the type and the body. The optional group is
  tried first.
\<close>

definition match_header :: "bytes \<Rightarrow> (bytes \<times> bytes \<times> bytes) option" where
  "match_header s =
     (let begin' = ascii ''BEGIN ''
      in if \<not> has_prefix s begin' then None
         else let r = drop (length begin') s; w = takeWhile is_alnum r; r' = dropWhile is_alnum r
         in case (if w \<noteq> [] \<and> r' \<noteq> [] \<and> hd r' = 32 then match_tail (tl r') else None) of
              Some (t, body) \<Rightarrow> Some (w, t, body)
            | None \<Rightarrow> map_option (\<lambda>(t, body). ([], t, body)) (match_tail r))"

text \<open>\<open>^([a-zA-Z0-9]+ ?){0,n}$\<close>\<close>

fun few_words :: "nat \<Rightarrow> bytes \<Rightarrow> bool" where
  "few_words 0 s = (s = [])"
| "few_words (Suc n) s =
     (s = [] \<or>
      takeWhile is_alnum s \<noteq> [] \<and>
      (let r = dropWhile is_alnum s in few_words n (if r \<noteq> [] \<and> hd r = 32 then tl r else r)))"

section \<open>Armored messages\<close>

definition prefix_of_header :: "bytes \<Rightarrow> bytes \<Rightarrow> bool" where
  "prefix_of_header headerWithoutBrand s \<longleftrightarrow>
     (let headerPrefix = headerMarker @ [32] @ ToUpper FormatName
      in \<exists>t\<in>set [EncryptionArmorString, SignedArmorString, DetachedSignatureArmorString].
           has_prefix (headerPrefix @ [32] @ t) headerWithoutBrand \<or> has_prefix (headerPrefix @ [32] @ t) s)"

text \<open>What is answered when the header does not match: too short, or no message.\<close>

definition unmatched_header :: "bytes \<Rightarrow> err result" where
  "unmatched_header s =
     (if \<not> few_words 5 s then Ok ErrNotASaltpackMessage
      else let strs = split_on 32 s
      in if length strs = 1
         then Ok (if has_prefix headerMarker (strs ! 0) then ErrShortSliceOrBuffer else ErrNotASaltpackMessage)
         else if length strs = 2
         then Ok (if headerMarker = strs ! 0 then ErrShortSliceOrBuffer else ErrNotASaltpackMessage)
         else if length strs \<in> {3, 4, 5}
         then Ok (if prefix_of_header (join_words (strs ! 0 # drop 2 strs)) s then ErrShortSliceOrBuffer
                  else ErrNotASaltpackMessage)
         else Panicked)"

definition armor_type_mismatch :: "MessageType \<Rightarrow> bytes \<Rightarrow> bool" where
  "armor_type_mismatch messageType headerArmorType \<longleftrightarrow>
     messageType = MessageTypeSigncryption \<and> headerArmorType \<noteq> EncryptionArmorString \<or>
     messageType = MessageTypeEncryption \<and> headerArmorType \<noteq> EncryptionArmorString \<or>
     messageType = MessageTypeAttachedSignature \<and> headerArmorType \<noteq> SignedArmorString \<or>
     messageType = MessageTypeDetachedSignature \<and> headerArmorType \<noteq> DetachedSignatureArmorString"

definition IsSaltpackArmoredPrefix :: "header_codec \<Rightarrow> bytes \<Rightarrow> (bytes \<times> MessageType \<times> version) result" where
  "IsSaltpackArmoredPrefix C pref =
     (let s = TrimSpace (squeeze False pref)
      in case match_header s of
           None \<Rightarrow> bind_out (unmatched_header s) Err
         | Some (brand, headerArmorType, body) \<Rightarrow>
             bind_out (DecodeString Base62StdEncoding body) (\<lambda>(dec, e).
               if length dec < 32
               then Err (if e = Some ErrInvalidEncodingLength \<or> e = None then ErrShortSliceOrBuffer
                         else ErrNotASaltpackMessage)
               else bind_out (IsSaltpackBinarySlice C dec) (\<lambda>(messageType, ver).
                 if armor_type_mismatch messageType headerArmorType then Err ErrNotASaltpackMessage
                 else Ok (brand, messageType, ver))))"

section \<open>Streams\<close>

text \<open>
  A \<open>bufio.Reader\<close> with a buffer of \<open>bufSize\<close> bytes over the input that is left: \<open>Peek\<close> returns the
  next bytes and an error when there are fewer than it was asked for, and consumes nothing.
\<close>

definition ErrBufferFull :: err where "ErrBufferFull = ErrForeign 1"

definition Peek :: "nat \<Rightarrow> nat \<Rightarrow> input \<Rightarrow> bytes \<times> err option" where
  "Peek bufSize n r =
     (if n > bufSize then (take bufSize (pending r), Some ErrBufferFull)
      else if length (pending r) < n then (pending r, Some (ends r))
      else (take n (pending r), None))"

definition IsSaltpackBinary :: "header_codec \<Rightarrow> nat \<Rightarrow> input \<Rightarrow> (MessageType \<times> version) result" where
  "IsSaltpackBinary C bufSize stream =
     (case Peek bufSize minLengthToIdentifyBinarySaltpack stream of
        (_, Some e) \<Rightarrow> Err (if e = ErrBufferFull then ErrShortSliceOrBuffer else e)
      | (b, None) \<Rightarrow> IsSaltpackBinarySlice C b)"

definition IsSaltpackArmored :: "header_codec \<Rightarrow> nat \<Rightarrow> input \<Rightarrow> (bytes \<times> MessageType \<times> version) result" where
  "IsSaltpackArmored C bufSize stream =
     (case Peek bufSize bufSize stream of
        (buf, e) \<Rightarrow>
          if e \<noteq> None \<and> e \<noteq> Some EOF \<or> length buf = 0
          then (case e of Some e \<Rightarrow> Err e | None \<Rightarrow> Ok ([], MessageTypeUnknown, \<lparr>Major = 0, Minor = 0\<rparr>))
          else IsSaltpackArmoredPrefix C buf)"

definition ClassifyStream :: "header_codec \<Rightarrow> nat \<Rightarrow> input \<Rightarrow> (bool \<times> bytes \<times> MessageType \<times> version) result" where
  "ClassifyStream C bufSize stream =
     (case IsSaltpackArmored C bufSize stream of
        Ok (brand, messageType, ver) \<Rightarrow> Ok (True, brand, messageType, ver)
      | Panicked \<Rightarrow> Panicked
      | Err e \<Rightarrow>
          if e = ErrShortSliceOrBuffer then Err ErrShortSliceOrBuffer
          else bind_out (IsSaltpackBinary C bufSize stream)
                 (\<lambda>(messageType, ver). Ok (False, [], messageType, ver)))"

section \<open>Making the decoder\<close>

datatype plainsource = Decrypts "decryptStream chunkReader" | Opens "signcryptOpenStream chunkReader"

record classified =
  clSource :: "plainsource option"
  clMsgType :: MessageType
  clMki :: "MessageKeyInfo option"
  clSender :: "SigningPublicKey option"
  clArmored :: bool
  clBrand :: bytes
  clVersion :: version
  clErr :: "err option"

definition not_classified :: "err \<Rightarrow> classified" where
  "not_classified e =
     \<lparr>clSource = None, clMsgType = MessageTypeUnknown, clMki = None, clSender = None, clArmored = False,
      clBrand = [], clVersion = \<lparr>Major = 0, Minor = 0\<rparr>, clErr = Some e\<rparr>"

text \<open>The size of the buffer \<open>bufio.NewReader\<close> makes for a source that has no larger one itself.\<close>

definition bufioDefaultSize :: nat where "bufioDefaultSize = 4096"

text \<open>Neither function returns \<open>Err\<close>: errors are in the record.\<close>

definition make_decrypter ::
  "env \<Rightarrow> (nat \<Rightarrow> nat) \<Rightarrow> input \<Rightarrow> SigncryptKeyring \<Rightarrow> bool \<Rightarrow> version \<Rightarrow> classified result option" where
  "make_decrypter E sz stream keyring isArmored ver =
     (let kr = Keyring.truncate keyring;
          made = (\<lambda>src mki brand e. Ok
            \<lparr>clSource = src, clMsgType = MessageTypeEncryption, clMki = mki, clSender = None,
             clArmored = isArmored, clBrand = brand, clVersion = ver, clErr = e\<rparr>)
      in if isArmored
         then map_option (\<lambda>g. case g of
                  Panic \<Rightarrow> Panicked
                | Ret (Inl e) mki \<Rightarrow> made None mki [] (Some e)
                | Ret (Inr (ds, brand)) mki \<Rightarrow> made (Some (Decrypts ds)) mki brand None)
              (NewDearmor62DecryptStream E sz input_Read CheckKnownMajorVersion stream kr)
         else Some (case NewDecryptStream E CheckKnownMajorVersion stream kr of
                  Panic \<Rightarrow> Panicked
                | Ret (Inl e) mki \<Rightarrow> made None (Some mki) [] (Some e)
                | Ret (Inr ds) mki \<Rightarrow> made (Some (Decrypts ds)) (Some mki) [] None))"

definition make_opener ::
  "env \<Rightarrow> (nat \<Rightarrow> nat) \<Rightarrow> input \<Rightarrow> SigncryptKeyring \<Rightarrow> SymmetricKeyResolver option \<Rightarrow> bool \<Rightarrow> version \<Rightarrow>
     classified result option" where
  "make_opener E sz stream keyring resolver isArmored ver =
     (let made = (\<lambda>src sender brand e. Ok
            \<lparr>clSource = src, clMsgType = MessageTypeSigncryption, clMki = None, clSender = sender,
             clArmored = isArmored, clBrand = brand, clVersion = ver, clErr = e\<rparr>)
      in if isArmored
         then map_option (\<lambda>r. case r of
                  Panicked \<Rightarrow> Panicked
                | Err e \<Rightarrow> made None None [] (Some e)
                | Ok (sender, sos, brand) \<Rightarrow> made (Some (Opens sos)) sender brand None)
              (NewDearmor62SigncryptOpenStream E sz input_Read stream keyring resolver)
         else Some (case NewSigncryptOpenStream E stream keyring resolver of
                  Panicked \<Rightarrow> Panicked
                | Err e \<Rightarrow> made None None [] (Some e)
                | Ok (sender, sos) \<Rightarrow> made (Some (Opens sos)) sender [] None))"

definition ClassifyEncryptedStreamAndMakeDecoder ::
  "env \<Rightarrow> header_codec \<Rightarrow> (nat \<Rightarrow> nat) \<Rightarrow> input \<Rightarrow> SigncryptKeyring \<Rightarrow> SymmetricKeyResolver option \<Rightarrow>
     classified result option" where
  "ClassifyEncryptedStreamAndMakeDecoder E C sz src decryptionKeyring keyResolver =
     (case ClassifyStream C bufioDefaultSize src of
        Panicked \<Rightarrow> Some Panicked
      | Err e \<Rightarrow>
          Some (Ok (not_classified
            (if e = ErrShortSliceOrBuffer then ErrShortSliceOrBuffer else ErrNotASaltpackMessage)))
      | Ok (isArmored, _, msgType, ver) \<Rightarrow>
          if msgType = MessageTypeEncryption
          then make_decrypter E sz src decryptionKeyring isArmored ver
          else if msgType = MessageTypeSigncryption
          then make_opener E sz src decryptionKeyring keyResolver isArmored ver
          else Some (Ok (not_classified (ErrWrongMessageType MessageTypeEncryption msgType))))"

end
