(* ===== verification/Classify_Props.thy ===== *)
theory Classify_Props
  imports Classify Instance
begin

text \<open>
  Classification neither panics nor misses a message: the branch the source calls a logic error is
  unreachable, and every binary message and every prefix of an armored one that is long enough is
  recognised with its type, version and brand.
\<close>

section \<open>Classification does not panic\<close>

lemma trim_prefixes_done: "w \<in> set ws \<Longrightarrow> w \<noteq> [] \<Longrightarrow> take (length w) (trim_prefixes ws s) \<noteq> w"
proof (induction ws s rule: trim_prefixes.induct)
  case (1 ws s)
  show ?case
  proof (cases "find (\<lambda>w. w \<noteq> [] \<and> take (length w) s = w) ws")
    case None
    then have "take (length w) s \<noteq> w" using "1.prems" by (auto simp: find_None_iff)
    with None show ?thesis by (subst trim_prefixes.simps) simp
  next
    case (Some v)
    with 1 show ?thesis by (subst trim_prefixes.simps) simp
  qed
qed

lemma TrimSpace_last: "TrimSpace s \<noteq> [] \<Longrightarrow> last (TrimSpace s) \<noteq> 32"
proof -
  let ?r = "trim_prefixes (map rev utf8_spaces) (rev (trim_prefixes utf8_spaces s))"
  assume "TrimSpace s \<noteq> []"
  then have "?r \<noteq> []" by (simp add: TrimSpace_def)
  moreover have "[32] \<in> set (map rev utf8_spaces)" by (simp add: utf8_spaces_def)
  then have "take 1 ?r \<noteq> [32]" using trim_prefixes_done [of "[32]"] by fastforce
  ultimately show ?thesis by (cases ?r) (simp_all add: TrimSpace_def)
qed

lemma few_words_split:
  "few_words n s \<Longrightarrow> s = [] \<or> last s \<noteq> 32 \<Longrightarrow> length (split_on 32 s) \<le> max 1 n"
proof (induction n arbitrary: s)
  case (Suc n)
  let ?w = "takeWhile is_alnum s" and ?r = "dropWhile is_alnum s"
  have no_space: "32 \<notin> set ?w" by (auto dest: set_takeWhileD simp: is_alnum_def)
  show ?case
  proof (cases "s = []")
    case False
    show ?thesis
    proof (cases ?r)
      case Nil
      then have "s = ?w" by (metis append_Nil2 takeWhile_dropWhile_id)
      then have "split_on 32 s = [s]" using split_on_word no_space by metis
      then show ?thesis by simp
    next
      case (Cons c r)
      have s: "s = ?w @ c # r" using Cons takeWhile_dropWhile_id by metis
      have "\<not> is_alnum c" using Cons hd_dropWhile [of is_alnum s] by simp
      moreover have few: "few_words n (if c = 32 then r else c # r)"
        using Suc.prems(1) False Cons by (auto simp: Let_def split: if_splits)
      ultimately have c1: "c = 32" by (cases n) (simp_all split: if_splits)
      with few have c: "c = 32" "few_words n r" by simp_all
      have "last s = last (c # r)" using s by (metis last_appendR list.distinct(1))
      then have "r \<noteq> []" "last r \<noteq> 32" using Suc.prems(2) False c(1) by (auto split: if_splits)
      moreover have "n \<noteq> 0" using c(2) \<open>r \<noteq> []\<close> by (cases n) simp_all
      ultimately have "length (split_on 32 r) \<le> n" using Suc.IH [OF c(2)] by simp
      moreover have "split_on 32 s = ?w # split_on 32 r"
        using split_on_cons [OF no_space, of r] s c(1) by metis
      ultimately show ?thesis by simp
    qed
  qed simp
qed simp

lemma unmatched_header_Ok:
  assumes "s = [] \<or> last s \<noteq> 32"
  shows "\<exists>e. unmatched_header s = Ok e"
proof (cases "few_words 5 s")
  case True
  have "length (split_on 32 s) \<noteq> 0" by simp
  moreover have "length (split_on 32 s) \<le> 5" using few_words_split [OF True assms] by simp
  ultimately have "length (split_on 32 s) \<in> {1, 2, 3, 4, 5}" by (simp only: insert_iff empty_iff) linarith
  then show ?thesis by (auto simp: unmatched_header_def Let_def)
qed (simp add: unmatched_header_def)

lemma IsSaltpackBinarySlice_no_panic: "IsSaltpackBinarySlice C b \<noteq> Panicked"
  by (auto simp: IsSaltpackBinarySlice_def split: option.split prod.split sum.split)

lemma base62_ranges: "base62EncodeStd = map of_nat ([48..<58] @ [65..<91] @ [97..<123])"
  by code_simp

lemma base62_alnum: "b \<in> set base62EncodeStd \<longleftrightarrow> is_alnum b"
proof
  show "b \<in> set base62EncodeStd \<Longrightarrow> is_alnum b" by (auto simp: base62_bytes is_alnum_def)
next
  assume "is_alnum b"
  then have "unat b \<in> set ([48..<58] @ [65..<91] @ [97..<123])"
    by (simp only: is_alnum_def word_le_nat_alt set_append set_upt Un_iff atLeastLessThan_iff) auto
  then have "of_nat (unat b) \<in> set base62EncodeStd" unfolding base62_ranges by (metis image_eqI set_map)
  then show "b \<in> set base62EncodeStd" by simp
qed

text \<open>The body of a matched header consists of alphanumeric characters and spaces.\<close>

lemma match_tail_body: "match_tail s = Some (t, body) \<Longrightarrow> \<forall>b\<in>set body. is_alnum b \<or> b = 32"
  by (auto simp: match_tail_def Let_def dest!: set_takeWhileD split: if_splits option.splits)

lemma match_header_body: "match_header s = Some (brand, t, body) \<Longrightarrow> \<forall>b\<in>set body. is_alnum b \<or> b = 32"
  by (auto simp: match_header_def Let_def dest: match_tail_body split: if_splits option.splits)

lemma body_decodes:
  assumes "\<forall>b\<in>set body. is_alnum b \<or> b = 32"
  shows "DecodeString Base62StdEncoding body =
    Ok (decode_spec Base62StdEncoding (goods Base62StdEncoding body))"
  using assms by (intro DecodeString_valid) (auto simp: IsValidByte_Base62 base62_alnum)

lemma IsSaltpackArmoredPrefix_no_panic: "IsSaltpackArmoredPrefix C pref \<noteq> Panicked"
proof -
  let ?s = "TrimSpace (squeeze False pref)"
  obtain e where "unmatched_header ?s = Ok e"
    using unmatched_header_Ok [of ?s] TrimSpace_last by blast
  then show ?thesis
    by (auto simp: IsSaltpackArmoredPrefix_def Let_def bind_out_eq_Panicked IsSaltpackBinarySlice_no_panic
        body_decodes match_header_body split: option.split prod.splits if_splits)
qed

section \<open>Messages are recognised\<close>

text \<open>A decoder that reads one value from the bytes that encode it, whatever follows.\<close>

definition reads_prefix :: "'a decode \<Rightarrow> bytes \<Rightarrow> 'a \<Rightarrow> bool" where
  "reads_prefix dec bs x \<longleftrightarrow> (\<forall>rest. dec (bytes_input (bs @ rest)) = (Inr x, bytes_input rest))"

text \<open>
  \<open>m\<close> begins as a binary message of the given type and version: its tags and its first three
  header fields lie in the first 23 bytes, as the comment on
  \<open>minLengthToIdentifyBinarySaltpack\<close> has it, and there are enough bytes for a block of armor.
\<close>

definition binary_start :: "header_codec \<Rightarrow> bytes \<Rightarrow> MessageType \<Rightarrow> version \<Rightarrow> bool" where
  "binary_start C m typ v \<longleftrightarrow>
     typ \<in> {MessageTypeEncryption, MessageTypeSigncryption, MessageTypeAttachedSignature,
       MessageTypeDetachedSignature} \<and> 32 \<le> length m \<and>
     (\<exists>k j fs vs ts rest. bin_tag_bytes (m ! 0) = Some k \<and> array_tag_bytes (m ! k) = Some j \<and>
        drop (k + j) m = fs @ vs @ ts @ rest \<and> k + j + length (fs @ vs @ ts) \<le> 23 \<and>
        reads_prefix (decFormatName C) fs FormatName \<and> reads_prefix (decVersion C) vs v \<and>
        reads_prefix (decMessageType C) ts typ)"

lemma binary_start_slice:
  assumes "binary_start C m typ v" "take 23 x = take 23 m"
  shows "IsSaltpackBinarySlice C x = Ok (typ, v)"
proof -
  from assms(1) obtain k j fs vs ts rest where
    tags: "bin_tag_bytes (m ! 0) = Some k" "array_tag_bytes (m ! k) = Some j"
    and flds: "drop (k + j) m = fs @ vs @ ts @ rest" "k + j + length (fs @ vs @ ts) \<le> 23"
    and rd: "reads_prefix (decFormatName C) fs FormatName" "reads_prefix (decVersion C) vs v"
      "reads_prefix (decMessageType C) ts typ"
    and t: "typ \<in> {MessageTypeEncryption, MessageTypeSigncryption, MessageTypeAttachedSignature,
       MessageTypeDetachedSignature}" "32 \<le> length m"
    unfolding binary_start_def by blast
  have len: "23 \<le> length x" using arg_cong [OF assms(2), of length] t(2) by simp
  have nth: "x ! i = m ! i" if "i < 23" for i
    using arg_cong [OF assms(2), of "\<lambda>l. l ! i"] that by simp
  have k: "k < 23" "k + j \<le> 23" using flds(2) tags(1) by (auto simp: bin_tag_bytes_def split: if_splits)
  have "take (23 - (k + j)) (drop (k + j) x) = take (23 - (k + j)) (drop (k + j) m)"
    using assms(2) k(2) by (simp add: take_drop)
  moreover have "take (23 - (k + j)) (drop (k + j) m) = (fs @ vs @ ts) @ take (23 - (k + j) - length (fs @ vs @ ts)) rest"
    using flds by (simp add: add.assoc)
  ultimately obtain rest' where "drop (k + j) x = fs @ vs @ ts @ rest'"
    by (metis append.assoc append_take_drop_id)
  then show ?thesis
    using rd t(1) len tags nth [of 0] nth [OF k(1)]
    by (simp add: IsSaltpackBinarySlice_def minLengthToIdentifyBinarySaltpack_def reads_prefix_def)
qed

text \<open>Squeezing and trimming, around a character that is not white space.\<close>

lemma squeeze_append: "\<not> frame_space c \<Longrightarrow> squeeze r (x @ c # y) = squeeze r x @ c # squeeze False y"
  by (induction r x rule: squeeze.induct) auto

lemma goods_squeeze: "goods Base62StdEncoding (squeeze r s) = goods Base62StdEncoding s"
proof -
  have "decodeMap Base62StdEncoding b = None" if "frame_space b" for b
    using that decodeMap_None [of b] by (auto simp: frame_space_def base62_bytes)
  then show ?thesis by (induction r s rule: squeeze.induct) (auto split: option.split)
qed

lemma trim_prefixes_suffix:
  "\<exists>y. s = y @ trim_prefixes ws s \<and> set y \<subseteq> \<Union> (set ` set ws)"
proof (induction ws s rule: trim_prefixes.induct)
  case (1 ws s)
  show ?case
  proof (cases "find (\<lambda>w. w \<noteq> [] \<and> take (length w) s = w) ws")
    case (Some w)
    then have w: "w \<in> set ws" "take (length w) s = w" by (auto simp: find_Some_iff)
    from "1.IH" [OF Some] obtain y where
      y: "drop (length w) s = y @ trim_prefixes ws (drop (length w) s)" "set y \<subseteq> \<Union> (set ` set ws)" by blast
    have "trim_prefixes ws s = trim_prefixes ws (drop (length w) s)"
      using Some by (subst trim_prefixes.simps) simp
    moreover have "s = w @ drop (length w) s" using w(2) by (metis append_take_drop_id)
    ultimately have "s = (w @ y) @ trim_prefixes ws s" using y(1) by simp
    then show ?thesis using w(1) y(2) by (intro exI [of _ "w @ y"]) auto
  qed (subst trim_prefixes.simps, simp)
qed

lemma set_spaces_not_alnum: "b \<in> \<Union> (set ` set (map rev utf8_spaces)) \<Longrightarrow> \<not> is_alnum b \<and> b \<notin> {46, 0xC4, 0xC5, 0xC6}"
  by (auto simp: utf8_spaces_def is_alnum_def upt_rec)

text \<open>
  Trimming a text that begins with no byte of a white-space character drops some white space at
  its end.
\<close>

lemma TrimSpace_end:
  assumes "b \<notin> {9, 10, 11, 12, 13, 32, 0xC2, 0xE1, 0xE2, 0xE3}"
  obtains y where "b # s = TrimSpace (b # s) @ y" "\<forall>c\<in>set y. \<not> is_alnum c \<and> c \<notin> {46, 0xC4, 0xC5, 0xC6}"
proof -
  let ?ws = "map rev utf8_spaces"
  have front: "trim_prefixes utf8_spaces (b # s) = b # s"
    using utf8_spaces_ends(1) assms by (intro trim_prefixes_none) blast
  obtain y where y: "rev (b # s) = y @ trim_prefixes ?ws (rev (b # s))" "set y \<subseteq> \<Union> (set ` set ?ws)"
    using trim_prefixes_suffix by blast
  have "b # s = TrimSpace (b # s) @ rev y"
    unfolding TrimSpace_def front using arg_cong [OF y(1), of rev] by (metis rev_append rev_rev_ident)
  moreover have "\<forall>c\<in>set (rev y). \<not> is_alnum c \<and> c \<notin> {46, 0xC4, 0xC5, 0xC6}"
    unfolding set_rev by (intro ballI set_spaces_not_alnum subsetD [OF y(2)])
  ultimately show thesis by (rule that)
qed

text \<open>The first 43 characters of the body of an armor lie in its first 46 bytes.\<close>

lemma render_first:
  assumes "13 \<le> length c"
  shows "take 13 (render params n (full_blocks 15 c) @ last_block 15 c @ x) = take 13 c"
  using assms by (cases "15 < length c") (simp_all add: full_blocks_long last_block_long)

lemma armor_chars_first:
  assumes "43 \<le> length (encode_spec Base62StdEncoding m)"
  shows "goods Base62StdEncoding (take 46 (armor_chars m)) =
    goods Base62StdEncoding (take 43 (encode_spec Base62StdEncoding m))"
proof -
  let ?c = "encode_spec Base62StdEncoding m"
  obtain x where "armor_chars m = [32] @ render Armor62Params 0 (full_blocks 15 ?c) @ last_block 15 ?c @ x"
    by (simp add: armor_chars_def armor_body_def Let_def)
  moreover have "full_blocks 15 ?c = take 15 ?c # take 15 (drop 15 ?c) # full_blocks 15 (drop 30 ?c)"
    "last_block 15 ?c = last_block 15 (drop 30 ?c)"
    using assms by (simp_all add: full_blocks_long last_block_long)
  moreover have "13 \<le> length (drop 30 ?c)" using assms by simp
  note render_first [OF this, of Armor62Params "Suc (Suc 0)" x]
  ultimately have "take 46 (armor_chars m) = [32] @ take 15 ?c @ [word_sep Armor62Params 1] @
      take 15 (drop 15 ?c) @ [word_sep Armor62Params 2] @ take 13 (drop 30 ?c)"
    using assms by (simp add: numeral_2_eq_2)
  moreover have "take 43 ?c = take 15 ?c @ take 15 (drop 15 ?c) @ take 13 (drop 30 ?c)"
    using take_add [of 15 28 ?c] take_add [of 15 13 "drop 15 ?c"] by simp
  ultimately show ?thesis by simp
qed

lemma decode_first:
  assumes "take 43 ds = goods Base62StdEncoding (enc_block Base62StdEncoding (take 32 m))" "32 \<le> length m"
  obtains x e where "decode_spec Base62StdEncoding ds = (take 32 m @ x, e)"
proof -
  let ?E = Base62StdEncoding
  let ?g = "goods ?E (enc_block ?E (take 32 m))"
  have len: "length ?g = 43"
    using EncodedLen_full [of ?E] assms(2) by (simp add: goods_enc_block min_absorb2)
  then have "ds \<noteq> []" using assms(1) by auto
  then have "chunks 43 ds = ?g # chunks 43 (drop 43 ds)"
    using assms(1) by (simp add: chunks_step)
  moreover have "IsValidEncodingLength ?E (length ?g)" "dec_block ?E ?g = take 32 m"
    using IsValid_EncodedLen [OF Base62_wf(1), of "length (take 32 m)"]
      dec_block_enc_block [OF Base62_wf(1), of "take 32 m"]
    by (simp_all add: goods_enc_block)
  ultimately show thesis
    by (cases "dec_chunks ?E (chunks 43 (drop 43 ds))") (auto simp: decode_spec_def intro: that)
qed

text \<open>The header that was made is matched.\<close>

lemma not_alnum [simp]: "\<not> is_alnum 32" "\<not> is_alnum 46" "\<not> is_alnum 10"
  by (simp_all add: is_alnum_def)

lemma armor_strings:
  "EncryptionArmorString = [69, 78, 67, 82, 89, 80, 84, 69, 68, 32, 77, 69, 83, 83, 65, 71, 69]"
  "SignedArmorString = [83, 73, 71, 78, 69, 68, 32, 77, 69, 83, 83, 65, 71, 69]"
  "DetachedSignatureArmorString = [68, 69, 84, 65, 67, 72, 69, 68, 32, 83, 73, 71, 78, 65, 84, 85, 82, 69]"
  by (simp_all add: EncryptionArmorString_def SignedArmorString_def DetachedSignatureArmorString_def ascii_def)

lemma framed_string:
  assumes "framed_type typ"
  obtains "getStringForType typ = EncryptionArmorString" | "getStringForType typ = SignedArmorString"
    | "getStringForType typ = DetachedSignatureArmorString"
  using assms by (auto simp: framed_type_def getStringForType_def message_type_defs)

lemma SALTPACK_bytes: "ascii ''SALTPACK '' = [83, 65, 76, 84, 80, 65, 67, 75, 32]"
  by (simp add: ascii_def)

lemma match_tail_made:
  assumes "framed_type typ"
  shows "match_tail (ascii ''SALTPACK '' @ getStringForType typ @ 46 # z) =
    Some (getStringForType typ, takeWhile (\<lambda>b. is_alnum b \<or> b = 32) z)"
    and "match_tail (getStringForType typ @ 46 # z) = None"
  by (rule framed_string [OF assms]; simp add: match_tail_def has_prefix_def SALTPACK_bytes armor_strings)+

lemma match_header_made:
  assumes typ': "framed_type typ" and brand: "set brand \<subseteq> set base62EncodeStd"
  shows "match_header (makeFrame headerMarker typ brand @ 46 # z) =
    Some (brand, getStringForType typ, takeWhile (\<lambda>b. is_alnum b \<or> b = 32) z)"
proof -
  have t: "length (getStringForType typ) \<noteq> 0"
    by (rule framed_string [OF typ']) (simp_all add: armor_strings)
  have alnum: "\<forall>b\<in>set brand. is_alnum b" using brand base62_alnum by blast
  let ?rest = "getStringForType typ @ 46 # z"
  have fmt: "ToUpper FormatName @ 32 # ?rest = ascii ''SALTPACK '' @ ?rest"
    by (simp add: ToUpper_def FormatName_def ascii_def)
  show ?thesis
  proof (cases "brand = []")
    case True
    then have "makeFrame headerMarker typ brand @ 46 # z = ascii ''BEGIN '' @ ascii ''SALTPACK '' @ ?rest"
      using t fmt by (simp add: makeFrame_def headerMarker_def ascii_def)
    with True match_tail_made [OF typ'] show ?thesis
      by (simp add: match_header_def has_prefix_def Let_def) (simp add: ascii_def is_alnum_def)
  next
    case False
    then have "makeFrame headerMarker typ brand @ 46 # z =
        ascii ''BEGIN '' @ brand @ 32 # ascii ''SALTPACK '' @ ?rest"
      using t fmt by (simp add: makeFrame_def headerMarker_def ascii_def)
    moreover have "takeWhile is_alnum (brand @ 32 # y) = brand" "dropWhile is_alnum (brand @ 32 # y) = 32 # y" for y
      using alnum by simp_all
    ultimately show ?thesis
      using False match_tail_made [OF typ'] by (simp add: match_header_def has_prefix_def Let_def)
  qed
qed

section \<open>A prefix of an armored message\<close>

lemma goods_spaces: "\<forall>c\<in>set s. c = 32 \<Longrightarrow> goods Base62StdEncoding s = []"
  by (induction s) simp_all

lemma cut_behind_mark:
  assumes "xs @ c # u = s @ y" "c \<notin> set y"
  obtains z where "s = xs @ c # z" "u = z @ y"
proof -
  from assms(1) consider v where "s = xs @ v" "c # u = v @ y" | v where "xs = s @ v" "y = v @ c # u"
    by (auto simp: append_eq_append_conv2)
  then show thesis
  proof cases
    case 1
    with assms(2) show thesis by (cases v) (auto intro: that)
  qed (use assms(2) in auto)
qed

lemma first_block:
  assumes "32 \<le> length m"
  shows "take 43 (encode_spec Base62StdEncoding m) = enc_block Base62StdEncoding (take 32 m)"
    and "43 \<le> length (encode_spec Base62StdEncoding m)"
    and "length (goods Base62StdEncoding (enc_block Base62StdEncoding (take 32 m))) = 43"
proof -
  have "EncodedLen Base62StdEncoding 32 = 43" using EncodedLen_full [of Base62StdEncoding] by simp
  moreover have "encode_spec Base62StdEncoding m =
      enc_block Base62StdEncoding (take 32 m) @ encode_spec Base62StdEncoding (drop 32 m)"
    using encode_spec_step [of Base62StdEncoding m] assms by fastforce
  ultimately show "take 43 (encode_spec Base62StdEncoding m) = enc_block Base62StdEncoding (take 32 m)"
    "43 \<le> length (encode_spec Base62StdEncoding m)"
    "length (goods Base62StdEncoding (enc_block Base62StdEncoding (take 32 m))) = 43"
    using assms by (simp_all add: min_absorb2 goods_enc_block)
qed

lemma goods_take_body:
  assumes "32 \<le> length m" "46 \<le> k"
  shows "take 43 (goods Base62StdEncoding (take k (armor_chars m))) =
    goods Base62StdEncoding (enc_block Base62StdEncoding (take 32 m))"
proof -
  let ?E = Base62StdEncoding
  have "take k (armor_chars m) = take 46 (armor_chars m) @ take (k - 46) (drop 46 (armor_chars m))"
    using take_add [of 46 "k - 46" "armor_chars m"] assms(2) by simp
  then have "goods ?E (take k (armor_chars m)) =
      goods ?E (enc_block ?E (take 32 m)) @ goods ?E (take (k - 46) (drop 46 (armor_chars m)))"
    using armor_chars_first [OF first_block(2) [OF assms(1)]] first_block(1) [OF assms(1)] by simp
  then show ?thesis using first_block(3) [OF assms(1)] by simp
qed

text \<open>The characters the matcher finds after the header decode to the message's first block.\<close>

lemma squeezed_body:
  assumes "set b1 \<subseteq> set base62EncodeStd \<union> {9, 10, 13, 32, 62}" "b2 = [] \<or> hd b2 = 46"
    and "squeeze False (b1 @ b2) = z @ y" "\<forall>c\<in>set y. \<not> is_alnum c"
  shows "goods Base62StdEncoding (takeWhile (\<lambda>b. is_alnum b \<or> b = 32) z) = goods Base62StdEncoding b1"
proof -
  let ?P = "\<lambda>b. is_alnum b \<or> b = (32 :: byte)" and ?E = Base62StdEncoding
  have P: "?P c" if "c \<in> set (squeeze r b1)" for c r
    using that assms(1) base62_alnum
  proof (induction r b1 rule: squeeze.induct)
    case (2 r b s)
    then show ?case by (auto simp: frame_space_def split: if_splits)
  qed simp
  have "takeWhile ?P (squeeze False (b1 @ b2)) = squeeze False b1"
  proof (cases b2)
    case (Cons c b3)
    then have "squeeze False (b1 @ b2) = squeeze False b1 @ 46 # squeeze False b3"
      using assms(2) by (simp add: squeeze_append frame_space_def)
    then show ?thesis using P by (simp add: takeWhile_append2)
  qed (use P in \<open>simp add: takeWhile_eq_all_conv\<close>)
  then have "goods ?E (takeWhile ?P (z @ y)) = goods ?E b1" using assms(3) goods_squeeze by simp
  moreover have "goods ?E (takeWhile ?P y) = []"
  proof -
    have "\<forall>c\<in>set (takeWhile ?P y). c = 32" using assms(4) by (auto dest: set_takeWhileD)
    then show ?thesis by (rule goods_spaces)
  qed
  ultimately show ?thesis
    by (cases "\<forall>c\<in>set z. ?P c") (auto simp: takeWhile_append takeWhile_eq_all_conv [THEN iffD2])
qed

lemma makeFrame_squeezed:
  assumes typ': "framed_type typ" and brand: "solid brand"
  shows "squeeze False (makeFrame headerMarker typ brand) = makeFrame headerMarker typ brand"
    and "\<exists>u. makeFrame headerMarker typ brand = 66 # u"
proof -
  obtain u v where "type_words typ = [u, v]" "solid u" "solid v" "u \<noteq> []" "v \<noteq> []"
    by (rule type_words [OF typ'])
  then have "\<forall>w\<in>set (frame_words headerMarker typ brand). solid w \<and> w \<noteq> []"
    using markers [of headerMarker] brand SALTPACK by (auto simp: frame_words_def)
  then show "squeeze False (makeFrame headerMarker typ brand) = makeFrame headerMarker typ brand"
    unfolding makeFrame_words [OF typ'] by (rule squeeze_words)
  show "\<exists>u. makeFrame headerMarker typ brand = 66 # u"
    by (rule framed_string [OF typ']) (simp_all add: makeFrame_def headerMarker_def ascii_def armor_strings)
qed

lemma prefix_recognised:
  assumes typ': "framed_type typ" and brand: "brand_ok brand" and start: "binary_start C m mt v"
    and match: "\<not> armor_type_mismatch mt (getStringForType typ)"
    and n: "length (makeFrame headerMarker typ brand) + 47 \<le> n"
  shows "IsSaltpackArmoredPrefix C (take n (armored typ brand m)) = Ok (brand, mt, v)"
proof -
  let ?h = "makeFrame headerMarker typ brand" and ?E = Base62StdEncoding
  obtain k where k: "n = length ?h + 1 + k" "46 \<le> k"
    using n by (intro that [of "n - length ?h - 1"]) simp_all
  let ?ftr = "46 # ([32] @ makeFrame footerMarker typ brand) @ 46 # [10]"
  let ?b1 = "take k (armor_chars m)" and ?b2 = "take (k - length (armor_chars m)) ?ftr"
  have m: "32 \<le> length m" using start by (simp add: binary_start_def)
  have pre: "take n (armored typ brand m) = ?h @ 46 # ?b1 @ ?b2"
    unfolding k(1) by (simp add: armored_parts)
  have hdr: "squeeze False ?h = ?h" "\<exists>u. ?h = 66 # u"
    using makeFrame_squeezed [OF typ' brand_ok_solid [OF brand]] by simp_all
  obtain u where u: "?h = 66 # u" using hdr(2) by blast
  let ?s0 = "squeeze False (take n (armored typ brand m))"
  have s0: "?s0 = ?h @ 46 # squeeze False (?b1 @ ?b2)"
    unfolding pre using squeeze_append [of 46 False ?h] hdr(1) by (simp add: frame_space_def)
  then have "?s0 = 66 # (u @ 46 # squeeze False (?b1 @ ?b2))" using u by (simp only: append_Cons)
  then obtain y where y: "?s0 = TrimSpace ?s0 @ y" "\<forall>c\<in>set y. \<not> is_alnum c \<and> c \<notin> {46, 0xC4, 0xC5, 0xC6}"
    using TrimSpace_end [of 66 "u @ 46 # squeeze False (?b1 @ ?b2)" thesis] by (simp only:) simp
  then have "?h @ 46 # squeeze False (?b1 @ ?b2) = TrimSpace ?s0 @ y" "46 \<notin> set y" using s0 by auto
  then obtain z where z: "TrimSpace ?s0 = ?h @ 46 # z" "squeeze False (?b1 @ ?b2) = z @ y"
    by (rule cut_behind_mark)
  let ?body = "takeWhile (\<lambda>b. is_alnum b \<or> b = 32) z"
  have hd: "match_header (TrimSpace ?s0) = Some (brand, getStringForType typ, ?body)"
    using match_header_made [OF typ'] brand by (simp add: z(1) brand_ok_def)
  have "goods ?E ?body = goods ?E ?b1"
  proof (rule squeezed_body [OF _ _ z(2)])
    show "set ?b1 \<subseteq> set base62EncodeStd \<union> {9, 10, 13, 32, 62}"
      using armor_chars_valid IsValidByte_Base62 by (fastforce dest: in_set_takeD)
    show "?b2 = [] \<or> hd ?b2 = 46" by (simp add: take_Cons')
  qed (use y(2) in blast)
  then have "take 43 (goods ?E ?body) = goods ?E (enc_block ?E (take 32 m))"
    using goods_take_body [OF m k(2)] by simp
  then obtain x e where "decode_spec ?E (goods ?E ?body) = (take 32 m @ x, e)"
    by (rule decode_first [OF _ m])
  then have dec: "DecodeString ?E ?body = Ok (take 32 m @ x, e)"
    using body_decodes match_header_body [OF hd] by simp
  have "IsSaltpackBinarySlice C (take 32 m @ x) = Ok (mt, v)"
    by (rule binary_start_slice [OF start]) (use m in \<open>simp add: min_absorb1\<close>)
  then show ?thesis
    using hd dec m match by (simp add: IsSaltpackArmoredPrefix_def Let_def)
qed

section \<open>Streams\<close>

lemma binary_not_armored:
  assumes "b \<in> {0xC4, 0xC5, 0xC6}"
  shows "IsSaltpackArmoredPrefix C (b # s) = Err ErrNotASaltpackMessage"
proof -
  have b: "\<not> frame_space b" "b \<notin> {9, 10, 11, 12, 13, 32, 0xC2, 0xE1, 0xE2, 0xE3}" "\<not> is_alnum b" "b \<noteq> 66"
    using assms by (auto simp: frame_space_def is_alnum_def)
  obtain y where y: "b # squeeze False s = TrimSpace (b # squeeze False s) @ y"
    "\<forall>c\<in>set y. \<not> is_alnum c \<and> c \<notin> {46, 0xC4, 0xC5, 0xC6}"
    by (rule TrimSpace_end [OF b(2)])
  have "b \<notin> set y" using y(2) assms by auto
  then obtain z where z: "TrimSpace (b # squeeze False s) = b # z"
    using y(1) by (cases "TrimSpace (b # squeeze False s)") auto
  have "match_header (b # z) = None" using b(4) by (simp add: match_header_def has_prefix_def ascii_def)
  moreover have "\<not> few_words 5 (b # z)" using b(3) by (simp add: eval_nat_numeral)
  ultimately show ?thesis
    using b(1) z by (simp add: IsSaltpackArmoredPrefix_def unmatched_header_def)
qed

lemma ClassifyStream_binary:
  assumes "binary_start C m mt v" "23 \<le> bufSize"
  shows "ClassifyStream C bufSize (bytes_input m) = Ok (False, [], mt, v)"
proof -
  have m: "32 \<le> length m" using assms(1) by (simp add: binary_start_def)
  then obtain b r where br: "m = b # r" by (cases m) auto
  have "b \<in> {0xC4, 0xC5, 0xC6}"
    using assms(1) br by (auto simp: binary_start_def bin_tag_bytes_def split: if_splits)
  then have "IsSaltpackArmoredPrefix C (take bufSize m) = Err ErrNotASaltpackMessage"
    "IsSaltpackArmoredPrefix C m = Err ErrNotASaltpackMessage"
    using binary_not_armored assms(2) br by (simp_all add: take_Cons')
  then have "IsSaltpackArmored C bufSize (bytes_input m) = Err ErrNotASaltpackMessage"
    using br assms(2) by (simp add: IsSaltpackArmored_def Peek_def bytes_input_def)
  moreover have "IsSaltpackBinarySlice C (take 23 m) = Ok (mt, v)"
    by (rule binary_start_slice [OF assms(1)]) simp
  then have "IsSaltpackBinary C bufSize (bytes_input m) = Ok (mt, v)"
    using m assms(2)
    by (simp add: IsSaltpackBinary_def Peek_def bytes_input_def minLengthToIdentifyBinarySaltpack_def)
  ultimately show ?thesis by (simp add: ClassifyStream_def)
qed

lemma ClassifyStream_armored:
  assumes "framed_type typ" "brand_ok brand" "binary_start C m mt v"
    "\<not> armor_type_mismatch mt (getStringForType typ)"
    "length (makeFrame headerMarker typ brand) + 47 \<le> bufSize"
  shows "ClassifyStream C bufSize (bytes_input (armored typ brand m)) = Ok (True, brand, mt, v)"
proof -
  let ?a = "armored typ brand m"
  have "fst (Peek bufSize bufSize (bytes_input ?a)) = take bufSize ?a"
    "snd (Peek bufSize bufSize (bytes_input ?a)) \<in> {None, Some EOF}"
    by (simp_all add: Peek_def bytes_input_def)
  moreover have "take bufSize ?a \<noteq> []" using assms(5) by (auto simp: armored_parts)
  ultimately have "IsSaltpackArmored C bufSize (bytes_input ?a) = Ok (brand, mt, v)"
    using prefix_recognised [OF assms]
    by (cases "Peek bufSize bufSize (bytes_input ?a)") (auto simp: IsSaltpackArmored_def)
  then show ?thesis by (simp add: ClassifyStream_def)
qed

section \<open>Properties\<close>

text \<open>
  C34: a message is recognised from its beginning. Through a buffer that holds at least the header
  and 46 bytes of the body, classification tells that a sealed armor is armored, and its brand,
  and in either form the type and version of the message inside.
\<close>

theorem ClassifyStream_recognises:
  assumes "binary_start C m mt v" "framed_type typ"
    and "\<not> armor_type_mismatch mt (getStringForType typ)"
    and "set brand \<subseteq> set base62EncodeStd" "length brand \<le> maxBrandLength"
    and "length (MakeArmorHeader typ brand) + 47 \<le> bufSize"
  shows "\<exists>msg. Armor62Seal m typ brand = Ok msg \<and>
    ClassifyStream C bufSize (bytes_input msg) = Ok (True, brand, mt, v) \<and>
    ClassifyStream C bufSize (bytes_input m) = Ok (False, [], mt, v)"
  using ClassifyStream_armored [of "typ" brand C m mt v bufSize] ClassifyStream_binary [of C m mt v bufSize] assms
  by (simp add: Armor62Seal_text brand_ok_def MakeArmorHeader_def)

text \<open>The MessagePack encoding of a version 2 header, and a codec that reads its first fields.\<close>

definition toy_codec :: header_codec where
  "toy_codec =
     \<lparr>decFormatName = (\<lambda>r. (Inr (take 8 (drop 1 (pending r))), r\<lparr>pending := drop 9 (pending r)\<rparr>)),
      decVersion = (\<lambda>r. (Inr \<lparr>Major = uint (pending r ! 1), Minor = uint (pending r ! 2)\<rparr>,
        r\<lparr>pending := drop 3 (pending r)\<rparr>)),
      decMessageType = (\<lambda>r. (Inr (uint (pending r ! 0)), r\<lparr>pending := drop 1 (pending r)\<rparr>))\<rparr>"

definition toy_message :: bytes where
  "toy_message = [0xC4, 40, 0x96, 0xA8] @ ascii ''saltpack'' @ [0x92, 2, 0, 1] @ replicate 20 7"

lemma toy_message_start: "binary_start toy_codec toy_message MessageTypeAttachedSignature Version2"
  unfolding binary_start_def
  apply (intro conjI)
    apply (simp, simp add: toy_message_def ascii_def)
  apply (rule exI [of _ 2], rule exI [of _ 1], rule exI [of _ "0xA8 # ascii ''saltpack''"],
      rule exI [of _ "[0x92, 2, 0]"], rule exI [of _ "[1]"], rule exI [of _ "replicate 20 7"])
  apply (simp add: toy_message_def toy_codec_def reads_prefix_def bytes_input_def ascii_def FormatName_def
      bin_tag_bytes_def array_tag_bytes_def message_type_defs Version2_def)
  done

theorem ClassifyStream_recognises_witness:
  "\<exists>msg. Armor62Seal toy_message MessageTypeAttachedSignature (ascii ''KEYBASE'') = Ok msg \<and>
    ClassifyStream toy_codec 4096 (bytes_input msg) =
      Ok (True, ascii ''KEYBASE'', MessageTypeAttachedSignature, Version2) \<and>
    ClassifyStream toy_codec 4096 (bytes_input toy_message) =
      Ok (False, [], MessageTypeAttachedSignature, Version2)"
proof (rule ClassifyStream_recognises [OF toy_message_start])
  show "\<not> armor_type_mismatch MessageTypeAttachedSignature (getStringForType MessageTypeAttachedSignature)"
    by (simp add: armor_type_mismatch_def message_type_defs getStringForType_def)
qed (simp_all add: framed_type_def base62_bytes ascii_def maxBrandLength_def MakeArmorHeader_def makeFrame_def
    headerMarker_def FormatName_def ToUpper_def message_type_defs getStringForType_def armor_strings)

text \<open>
  C35: classification does not panic, whatever the stream, the buffer and what the codec makes of
  the bytes: the branch that the source calls a logic error is unreachable.
\<close>

theorem ClassifyStream_no_panic: "ClassifyStream C bufSize stream \<noteq> Panicked"
proof -
  have "IsSaltpackArmored C bufSize stream \<noteq> Panicked"
    using IsSaltpackArmoredPrefix_no_panic by (auto simp: IsSaltpackArmored_def split: prod.split option.split)
  moreover have "IsSaltpackBinary C bufSize stream \<noteq> Panicked"
    using IsSaltpackBinarySlice_no_panic by (auto simp: IsSaltpackBinary_def split: prod.split option.split)
  ultimately show ?thesis
    by (auto simp: ClassifyStream_def bind_out_eq_Panicked split: outcome.split prod.splits)
qed

end
