(* ===== verification/Classify_Open.thy ===== *)
theory Classify_Open
  imports Classify_Props Armor62_Messages Decrypt_Props
begin

text \<open>
  Classification together with the functions that make and open messages: what the sealing
  functions return, binary or armored, goes through \<open>ClassifyEncryptedStreamAndMakeDecoder\<close> with
  any of the receivers' keyrings to a reader of the plaintext.
\<close>

section \<open>The first bytes of a message\<close>

text \<open>
  The codec and the decoders of the first header fields belong together: a header packet with an
  ephemeral key of 32 bytes begins with the tags and the fields that classification looks at, in
  the first 23 bytes. In MessagePack the tag of the byte string takes at most five bytes, that of
  the array one, and the name, version and type thirteen.
\<close>

definition identifies :: "env \<Rightarrow> header_codec \<Rightarrow> bool" where
  "identifies E C \<longleftrightarrow>
     (\<forall>h rest. HFormatName h = FormatName \<longrightarrow> HVersion h \<in> {Version1, Version2} \<longrightarrow>
        HType h \<in> {MessageTypeEncryption, MessageTypeSigncryption} \<longrightarrow> length (Ephemeral h) = 32 \<longrightarrow>
        binary_start C (enc1 E (PBytes (enc1 E (PEncryptionHeader h))) @ rest) (HType h) (HVersion h))"

lemma sealed_message_start:
  assumes "identifies E C" "v = Version1 \<or> v = Version2" "length (boxToKID (boxGetPublicKey eph)) = 32"
  shows "binary_start C (sealed_message E v s eph key rs plaintext) MessageTypeEncryption v"
  using assms by (force simp: identifies_def sealed_message_def Let_def enc_header_def)

lemma signcrypted_message_start:
  assumes "identifies E C" "length (boxToKID (boxGetPublicKey eph)) = 32"
  shows "binary_start C (signcrypted_message E sender eph key rs plaintext) MessageTypeSigncryption Version2"
  using assms by (force simp: identifies_def signcrypted_message_def Let_def sc_header_def)

section \<open>The decoder that is made\<close>

lemma header_fits:
  assumes "brand_ok brand"
  shows "length (makeFrame headerMarker MessageTypeEncryption brand) + 47 \<le> bufioDefaultSize"
  using assms
  by (simp add: brand_ok_def maxBrandLength_def bufioDefaultSize_def makeFrame_def getStringForType_def
      message_type_defs armor_strings headerMarker_def FormatName_def ToUpper_def ascii_def)

lemma encryption_frame:
  assumes "mt \<in> {MessageTypeEncryption, MessageTypeSigncryption}"
  shows "\<not> armor_type_mismatch mt (getStringForType MessageTypeEncryption)"
  using assms by (auto simp: armor_type_mismatch_def message_type_defs getStringForType_def)

lemma type_numbers [simp]: "MessageTypeSigncryption \<noteq> MessageTypeEncryption"
  by (simp add: message_type_defs)

text \<open>Classification sends a message to the decoder of its type, with or without the armor.\<close>

lemma classified_decoder:
  assumes start: "binary_start C m mt v" and brand: "brand_ok brand"
    and mt: "mt \<in> {MessageTypeEncryption, MessageTypeSigncryption}"
  shows "ClassifyEncryptedStreamAndMakeDecoder E C sz (bytes_input m) keyring resolver =
      (if mt = MessageTypeEncryption then make_decrypter E sz (bytes_input m) keyring False v
       else make_opener E sz (bytes_input m) keyring resolver False v)"
    and "ClassifyEncryptedStreamAndMakeDecoder E C sz
        (bytes_input (armored MessageTypeEncryption brand m)) keyring resolver =
      (if mt = MessageTypeEncryption
       then make_decrypter E sz (bytes_input (armored MessageTypeEncryption brand m)) keyring True v
       else make_opener E sz (bytes_input (armored MessageTypeEncryption brand m)) keyring resolver True v)"
proof -
  have "23 \<le> bufioDefaultSize" by (simp add: bufioDefaultSize_def)
  then show "ClassifyEncryptedStreamAndMakeDecoder E C sz (bytes_input m) keyring resolver =
      (if mt = MessageTypeEncryption then make_decrypter E sz (bytes_input m) keyring False v
       else make_opener E sz (bytes_input m) keyring resolver False v)"
    using mt by (auto simp: ClassifyEncryptedStreamAndMakeDecoder_def ClassifyStream_binary [OF start])
  show "ClassifyEncryptedStreamAndMakeDecoder E C sz
        (bytes_input (armored MessageTypeEncryption brand m)) keyring resolver =
      (if mt = MessageTypeEncryption
       then make_decrypter E sz (bytes_input (armored MessageTypeEncryption brand m)) keyring True v
       else make_opener E sz (bytes_input (armored MessageTypeEncryption brand m)) keyring resolver True v)"
    using mt
    by (auto simp: ClassifyEncryptedStreamAndMakeDecoder_def ClassifyStream_armored [OF framed_types(1) brand
          start encryption_frame [OF mt] header_fits [OF brand]])
qed

text \<open>What the two makers return for a message that its binary decoder accepts.\<close>

definition made_decrypter :: "decryptStream chunkReader \<Rightarrow> MessageKeyInfo \<Rightarrow> version \<Rightarrow> bool \<Rightarrow> bytes \<Rightarrow> classified" where
  "made_decrypter src mki v isArmored brand =
     \<lparr>clSource = Some (Decrypts src), clMsgType = MessageTypeEncryption, clMki = Some mki, clSender = None,
      clArmored = isArmored, clBrand = brand, clVersion = v, clErr = None\<rparr>"

definition made_opener :: "signcryptOpenStream chunkReader \<Rightarrow> SigningPublicKey option \<Rightarrow> bool \<Rightarrow> bytes \<Rightarrow> classified" where
  "made_opener src spk isArmored brand =
     \<lparr>clSource = Some (Opens src), clMsgType = MessageTypeSigncryption, clMki = None, clSender = spk,
      clArmored = isArmored, clBrand = brand, clVersion = Version2, clErr = None\<rparr>"

lemma make_decrypter_made:
  assumes "NewDecryptStream E CheckKnownMajorVersion (bytes_input m) (Keyring.truncate keyring) = Ret (Inr src) mki"
    and "brand_ok brand" "\<forall>i. 0 < sz i"
  shows "make_decrypter E sz (bytes_input m) keyring False v = Some (Ok (made_decrypter src mki v False []))"
    and "make_decrypter E sz (bytes_input (armored MessageTypeEncryption brand m)) keyring True v =
      Some (Ok (made_decrypter src mki v True brand))"
  using assms
  by (simp_all add: make_decrypter_def made_decrypter_def NewDearmor62DecryptStream_def dearmored_input_armored)

lemma make_opener_made:
  assumes "NewSigncryptOpenStream E (bytes_input m) keyring resolver = Ok (spk, src)"
    and "brand_ok brand" "\<forall>i. 0 < sz i"
  shows "make_opener E sz (bytes_input m) keyring resolver False Version2 =
      Some (Ok (made_opener src spk False []))"
    and "make_opener E sz (bytes_input (armored MessageTypeEncryption brand m)) keyring resolver True Version2 =
      Some (Ok (made_opener src spk True brand))"
  using assms
  by (simp_all add: make_opener_def made_opener_def NewDearmor62SigncryptOpenStream_def dearmored_input_armored)

lemma sealed_source:
  assumes "Open E grow vv m ring = Some (Ret (Inr plaintext) (Some mki))"
  obtains src r where "NewDecryptStream E vv (bytes_input m) ring = Ret (Inr src) mki"
    "ReadAll grow (chunkReader_Read (decryptStream_getNextChunk E)) src = Some (Ret (plaintext, None) r)"
proof -
  obtain ds r where "readHeader E vv ring (newDecryptStream (bytes_input m)) = Ret None ds"
    "Some mki = Some (dsMki ds)"
    "ReadAll grow (chunkReader_Read (decryptStream_getNextChunk E)) (newChunkReader ds) =
       Some (Ret (plaintext, None) r)"
    using Open_Ok [OF assms] .
  then show thesis by (intro that [of "newChunkReader ds" r]) (simp_all add: NewDecryptStream_def)
qed

lemma signcrypted_source:
  assumes "SigncryptOpen E grow m keyring resolver = Some (Ok (spk, plaintext))"
  obtains src r where "NewSigncryptOpenStream E (bytes_input m) keyring resolver = Ok (spk, src)"
    "ReadAll grow (chunkReader_Read (signcrypt_getNextChunk E)) src = Some (Ret (plaintext, None) r)"
proof -
  obtain s r where "signcrypt_readHeader E keyring resolver (new_open_stream (bytes_input m)) = Ok s"
    "soSigningPublicKey s = spk"
    "ReadAll grow (chunkReader_Read (signcrypt_getNextChunk E)) (newChunkReader s) = Some (Ret (plaintext, None) r)"
    using SigncryptOpen_Ok [OF assms] .
  then show thesis by (intro that [of "newChunkReader s" r]) (simp_all add: NewSigncryptOpenStream_def)
qed

section \<open>Sealed messages are opened\<close>

lemma seal_classified:
  assumes law: "identifies E C" and codec: "codec_ok E" and box: "secretbox_ok E"
    and v: "v = Version1 \<or> v = Version2" and grow: "\<forall>c. c < grow c" and sz: "\<forall>i. 0 < sz i"
    and receivers: "checkEncryptReceivers receivers = None"
    and run: "shuffleEncryptReceivers receivers rand = Ret (Inr rs) r1"
      "create (receivers ! 0) r1 = (Inr eph, r2)" "newRandomSymmetricKey r2 = (Inr key, r3)"
    and keys: "keys_ok sender s eph sk (Keyring.truncate keyring) (set receivers)"
    and short: "length plaintext < 2 ^ 64 - 1" and kid: "length (boxToKID (boxGetPublicKey eph)) = 32"
    and brand: "brand_ok brand"
  obtains m src mki r where "Seal E create v plaintext sender receivers rand = Ok m"
    "ClassifyEncryptedStreamAndMakeDecoder E C sz (bytes_input m) keyring resolver =
       Some (Ok (made_decrypter src mki v False []))"
    "ClassifyEncryptedStreamAndMakeDecoder E C sz
         (bytes_input (armored MessageTypeEncryption brand m)) keyring resolver =
       Some (Ok (made_decrypter src mki v True brand))"
    "ReadAll grow (chunkReader_Read (decryptStream_getNextChunk E)) src = Some (Ret (plaintext, None) r)"
    "info_for sender s sk mki"
proof -
  have valid: "CheckKnownMajorVersion v = None" using v by (auto simp: CheckKnownMajorVersion_None)
  obtain m mki where m: "Seal E create v plaintext sender receivers rand = Ok m"
    "Open E grow CheckKnownMajorVersion m (Keyring.truncate keyring) = Some (Ret (Inr plaintext) (Some mki))"
    "info_for sender s sk mki"
    using sealed_opens [where versionValidator = CheckKnownMajorVersion and create = create,
        OF codec box v valid grow receivers run keys short] by blast
  have s: "s = (case sender of None \<Rightarrow> eph | Some x \<Rightarrow> x)" using keys by (simp add: keys_ok_def)
  have "receivers \<noteq> []" using receivers by (simp add: checkEncryptReceivers_None)
  then have "m = sealed_message E v s eph key rs plaintext"
    using m(1) default_rng.seal_message(1) [where create = "create (receivers ! 0)" and r = rand and
        sender = sender, OF codec box v receivers _ run(2) _ s keys_okD(3,4) [OF keys] short,
        unfolded defaultEncryptRNG_def encryptRNG.select_convs, OF run(1,3)]
    by (simp add: Seal_def receiversToEphemeralKeyCreator_def defaultEncryptRNG_def)
  then have start: "binary_start C m MessageTypeEncryption v" using sealed_message_start [OF law v kid] by simp
  obtain src r where src: "NewDecryptStream E CheckKnownMajorVersion (bytes_input m) (Keyring.truncate keyring) =
      Ret (Inr src) mki"
    "ReadAll grow (chunkReader_Read (decryptStream_getNextChunk E)) src = Some (Ret (plaintext, None) r)"
    by (rule sealed_source [OF m(2)])
  show thesis
    by (rule that [OF m(1) _ _ src(2) m(3)])
      (simp_all add: classified_decoder [OF start brand] make_decrypter_made [OF src(1) brand sz])
qed

lemma signcrypt_classified:
  assumes law: "identifies E C" and codec: "codec_ok E" and box: "secretbox_ok E"
    and grow: "\<forall>c. c < grow c" and sz: "\<forall>i. 0 < sz i"
    and receivers: "checkSigncryptReceivers boxKeys symmetricKeys = Ok ()"
    and run: "shuffleSigncryptReceivers boxKeys symmetricKeys rand = Ret (Inr rs) r1"
      "create r1 = (Inr eph, r2)" "newRandomSymmetricKey r2 = (Inr key, r3)"
    and keys: "sc_keys_ok sender spk eph keyring resolver
      (receiverBoxKey ` set boxKeys \<union> receiverSymmetric ` set symmetricKeys)"
    and short: "length plaintext < 2 ^ 64 - 1" and kid: "length (boxToKID (boxGetPublicKey eph)) = 32"
    and brand: "brand_ok brand"
  obtains m src r where "SigncryptSeal E plaintext create sender boxKeys symmetricKeys rand = Ok m"
    "ClassifyEncryptedStreamAndMakeDecoder E C sz (bytes_input m) keyring resolver =
       Some (Ok (made_opener src spk False []))"
    "ClassifyEncryptedStreamAndMakeDecoder E C sz
         (bytes_input (armored MessageTypeEncryption brand m)) keyring resolver =
       Some (Ok (made_opener src spk True brand))"
    "ReadAll grow (chunkReader_Read (signcrypt_getNextChunk E)) src = Some (Ret (plaintext, None) r)"
proof -
  obtain m where m: "SigncryptSeal E plaintext create sender boxKeys symmetricKeys rand = Ok m"
    "SigncryptOpen E grow m keyring resolver = Some (Ok (spk, plaintext))"
    using signcrypted_opens [where create = create, OF codec box grow receivers run keys short] by blast
  have len: "box_lengths eph" "sender_ok sender spk" using keys by (simp_all add: sc_keys_ok_def)
  have "m = signcrypted_message E sender eph key rs plaintext"
    using m(1) default_sc_rng.signcryptSeal_message(1) [where create = create and r = rand,
      OF codec box receivers _ run(2) _ len short, unfolded defaultSigncryptRNG_def signcryptRNG.select_convs,
      OF run(1,3)]
    by (simp add: SigncryptSeal_def defaultSigncryptRNG_def)
  then have start: "binary_start C m MessageTypeSigncryption Version2"
    using signcrypted_message_start [OF law kid] by simp
  obtain src r where src: "NewSigncryptOpenStream E (bytes_input m) keyring resolver = Ok (spk, src)"
    "ReadAll grow (chunkReader_Read (signcrypt_getNextChunk E)) src = Some (Ret (plaintext, None) r)"
    by (rule signcrypted_source [OF m(2)])
  show thesis
    by (rule that [OF m(1) _ _ src(2)])
      (simp_all add: classified_decoder [OF start brand] make_opener_made [OF src(1) brand sz])
qed

section \<open>An example codec\<close>

text \<open>
  The codec of \<open>toy_env\<close> with byte strings and encryption headers that begin as MessagePack has
  them: a \<open>bin\<close> tag of five bytes, and an array with the name, version and type in front.
\<close>

definition mp_put_bytes :: "bytes \<Rightarrow> bytes" where
  "mp_put_bytes b = [0xC6, 0, 0, 0, of_nat (length (take 18 b))] @ take 18 b @ put_bytes (drop 18 b)"

definition mp_get_bytes :: "bytes parser" where
  "mp_get_bytes bs =
     (let n = unat (bs ! 4)
      in if length bs < 5 + n then None
         else map_option (\<lambda>(x, r). (take n (drop 5 bs) @ x, r)) (get_bytes (drop (5 + n) bs)))"

definition mp_put_header :: "EncryptionHeader \<Rightarrow> bytes" where
  "mp_put_header h =
     [0x96, 0xA8] @ take 8 (HFormatName h @ replicate 8 0) @
     [0x92, of_int (Major (HVersion h)), of_int (Minor (HVersion h)), of_int (HType h)] @ put_encheader h"

definition mp_env :: env where
  "mp_env = toy_env\<lparr>marshal := (\<lambda>p. Inr (case p of
       PBytes b \<Rightarrow> mp_put_bytes b | PEncryptionHeader h \<Rightarrow> mp_put_header h | _ \<Rightarrow> toy_marshal p)),
     decBytes := decode_with mp_get_bytes,
     unmarshalEncryptionHeader := (\<lambda>bs. unmarshal_with get_encheader (drop 14 bs))\<rparr>"

lemma parses_mp_bytes: "parses mp_put_bytes mp_get_bytes"
proof -
  have "mp_get_bytes ([0xC6, 0, 0, 0, of_nat (length a)] @ a @ put_bytes b @ rest) = Some (a @ b, rest)"
    if "length a \<le> 18" for a b rest
  proof -
    have "unat (of_nat (length a) :: byte) = length a" using that by (simp add: unat_of_nat)
    moreover have "drop (5 + length a) ([0xC6, 0, 0, 0, n] @ a @ put_bytes b @ rest) = put_bytes b @ rest" for n
      by (simp add: add.commute [of 5 "length a"] drop_drop [symmetric] del: drop_drop)
    ultimately show ?thesis
      using parsesD [OF parses_bytes, of b rest] by (simp add: mp_get_bytes_def Let_def)
  qed
  from this [of "take 18 x" "drop 18 x" rest for x rest] show ?thesis
    by (simp add: parses_def mp_put_bytes_def)
qed

lemma mp_header_body: "drop 14 (mp_put_header h) = put_encheader h"
proof -
  have "length (take 8 (HFormatName h @ replicate 8 0)) = 8" by simp
  then obtain x where "take 8 (HFormatName h @ replicate 8 0) = x" "length x = 8" by blast
  then show ?thesis by (simp add: mp_put_header_def)
qed

lemma mp_codec_ok [simp]: "codec_ok mp_env"
proof -
  have same: "reads_back mp_env con dec" if "reads_back toy_env con dec"
    "\<And>x b. con x \<noteq> PBytes b" "\<And>x h. con x \<noteq> PEncryptionHeader h" for con :: "'a \<Rightarrow> packet" and dec
  proof -
    have "marshal mp_env (con x) = marshal toy_env (con x)" for x
      using that(2,3) by (cases "con x") (auto simp: mp_env_def toy_env_def)
    then show ?thesis using that(1) by (simp add: reads_back_def)
  qed
  note toy = codec_okD [OF toy_codec_ok]
  have "reads_back mp_env PBytes (decBytes mp_env)"
    using parsesD [OF parses_mp_bytes] by (simp add: reads_back_def mp_env_def decode_with_def)
  moreover have "unmarshalEncryptionHeader mp_env (mp_put_header h) = Inr h" for h
    using parsesD [OF parses_packets(2), of h "[]"]
    by (simp add: mp_env_def mp_header_body unmarshal_with_def)
  moreover have "stops_at_end (decAny mp_env)" using toy(8) by (simp add: mp_env_def)
  moreover have "\<exists>bs. marshal mp_env p = Inr bs" for p by (simp add: mp_env_def)
  moreover have "marshal mp_env (PSignatureHeader h) = Inr bs \<longrightarrow> unmarshalSignatureHeader mp_env bs = Inr h" for h bs
    using toy(10) [of h bs] by (simp add: mp_env_def toy_env_def)
  moreover have "decSignatureV1 mp_env = decSignatureV1 toy_env" "decSignatureV2 mp_env = decSignatureV2 toy_env"
    "decEncryptionV1 mp_env = decEncryptionV1 toy_env" "decEncryptionV2 mp_env = decEncryptionV2 toy_env"
    "decSigncryption mp_env = decSigncryption toy_env" "marshal mp_env (PEncryptionHeader h) = Inr (mp_put_header h)" for h
    by (simp_all add: mp_env_def)
  ultimately show ?thesis
    using same [OF toy(3)] same [OF toy(4)] same [OF toy(5)] same [OF toy(6)] same [OF toy(7)]
    by (simp add: codec_ok_def)
qed

lemma mp_secretbox_ok [simp]: "secretbox_ok mp_env"
  using toy_secretbox_ok by (simp add: secretbox_ok_def mp_env_def)

lemma mp_identifies: "identifies mp_env toy_codec"
  unfolding identifies_def
proof (intro allI impI)
  fix h :: EncryptionHeader and rest
  assume name: "HFormatName h = FormatName" and v: "HVersion h \<in> {Version1, Version2}"
    and t: "HType h \<in> {MessageTypeEncryption, MessageTypeSigncryption}" and eph: "length (Ephemeral h) = 32"
  let ?p = "[0x96, 0xA8] @ FormatName @ [0x92, of_int (Major (HVersion h)), of_int (Minor (HVersion h)),
    of_int (HType h)]"
  have p: "length ?p = 14" "take 8 (HFormatName h @ replicate 8 0) = FormatName"
    by (simp_all add: name FormatName_def ascii_def)
  have "32 \<le> length (put_encheader h)"
    by (simp add: put_encheader_def put_pair_def put_bytes_def put_nat_def eph)
  then obtain x y where xy: "put_encheader h = x @ y" "length x = 4" "28 \<le> length y"
    by (intro that [of "take 4 (put_encheader h)" "drop 4 (put_encheader h)"]) simp_all
  let ?m = "enc1 mp_env (PBytes (enc1 mp_env (PEncryptionHeader h))) @ rest"
  have hb: "enc1 mp_env (PEncryptionHeader h) = (?p @ x) @ y"
    unfolding append_assoc xy(1) [symmetric]
    by (simp add: enc1_def mp_env_def mp_put_header_def name FormatName_def ascii_def)
  have "length (?p @ x) = 18" by (simp add: xy(2) FormatName_def ascii_def)
  then have mp: "mp_put_bytes ((?p @ x) @ y) = [0xC6, 0, 0, 0, 18] @ (?p @ x) @ put_bytes y"
    unfolding mp_put_bytes_def by (simp del: append_assoc)
  have m: "?m = [0xC6, 0, 0, 0, 18] @ ?p @ x @ put_bytes y @ rest"
    unfolding hb using mp by (simp add: enc1_def mp_env_def)
  have name': "FormatName = ascii ''saltpack''" by (simp add: FormatName_def)
  have nums: "uint (of_int (Major (HVersion h)) :: byte) = Major (HVersion h)"
    "uint (of_int (Minor (HVersion h)) :: byte) = Minor (HVersion h)"
    "uint (of_int (HType h) :: byte) = HType h"
    using v t by (auto simp: Version1_def Version2_def message_type_defs)
  show "binary_start toy_codec ?m (HType h) (HVersion h)"
    unfolding binary_start_def
  proof (intro conjI)
    show "HType h \<in> {MessageTypeEncryption, MessageTypeSigncryption, MessageTypeAttachedSignature,
        MessageTypeDetachedSignature}" using t by auto
    show "32 \<le> length ?m"
      unfolding m using xy(3) by (simp add: put_bytes_def)
    show "\<exists>k j fs vs ts r. bin_tag_bytes (?m ! 0) = Some k \<and> array_tag_bytes (?m ! k) = Some j \<and>
        drop (k + j) ?m = fs @ vs @ ts @ r \<and> k + j + length (fs @ vs @ ts) \<le> 23 \<and>
        reads_prefix (decFormatName toy_codec) fs FormatName \<and>
        reads_prefix (decVersion toy_codec) vs (HVersion h) \<and>
        reads_prefix (decMessageType toy_codec) ts (HType h)"
      unfolding m
      by (rule exI [of _ 5], rule exI [of _ 1], rule exI [of _ "0xA8 # FormatName"],
          rule exI [of _ "[0x92, of_int (Major (HVersion h)), of_int (Minor (HVersion h))]"],
          rule exI [of _ "[of_int (HType h)]"], rule exI [of _ "x @ put_bytes y @ rest"])
        (simp add: bin_tag_bytes_def array_tag_bytes_def name' ascii_def toy_codec_def reads_prefix_def
          bytes_input_def nums)
  qed
qed

section \<open>Properties\<close>

text \<open>
  C32: what is encrypted is found and opened: \<open>ClassifyEncryptedStreamAndMakeDecoder\<close> makes, from
  what \<open>Seal\<close> or \<open>EncryptArmor62Seal\<close> returns and any of the receivers' keyrings, a reader that
  delivers the plaintext and nothing else, and tells the form, the brand, the version and the
  key information.
\<close>

theorem Classify_opens_encrypted:
  assumes "identifies E C" "codec_ok E" "secretbox_ok E"
    and "v = Version1 \<or> v = Version2" "\<forall>c. c < grow c" "\<forall>i. 0 < sz i"
    and "checkEncryptReceivers receivers = None"
    and "shuffleEncryptReceivers receivers rand = Ret (Inr rs) r1"
      "create (receivers ! 0) r1 = (Inr eph, r2)" "newRandomSymmetricKey r2 = (Inr key, r3)"
    and "keys_ok sender s eph sk (Keyring.truncate keyring) (set receivers)"
    and "length plaintext < 2 ^ 64 - 1" "length (boxToKID (boxGetPublicKey eph)) = 32"
    and "set brand \<subseteq> set base62EncodeStd" "length brand \<le> maxBrandLength"
  shows "\<exists>m a src mki r. Seal E create v plaintext sender receivers rand = Ok m \<and>
    EncryptArmor62Seal E sizes create v plaintext sender receivers brand rand = Ok a \<and>
    ClassifyEncryptedStreamAndMakeDecoder E C sz (bytes_input m) keyring resolver =
      Some (Ok (made_decrypter src mki v False [])) \<and>
    ClassifyEncryptedStreamAndMakeDecoder E C sz (bytes_input a) keyring resolver =
      Some (Ok (made_decrypter src mki v True brand)) \<and>
    ReadAll grow (chunkReader_Read (decryptStream_getNextChunk E)) src = Some (Ret (plaintext, None) r) \<and>
    info_for sender s sk mki"
proof -
  have brand: "brand_ok brand" using assms(14,15) by (simp add: brand_ok_def)
  obtain m src mki r where m: "Seal E create v plaintext sender receivers rand = Ok m"
    and rest: "ClassifyEncryptedStreamAndMakeDecoder E C sz (bytes_input m) keyring resolver =
       Some (Ok (made_decrypter src mki v False []))"
    "ClassifyEncryptedStreamAndMakeDecoder E C sz
         (bytes_input (armored MessageTypeEncryption brand m)) keyring resolver =
       Some (Ok (made_decrypter src mki v True brand))"
    "ReadAll grow (chunkReader_Read (decryptStream_getNextChunk E)) src = Some (Ret (plaintext, None) r)"
    "info_for sender s sk mki"
    by (rule seal_classified [where create = create and resolver = resolver, OF assms(1-13) brand])
  have "EncryptArmor62Seal E sizes create v plaintext sender receivers brand rand =
      Ok (armored MessageTypeEncryption brand m)"
    using m by (simp add: EncryptArmor62Seal_armor Armor62Seal_text)
  with m rest show ?thesis by blast
qed

theorem Classify_opens_encrypted_witness:
  "\<exists>m a src mki r. Seal mp_env (\<lambda>_ r. (Inr (toy_boxsk 9 False), r)) Version2 [1, 2, 3]
       (Some (toy_boxsk 5 False)) [toy_boxpk 1 False, toy_boxpk 2 True] (bytes_input (replicate 36 1)) = Ok m \<and>
     EncryptArmor62Seal mp_env (\<lambda>_. [1]) (\<lambda>_ r. (Inr (toy_boxsk 9 False), r)) Version2 [1, 2, 3]
       (Some (toy_boxsk 5 False)) [toy_boxpk 1 False, toy_boxpk 2 True] (ascii ''KEYBASE'')
       (bytes_input (replicate 36 1)) = Ok a \<and>
     ClassifyEncryptedStreamAndMakeDecoder mp_env toy_codec Suc (bytes_input m)
       (Keyring.extend (toy_ring (toy_boxsk 2 True)) (SigncryptKeyring.fields (\<lambda>_. None))) None =
       Some (Ok (made_decrypter src mki Version2 False [])) \<and>
     ClassifyEncryptedStreamAndMakeDecoder mp_env toy_codec Suc (bytes_input a)
       (Keyring.extend (toy_ring (toy_boxsk 2 True)) (SigncryptKeyring.fields (\<lambda>_. None))) None =
       Some (Ok (made_decrypter src mki Version2 True (ascii ''KEYBASE''))) \<and>
     ReadAll Suc (chunkReader_Read (decryptStream_getNextChunk mp_env)) src = Some (Ret ([1, 2, 3], None) r) \<and>
     info_for (Some (toy_boxsk 5 False)) (toy_boxsk 5 False) (toy_boxsk 2 True) mki"
proof (rule Classify_opens_encrypted [OF mp_identifies _ _ _ _ _ _ toy_shuffle _ toy_key])
  have "Keyring.truncate (Keyring.extend (toy_ring (toy_boxsk 2 True)) (SigncryptKeyring.fields (\<lambda>_. None))) =
      toy_ring (toy_boxsk 2 True)"
    by (simp add: Keyring.defs SigncryptKeyring.defs)
  then show "keys_ok (Some (toy_boxsk 5 False)) (toy_boxsk 5 False) (toy_boxsk 9 False) (toy_boxsk 2 True)
      (Keyring.truncate (Keyring.extend (toy_ring (toy_boxsk 2 True)) (SigncryptKeyring.fields (\<lambda>_. None))))
      (set [toy_boxpk 1 False, toy_boxpk 2 True])"
    using toy_keys_ok by (simp only: list.set)
qed (simp_all add: checkEncryptReceivers_None maxReceiverCount_def base62_bytes ascii_def maxBrandLength_def)

text \<open>
  C33: the same for signcrypted messages: the reader that is made delivers the plaintext, and the
  sender's key is told.
\<close>

theorem Classify_opens_signcrypted:
  assumes "identifies E C" "codec_ok E" "secretbox_ok E" "\<forall>c. c < grow c" "\<forall>i. 0 < sz i"
    and "checkSigncryptReceivers boxKeys symmetricKeys = Ok ()"
    and "shuffleSigncryptReceivers boxKeys symmetricKeys rand = Ret (Inr rs) r1"
      "create r1 = (Inr eph, r2)" "newRandomSymmetricKey r2 = (Inr key, r3)"
    and "sc_keys_ok sender spk eph keyring resolver
      (receiverBoxKey ` set boxKeys \<union> receiverSymmetric ` set symmetricKeys)"
    and "length plaintext < 2 ^ 64 - 1" "length (boxToKID (boxGetPublicKey eph)) = 32"
    and "set brand \<subseteq> set base62EncodeStd" "length brand \<le> maxBrandLength"
  shows "\<exists>m a src r. SigncryptSeal E plaintext create sender boxKeys symmetricKeys rand = Ok m \<and>
    SigncryptArmor62Seal E sizes plaintext create sender boxKeys symmetricKeys brand rand = Ok a \<and>
    ClassifyEncryptedStreamAndMakeDecoder E C sz (bytes_input m) keyring resolver =
      Some (Ok (made_opener src spk False [])) \<and>
    ClassifyEncryptedStreamAndMakeDecoder E C sz (bytes_input a) keyring resolver =
      Some (Ok (made_opener src spk True brand)) \<and>
    ReadAll grow (chunkReader_Read (signcrypt_getNextChunk E)) src = Some (Ret (plaintext, None) r)"
proof -
  have brand: "brand_ok brand" using assms(13,14) by (simp add: brand_ok_def)
  obtain m src r where m: "SigncryptSeal E plaintext create sender boxKeys symmetricKeys rand = Ok m"
    and rest: "ClassifyEncryptedStreamAndMakeDecoder E C sz (bytes_input m) keyring resolver =
       Some (Ok (made_opener src spk False []))"
    "ClassifyEncryptedStreamAndMakeDecoder E C sz
         (bytes_input (armored MessageTypeEncryption brand m)) keyring resolver =
       Some (Ok (made_opener src spk True brand))"
    "ReadAll grow (chunkReader_Read (signcrypt_getNextChunk E)) src = Some (Ret (plaintext, None) r)"
    by (rule signcrypt_classified [where create = create, OF assms(1-12) brand])
  have "SigncryptArmor62Seal E sizes plaintext create sender boxKeys symmetricKeys brand rand =
      Ok (armored MessageTypeEncryption brand m)"
    using m by (simp add: SigncryptArmor62Seal_armor Armor62Seal_text)
  with m rest show ?thesis by blast
qed

theorem Classify_opens_signcrypted_witness:
  "\<exists>m a src r. SigncryptSeal mp_env [1, 2, 3] (\<lambda>r. (Inr (toy_boxsk 9 False), r)) (Some (toy_sigsk64 5)) []
       [toy_receiver] (bytes_input (replicate 32 1)) = Ok m \<and>
     SigncryptArmor62Seal mp_env (\<lambda>_. [1]) [1, 2, 3] (\<lambda>r. (Inr (toy_boxsk 9 False), r))
       (Some (toy_sigsk64 5)) [] [toy_receiver] (ascii ''KEYBASE'') (bytes_input (replicate 32 1)) = Ok a \<and>
     ClassifyEncryptedStreamAndMakeDecoder mp_env toy_codec Suc (bytes_input m) toy_sc_ring
       (Some (toy_resolver toy_receiver)) = Some (Ok (made_opener src (Some (toy_sigpk64 5)) False [])) \<and>
     ClassifyEncryptedStreamAndMakeDecoder mp_env toy_codec Suc (bytes_input a) toy_sc_ring
       (Some (toy_resolver toy_receiver)) =
       Some (Ok (made_opener src (Some (toy_sigpk64 5)) True (ascii ''KEYBASE''))) \<and>
     ReadAll Suc (chunkReader_Read (signcrypt_getNextChunk mp_env)) src = Some (Ret ([1, 2, 3], None) r)"
proof (rule Classify_opens_signcrypted [OF mp_identifies _ _ _ _ toy_sc_receivers toy_sc_shuffle _ toy_key])
  show "sc_keys_ok (Some (toy_sigsk64 5)) (Some (toy_sigpk64 5)) (toy_boxsk 9 False) toy_sc_ring
     (Some (toy_resolver toy_receiver)) (receiverBoxKey ` set [] \<union> receiverSymmetric ` set [toy_receiver])"
    using toy_sc_keys_ok by simp
qed (simp_all add: base62_bytes ascii_def maxBrandLength_def)

end
