(* ===== verification/Basic_Keyring.thy ===== *)
theory Basic_Keyring
  imports Signcrypt_Open "HOL-Library.AList"
begin

text \<open>
  \<open>basic/key.go\<close>: the keys and the keyring that the repository provides. NaCl's box and Ed25519
  are parameters. A Go array is a byte list of its length; a Go map is an association list with
  distinct keys, and the order in which it is iterated a parameter. \<open>Basic_Keyring_Props\<close> shows the
  invariant of the keyring and what its lookups return, \<open>Basic_Messages\<close> that messages for its keys open.
\<close>

section \<open>NaCl\<close>

text \<open>\<open>golang.org/x/crypto/nacl/box\<close> and \<open>ed25519\<close>.\<close>

record nacl =
  nGenerateKey :: "input \<Rightarrow> (err + bytes \<times> bytes) \<times> input"
  nSeal :: "bytes \<Rightarrow> bytes \<Rightarrow> bytes \<Rightarrow> bytes \<Rightarrow> bytes"
  nOpen :: "bytes \<Rightarrow> bytes \<Rightarrow> bytes \<Rightarrow> bytes \<Rightarrow> bytes option"
  nPrecompute :: "bytes \<Rightarrow> bytes \<Rightarrow> bytes"
  nSealAfter :: "bytes \<Rightarrow> bytes \<Rightarrow> bytes \<Rightarrow> bytes"
  nOpenAfter :: "bytes \<Rightarrow> bytes \<Rightarrow> bytes \<Rightarrow> bytes option"
  edGenerateKey :: "input \<Rightarrow> (err + bytes \<times> bytes) \<times> input"
  edSign :: "bytes \<Rightarrow> bytes \<Rightarrow> bytes"
  edVerify :: "bytes \<Rightarrow> bytes \<Rightarrow> bytes \<Rightarrow> bool"

text \<open>\<open>box.GenerateKey\<close> returns arrays of 32 bytes.\<close>

definition nacl_arrays :: "nacl \<Rightarrow> bool" where
  "nacl_arrays N \<longleftrightarrow>
     (\<forall>r pub sec r'. nGenerateKey N r = (Inr (pub, sec), r') \<longrightarrow> length pub = 32 \<and> length sec = 32)"

section \<open>Box keys\<close>

record PublicKey = RawBoxKey :: bytes

record SecretKey =
  skSec :: bytes
  skPub :: PublicKey

definition NewSecretKey :: "bytes \<Rightarrow> bytes \<Rightarrow> SecretKey" where
  "NewSecretKey pub sec = \<lparr>skSec = sec, skPub = \<lparr>RawBoxKey = pub\<rparr>\<rparr>"

definition generateBoxKey :: "nacl \<Rightarrow> input \<Rightarrow> (err + SecretKey) \<times> input" where
  "generateBoxKey N rand =
     (case nGenerateKey N rand of
        (Inl e, rand') \<Rightarrow> (Inl e, rand')
      | (Inr (pub, priv), rand') \<Rightarrow> (Inr (NewSecretKey pub priv), rand'))"

definition ToKID :: "PublicKey \<Rightarrow> bytes" where "ToKID k = RawBoxKey k"
definition ToRawBoxKeyPointer :: "PublicKey \<Rightarrow> bytes" where "ToRawBoxKeyPointer k = RawBoxKey k"
definition HideIdentity :: "PublicKey \<Rightarrow> bool" where "HideIdentity k = False"

text \<open>The methods of a public key, as the interface the package uses.\<close>

definition public_key :: "PublicKey \<Rightarrow> BoxPublicKey" where
  "public_key k = \<lparr>boxToKID = ToKID k, boxRaw = ToRawBoxKeyPointer k, boxHideIdentity = HideIdentity k\<rparr>"

definition SharedKey_Box :: "nacl \<Rightarrow> bytes \<Rightarrow> bytes \<Rightarrow> bytes \<Rightarrow> bytes" where
  "SharedKey_Box N k nonce msg = nSealAfter N msg nonce k"

definition SharedKey_Unbox :: "nacl \<Rightarrow> bytes \<Rightarrow> bytes \<Rightarrow> bytes \<Rightarrow> err + bytes" where
  "SharedKey_Unbox N k nonce msg =
     (case nOpenAfter N msg nonce k of None \<Rightarrow> Inl ErrDecryptionFailed | Some ret \<Rightarrow> Inr ret)"

definition SecretKey_Box :: "nacl \<Rightarrow> SecretKey \<Rightarrow> BoxPublicKey \<Rightarrow> bytes \<Rightarrow> bytes \<Rightarrow> bytes" where
  "SecretKey_Box N k receiver nonce msg = nSeal N msg nonce (boxRaw receiver) (skSec k)"

definition SecretKey_Unbox :: "nacl \<Rightarrow> SecretKey \<Rightarrow> BoxPublicKey \<Rightarrow> bytes \<Rightarrow> bytes \<Rightarrow> err + bytes" where
  "SecretKey_Unbox N k sender nonce msg =
     (case nOpen N msg nonce (boxRaw sender) (skSec k) of
        None \<Rightarrow> Inl ErrDecryptionFailed
      | Some ret \<Rightarrow> Inr ret)"

definition Precompute :: "nacl \<Rightarrow> SecretKey \<Rightarrow> BoxPublicKey \<Rightarrow> BoxPrecomputedSharedKey" where
  "Precompute N k peer =
     (let res = nPrecompute N (boxRaw peer) (skSec k)
      in \<lparr>sharedUnbox = SharedKey_Unbox N res, sharedBox = SharedKey_Box N res\<rparr>)"

definition secret_key :: "nacl \<Rightarrow> SecretKey \<Rightarrow> BoxSecretKey" where
  "secret_key N k =
     \<lparr>boxBox = SecretKey_Box N k, boxUnbox = SecretKey_Unbox N k, boxGetPublicKey = public_key (skPub k),
      boxPrecompute = Precompute N k\<rparr>"

definition CreateEphemeralKey :: "nacl \<Rightarrow> input \<Rightarrow> (err + BoxSecretKey) \<times> input" where
  "CreateEphemeralKey N rand =
     (case generateBoxKey N rand of
        (Inl e, rand') \<Rightarrow> (Inl e, rand')
      | (Inr sk, rand') \<Rightarrow> (Inr (secret_key N sk), rand'))"

definition GetRawPublicKey :: "SecretKey \<Rightarrow> bytes" where "GetRawPublicKey k = RawBoxKey (skPub k)"
definition GetRawSecretKey :: "SecretKey \<Rightarrow> bytes" where "GetRawSecretKey k = skSec k"

section \<open>Signing keys\<close>

record BasicSigningSecretKey =
  sgPub :: bytes
  sgSec :: bytes

definition NewSigningSecretKey :: "bytes \<Rightarrow> bytes \<Rightarrow> BasicSigningSecretKey" where
  "NewSigningSecretKey pub sec = \<lparr>sgPub = pub, sgSec = sec\<rparr>"

definition NewSigningPublicKey :: "bytes \<Rightarrow> bytes" where "NewSigningPublicKey pub = pub"

definition SigningPublicKey_Verify :: "nacl \<Rightarrow> bytes \<Rightarrow> bytes \<Rightarrow> bytes \<Rightarrow> err option" where
  "SigningPublicKey_Verify N k msg sig = (if \<not> edVerify N k msg sig then Some ErrBadSignature else None)"

definition signing_public_key :: "nacl \<Rightarrow> bytes \<Rightarrow> SigningPublicKey" where
  "signing_public_key N k = \<lparr>sigToKID = k, sigVerify = SigningPublicKey_Verify N k\<rparr>"

definition signing_secret_key :: "nacl \<Rightarrow> BasicSigningSecretKey \<Rightarrow> SigningSecretKey" where
  "signing_secret_key N k =
     \<lparr>sigSign = (\<lambda>msg. Inr (edSign N (sgSec k) msg)), sigGetPublicKey = Some (signing_public_key N (sgPub k))\<rparr>"

section \<open>The keyring\<close>

record BasicKeyring =
  encKeys :: "(PublicKey \<times> SecretKey) list"
  sigKeys :: "(bytes \<times> BasicSigningSecretKey) list"

definition NewKeyring :: BasicKeyring where "NewKeyring = \<lparr>encKeys = [], sigKeys = []\<rparr>"

definition ImportBoxKey :: "bytes \<Rightarrow> bytes \<Rightarrow> BasicKeyring \<Rightarrow> BasicKeyring" where
  "ImportBoxKey pub sec k =
     (let nk = NewSecretKey pub sec in k\<lparr>encKeys := AList.update (skPub nk) nk (encKeys k)\<rparr>)"

definition GenerateBoxKey :: "nacl \<Rightarrow> input \<Rightarrow> BasicKeyring \<Rightarrow> (err + SecretKey) \<times> input \<times> BasicKeyring" where
  "GenerateBoxKey N rand k =
     (case generateBoxKey N rand of
        (Inl e, rand') \<Rightarrow> (Inl e, rand', k)
      | (Inr ret, rand') \<Rightarrow> (Inr ret, rand', k\<lparr>encKeys := AList.update (skPub ret) ret (encKeys k)\<rparr>))"

text \<open>\<open>GenerateSigningKey\<close> leaves the keyring as it is; sizes other than 32 and 64 panic.\<close>

definition GenerateSigningKey ::
  "nacl \<Rightarrow> input \<Rightarrow> BasicKeyring \<Rightarrow> (err + BasicSigningSecretKey, input \<times> BasicKeyring) go" where
  "GenerateSigningKey N rand k =
     (case edGenerateKey N rand of
        (Inl e, rand') \<Rightarrow> Ret (Inl e) (rand', k)
      | (Inr (pub, sec), rand') \<Rightarrow>
          if length pub \<noteq> 32 then Panic
          else if length sec \<noteq> 64 then Panic
          else Ret (Inr (NewSigningSecretKey pub sec)) (rand', k))"

definition ImportSigningKey :: "bytes \<Rightarrow> bytes \<Rightarrow> BasicKeyring \<Rightarrow> BasicKeyring" where
  "ImportSigningKey pub sec k =
     (let nk = NewSigningSecretKey pub sec in k\<lparr>sigKeys := AList.update (sgPub nk) nk (sigKeys k)\<rparr>)"

text \<open>\<open>copy\<close> into an array of 32 bytes: a longer identifier is cut, a shorter one padded with zeros.\<close>

definition kid_array :: "bytes \<Rightarrow> bytes" where
  "kid_array kid = take 32 kid @ replicate (32 - length kid) 0"

definition kidToPublicKey :: "bytes \<Rightarrow> PublicKey" where
  "kidToPublicKey kid = \<lparr>RawBoxKey = kid_array kid\<rparr>"

definition kidToSigningPublicKey :: "bytes \<Rightarrow> bytes" where
  "kidToSigningPublicKey kid = kid_array kid"

text \<open>The loop of \<open>LookupBoxSecretKey\<close>, from index \<open>i\<close> on.\<close>

fun lookup_kids :: "BasicKeyring \<Rightarrow> int \<Rightarrow> bytes list \<Rightarrow> int \<times> SecretKey option" where
  "lookup_kids k i [] = (- 1, None)"
| "lookup_kids k i (kid # kids) =
     (case map_of (encKeys k) (kidToPublicKey kid) of
        Some sk \<Rightarrow> (i, Some sk)
      | None \<Rightarrow> lookup_kids k (i + 1) kids)"

definition BasicLookupBoxSecretKey :: "BasicKeyring \<Rightarrow> bytes list \<Rightarrow> int \<times> SecretKey option" where
  "BasicLookupBoxSecretKey k kids = lookup_kids k 0 kids"

text \<open>\<open>order\<close> is the order in which the map is iterated.\<close>

definition BasicGetAllBoxSecretKeys :: "(SecretKey list \<Rightarrow> SecretKey list) \<Rightarrow> BasicKeyring \<Rightarrow> SecretKey list" where
  "BasicGetAllBoxSecretKeys order k = order (map snd (encKeys k))"

text \<open>The keyring as the interfaces \<open>Keyring\<close> and \<open>SigKeyring\<close> of the package.\<close>

definition basic_keyring :: "nacl \<Rightarrow> (SecretKey list \<Rightarrow> SecretKey list) \<Rightarrow> BasicKeyring \<Rightarrow> SigncryptKeyring" where
  "basic_keyring N order k =
     \<lparr>LookupBoxSecretKey = (\<lambda>kids. map_prod id (map_option (secret_key N)) (BasicLookupBoxSecretKey k kids)),
      LookupBoxPublicKey = (\<lambda>kid. Some (public_key (kidToPublicKey kid))),
      GetAllBoxSecretKeys = map (secret_key N) (BasicGetAllBoxSecretKeys order k),
      ImportBoxEphemeralKey = (\<lambda>kid. Some (public_key (kidToPublicKey kid))),
      LookupSigningPublicKey = (\<lambda>kid. Some (signing_public_key N (kidToSigningPublicKey kid)))\<rparr>"

end
