(* ===== verification/Basic_Keyring_Props.thy ===== *)
theory Basic_Keyring_Props
  imports Basic_Keyring Box_Laws
begin

text \<open>
  The basic keyring as a state machine: whatever keys are imported and generated, in whatever
  order, every secret key is stored under its own public key and all arrays have 32 bytes, and so
  the lookups return a key that belongs to the identifier they were asked for.
\<close>

section \<open>Reachable keyrings\<close>

inductive keyring_step :: "nacl \<Rightarrow> BasicKeyring \<Rightarrow> BasicKeyring \<Rightarrow> bool" for N where
  import_box: "length pub = 32 \<Longrightarrow> length sec = 32 \<Longrightarrow> keyring_step N k (ImportBoxKey pub sec k)"
| generate_box: "GenerateBoxKey N rand k = (r, rand', k') \<Longrightarrow> keyring_step N k k'"
| generate_sig: "GenerateSigningKey N rand k = Ret r (rand', k') \<Longrightarrow> keyring_step N k k'"
| import_sig: "length pub = 32 \<Longrightarrow> length sec = 64 \<Longrightarrow> keyring_step N k (ImportSigningKey pub sec k)"

abbreviation keyring_reachable :: "nacl \<Rightarrow> BasicKeyring \<Rightarrow> bool" where
  "keyring_reachable N \<equiv> (keyring_step N)\<^sup>*\<^sup>* NewKeyring"

text \<open>The invariant, and what a step adds to the maps.\<close>

definition keyring_inv :: "BasicKeyring \<Rightarrow> bool" where
  "keyring_inv k \<longleftrightarrow>
     distinct (map fst (encKeys k)) \<and> distinct (map fst (sigKeys k)) \<and>
     (\<forall>(pk, sk)\<in>set (encKeys k). skPub sk = pk \<and> length (RawBoxKey pk) = 32 \<and> length (skSec sk) = 32) \<and>
     (\<forall>(pk, sk)\<in>set (sigKeys k). sgPub sk = pk \<and> length pk = 32 \<and> length (sgSec sk) = 64)"

lemma set_update_cases: "p \<in> set (AList.update x y al) \<Longrightarrow> p = (x, y) \<or> p \<in> set al"
  by (induction al) (auto split: if_splits)

lemma keyring_inv_enc:
  assumes "keyring_inv k" "skPub sk = pk" "length (RawBoxKey pk) = 32" "length (skSec sk) = 32"
  shows "keyring_inv (k\<lparr>encKeys := AList.update pk sk (encKeys k)\<rparr>)"
  using assms by (fastforce simp: keyring_inv_def distinct_update dest: set_update_cases)

lemma keyring_inv_sig:
  assumes "keyring_inv k" "sgPub sk = pk" "length pk = 32" "length (sgSec sk) = 64"
  shows "keyring_inv (k\<lparr>sigKeys := AList.update pk sk (sigKeys k)\<rparr>)"
  using assms by (fastforce simp: keyring_inv_def distinct_update dest: set_update_cases)

lemma nacl_arraysD:
  "nacl_arrays N \<Longrightarrow> nGenerateKey N r = (Inr (pub, sec), r') \<Longrightarrow> length pub = 32 \<and> length sec = 32"
  by (simp add: nacl_arrays_def) blast

lemma keyring_step_inv:
  assumes "keyring_step N k k'" "nacl_arrays N" "keyring_inv k"
  shows "keyring_inv k'"
  using assms(1)
proof cases
  case (generate_box rand r rand')
  then show ?thesis
    using assms(3)
    by (auto simp: GenerateBoxKey_def generateBoxKey_def NewSecretKey_def
        split: prod.splits sum.splits intro!: keyring_inv_enc dest: nacl_arraysD [OF assms(2)])
next
  case (generate_sig rand r rand')
  then show ?thesis
    using assms(3) by (auto simp: GenerateSigningKey_def split: prod.splits sum.splits if_splits)
qed (use assms(3) in \<open>auto simp: ImportBoxKey_def ImportSigningKey_def NewSecretKey_def NewSigningSecretKey_def
      intro!: keyring_inv_enc keyring_inv_sig\<close>)

lemma keyring_reachable_inv: "keyring_reachable N k \<Longrightarrow> nacl_arrays N \<Longrightarrow> keyring_inv k"
  by (induction rule: rtranclp_induct) (simp_all add: keyring_step_inv, simp add: keyring_inv_def NewKeyring_def)

section \<open>Lookups\<close>

lemma lookup_kids_found:
  "lookup_kids k i kids = (j, Some sk) \<Longrightarrow>
     \<exists>n<length kids. j = i + int n \<and> map_of (encKeys k) (kidToPublicKey (kids ! n)) = Some sk \<and>
       (\<forall>m<n. map_of (encKeys k) (kidToPublicKey (kids ! m)) = None)"
proof (induction k i kids rule: lookup_kids.induct)
  case (2 k i kid kids)
  show ?case
  proof (cases "map_of (encKeys k) (kidToPublicKey kid)")
    case None
    with "2.prems" have "lookup_kids k (i + 1) kids = (j, Some sk)" by simp
    from "2.IH" [OF None this] obtain n where
      "n < length kids" "j = i + 1 + int n" "map_of (encKeys k) (kidToPublicKey (kids ! n)) = Some sk"
      "\<forall>m<n. map_of (encKeys k) (kidToPublicKey (kids ! m)) = None" by blast
    with None show ?thesis by (intro exI [of _ "Suc n"]) (auto simp: less_Suc_eq_0_disj)
  qed (use "2.prems" in auto)
qed simp

lemma lookup_kids_missing:
  "0 \<le> i \<Longrightarrow> lookup_kids k i kids = (- 1, None) \<longleftrightarrow>
     (\<forall>kid\<in>set kids. map_of (encKeys k) (kidToPublicKey kid) = None)"
  by (induction k i kids rule: lookup_kids.induct) (auto split: option.splits)

lemma lookup_kids_none:
  "lookup_kids k i kids = (j, None) \<Longrightarrow> \<forall>kid\<in>set kids. map_of (encKeys k) (kidToPublicKey kid) = None"
  by (induction k i kids rule: lookup_kids.induct) (auto split: option.splits)

text \<open>
  C36: in every reachable keyring each secret key is stored under its own public key, with arrays of
  the right sizes. \<open>LookupBoxSecretKey\<close> returns the first index whose identifier, cut or padded to
  32 bytes, is a stored public key, and the secret key that belongs to it, and fails only if no
  identifier is; what was imported last under a public key is what its identifier finds.
\<close>

theorem keyring_lookups:
  assumes "keyring_reachable N k" "nacl_arrays N"
  shows "keyring_inv k \<and>
    (\<forall>kids i sk. BasicLookupBoxSecretKey k kids = (i, Some sk) \<longrightarrow>
       (\<exists>n<length kids. i = int n \<and> skPub sk = kidToPublicKey (kids ! n) \<and>
          (skPub sk, sk) \<in> set (encKeys k) \<and>
          (\<forall>m<n. kidToPublicKey (kids ! m) \<notin> fst ` set (encKeys k)))) \<and>
    (\<forall>kids. BasicLookupBoxSecretKey k kids = (- 1, None) \<longleftrightarrow>
       (\<forall>kid\<in>set kids. kidToPublicKey kid \<notin> fst ` set (encKeys k))) \<and>
    (\<forall>pub sec. length pub = 32 \<longrightarrow>
       BasicLookupBoxSecretKey (ImportBoxKey pub sec k) [pub] = (0, Some (NewSecretKey pub sec)))"
proof (intro conjI allI impI)
  show inv: "keyring_inv k" by (rule keyring_reachable_inv [OF assms])
  show "BasicLookupBoxSecretKey k kids = (- 1, None) \<longleftrightarrow>
      (\<forall>kid\<in>set kids. kidToPublicKey kid \<notin> fst ` set (encKeys k))" for kids
    using lookup_kids_missing [of 0 k kids] by (simp add: BasicLookupBoxSecretKey_def map_of_eq_None_iff)
  fix kids i sk
  assume "BasicLookupBoxSecretKey k kids = (i, Some sk)"
  then obtain n where n: "n < length kids" "i = int n"
      "map_of (encKeys k) (kidToPublicKey (kids ! n)) = Some sk"
      "\<forall>m<n. map_of (encKeys k) (kidToPublicKey (kids ! m)) = None"
    using lookup_kids_found [of k 0 kids i sk] by (auto simp: BasicLookupBoxSecretKey_def)
  then have "(kidToPublicKey (kids ! n), sk) \<in> set (encKeys k)" by (blast dest: map_of_SomeD)
  with inv have "skPub sk = kidToPublicKey (kids ! n)" by (auto simp: keyring_inv_def)
  with n \<open>(kidToPublicKey (kids ! n), sk) \<in> set (encKeys k)\<close>
  show "\<exists>n<length kids. i = int n \<and> skPub sk = kidToPublicKey (kids ! n) \<and> (skPub sk, sk) \<in> set (encKeys k) \<and>
      (\<forall>m<n. kidToPublicKey (kids ! m) \<notin> fst ` set (encKeys k))"
    by (intro exI [of _ n]) (simp add: map_of_eq_None_iff)
qed (simp add: BasicLookupBoxSecretKey_def ImportBoxKey_def NewSecretKey_def kidToPublicKey_def kid_array_def
    update_conv)

text \<open>A NaCl for the witnesses: a box is a tag that both ends can compute in front of the message.\<close>

definition toy_nacl :: nacl where
  "toy_nacl =
     \<lparr>nGenerateKey = (\<lambda>r. (Inr (replicate 32 9, replicate 32 9), r)),
      nSeal = (\<lambda>m n p s. replicate 16 (hd p + hd s) @ m),
      nOpen = (\<lambda>c n p s. if take 16 c = replicate 16 (hd p + hd s) then Some (drop 16 c) else None),
      nPrecompute = (\<lambda>p s. [hd p + hd s]),
      nSealAfter = (\<lambda>m n k. replicate 16 (hd k) @ m),
      nOpenAfter = (\<lambda>c n k. if take 16 c = replicate 16 (hd k) then Some (drop 16 c) else None),
      edGenerateKey = (\<lambda>r. (Inr (replicate 32 9, replicate 64 9), r)),
      edSign = (\<lambda>_ m. m), edVerify = (\<lambda>_ m sig. sig = m)\<rparr>"

abbreviation toy_keyring :: BasicKeyring where
  "toy_keyring \<equiv> ImportBoxKey (replicate 32 2) (replicate 32 2) NewKeyring"

lemma toy_keyring_reachable: "keyring_reachable toy_nacl toy_keyring"
  by (rule r_into_rtranclp) (simp add: keyring_step.import_box)

theorem keyring_lookups_witness:
  "BasicLookupBoxSecretKey (ImportBoxKey (replicate 32 7) (replicate 32 8) toy_keyring) [replicate 32 7] =
     (0, Some (NewSecretKey (replicate 32 7) (replicate 32 8))) \<and>
   BasicLookupBoxSecretKey toy_keyring [replicate 32 3] = (- 1, None)"
proof -
  have "nacl_arrays toy_nacl" by (auto simp: nacl_arrays_def toy_nacl_def)
  note found = keyring_lookups [OF toy_keyring_reachable this]
  have "kidToPublicKey (replicate 32 3) \<notin> fst ` set (encKeys toy_keyring)"
    by (simp add: ImportBoxKey_def NewSecretKey_def NewKeyring_def kidToPublicKey_def kid_array_def)
  with found show ?thesis by simp
qed

end
