(* ===== verification/Basic_Messages.thy ===== *)
theory Basic_Messages
  imports Basic_Keyring_Props Encrypt_Props Sign_Verify
begin

text \<open>
  The repository's own keys under the message formats. From the documented behaviour of NaCl boxes
  and Ed25519 the keys of \<open>basic/key.go\<close> have the laws that opening a message rests on, a keyring
  built by its operations finds the receiver, and so messages sealed for its keys open and
  messages signed with its keys verify.
\<close>

section \<open>NaCl\<close>

text \<open>
  \<open>pair pub sec\<close>: the arrays are the two halves of a key, as \<open>box.GenerateKey\<close> makes them. Boxes are
  16 bytes longer than what they hold, both ends of two keys compute the same box, the other end
  opens it, and a precomputed key works like the key it was computed from.
\<close>

definition nacl_laws :: "nacl \<Rightarrow> (bytes \<Rightarrow> bytes \<Rightarrow> bool) \<Rightarrow> bool" where
  "nacl_laws N pair \<longleftrightarrow>
     (\<forall>p s. pair p s \<longrightarrow> length p = 32 \<and> length s = 32) \<and>
     (\<forall>r p s r'. nGenerateKey N r = (Inr (p, s), r') \<longrightarrow> pair p s) \<and>
     (\<forall>p s n m. length (nSeal N m n p s) = length m + polyOverhead) \<and>
     (\<forall>p s p' s' n m. pair p s \<longrightarrow> pair p' s' \<longrightarrow>
        nSeal N m n p' s = nSeal N m n p s' \<and> nOpen N (nSeal N m n p' s) n p s' = Some m) \<and>
     (\<forall>p s n m. nSealAfter N m n (nPrecompute N p s) = nSeal N m n p s) \<and>
     (\<forall>p s n c. nOpenAfter N c n (nPrecompute N p s) = nOpen N c n p s)"

definition box_key :: "(bytes \<Rightarrow> bytes \<Rightarrow> bool) \<Rightarrow> SecretKey \<Rightarrow> bool" where
  "box_key pair k \<longleftrightarrow> pair (GetRawPublicKey k) (GetRawSecretKey k)"

lemma nacl_lawsD:
  assumes "nacl_laws N pair"
  shows "pair p s \<Longrightarrow> length p = 32" "pair p s \<Longrightarrow> length s = 32"
    and "nGenerateKey N r = (Inr (p, s), r') \<Longrightarrow> pair p s"
    and "length (nSeal N m n p s) = length m + polyOverhead"
    and "pair p s \<Longrightarrow> pair p' s' \<Longrightarrow> nSeal N m n p' s = nSeal N m n p s'"
    and "pair p s \<Longrightarrow> pair p' s' \<Longrightarrow> nOpen N (nSeal N m n p' s) n p s' = Some m"
    and "nSealAfter N m n (nPrecompute N p s) = nSeal N m n p s"
    and "nOpenAfter N c n (nPrecompute N p s) = nOpen N c n p s"
proof -
qed (use assms in \<open>unfold nacl_laws_def, (elim conjE, meson)+\<close>)

lemma nacl_laws_arrays: "nacl_laws N pair \<Longrightarrow> nacl_arrays N"
  unfolding nacl_arrays_def using nacl_lawsD(1-3) by blast

lemmas basic_key_defs = secret_key_def public_key_def ToKID_def ToRawBoxKeyPointer_def HideIdentity_def
  SecretKey_Box_def SecretKey_Unbox_def Precompute_def SharedKey_Box_def SharedKey_Unbox_def
  box_key_def GetRawPublicKey_def GetRawSecretKey_def

lemma basic_box_pair:
  assumes N: "nacl_laws N pair" and keys: "box_key pair a" "box_key pair b"
  shows "box_pair (secret_key N a) (secret_key N b)"
proof -
  note ab = keys [unfolded box_key_def GetRawPublicKey_def GetRawSecretKey_def]
  show ?thesis
    using nacl_lawsD(5) [OF N ab] nacl_lawsD(6) [OF N ab] nacl_lawsD(7,8) [OF N]
    by (simp add: box_pair_def basic_key_defs Let_def)
qed

lemma basic_box_lengths: "nacl_laws N pair \<Longrightarrow> box_lengths (secret_key N a)"
  using nacl_lawsD(4) by (simp add: box_lengths_def basic_key_defs)

lemma basic_kid [simp]:
  "boxToKID (public_key pk) = RawBoxKey pk" "boxGetPublicKey (secret_key N k) = public_key (skPub k)"
  "boxHideIdentity (public_key pk) = False"
  by (simp_all add: basic_key_defs)

section \<open>The keyring finds its keys\<close>

lemma kid_array_exact: "length kid = 32 \<Longrightarrow> kid_array kid = kid"
  by (simp add: kid_array_def)

lemma kidToPublicKey_exact: "length (RawBoxKey pk) = 32 \<Longrightarrow> kidToPublicKey (RawBoxKey pk) = pk"
  by (simp add: kidToPublicKey_def kid_array_exact)

lemma basic_ring_for:
  assumes inv: "keyring_inv k" and sk: "map_of (encKeys k) pk = Some sk"
    and pks: "\<forall>pk'\<in>set pks. length (RawBoxKey pk') = 32"
    and only: "\<forall>pk'\<in>set pks. map_of (encKeys k) pk' \<noteq> None \<longrightarrow> pk' = pk"
  shows "ring_for (boxToKID ` public_key ` set pks) (Keyring.truncate (basic_keyring N order k)) (secret_key N sk)"
proof -
  let ?ring = "Keyring.truncate (basic_keyring N order k)"
  have pk: "skPub sk = pk" "length (RawBoxKey pk) = 32"
    using map_of_SomeD [OF sk] inv by (auto simp: keyring_inv_def)
  have ring: "LookupBoxSecretKey ?ring kids =
      map_prod id (map_option (secret_key N)) (lookup_kids k 0 kids)" for kids
    by (simp add: basic_keyring_def BasicLookupBoxSecretKey_def Keyring.truncate_def)
  have found: "map_of (encKeys k) (kidToPublicKey kid) = (if kid = RawBoxKey pk then Some sk else None)"
    if "set kids \<subseteq> boxToKID ` public_key ` set pks" "kid \<in> set kids" for kid kids
  proof -
    from that obtain pk' where pk': "pk' \<in> set pks" "kid = RawBoxKey pk'" by auto
    with pks have kid: "kidToPublicKey kid = pk'" by (simp add: kidToPublicKey_exact)
    show ?thesis
    proof (cases "kid = RawBoxKey pk")
      case True
      with pk(2) sk show ?thesis by (simp add: kidToPublicKey_exact)
    next
      case False
      with pk' have "pk' \<noteq> pk" by auto
      with only pk'(1) kid False show ?thesis by (cases "map_of (encKeys k) pk'") auto
    qed
  qed
  have "if RawBoxKey pk \<in> set kids
      then \<exists>i<length kids. kids ! i = RawBoxKey pk \<and> LookupBoxSecretKey ?ring kids = (int i, Some (secret_key N sk))
      else snd (LookupBoxSecretKey ?ring kids) = None"
    if sub: "set kids \<subseteq> boxToKID ` public_key ` set pks" for kids
  proof (cases "lookup_kids k 0 kids")
    case (Pair j found_key)
    show ?thesis
    proof (cases found_key)
      case None
      with Pair have "\<forall>kid\<in>set kids. map_of (encKeys k) (kidToPublicKey kid) = None"
        using lookup_kids_none [of k 0 kids j] by simp
      with found [OF sub] have "RawBoxKey pk \<notin> set kids" by fastforce
      with Pair None ring show ?thesis by simp
    next
      case (Some sk')
      with Pair lookup_kids_found [of k 0 kids j sk'] obtain n where n: "n < length kids" "j = int n"
          "map_of (encKeys k) (kidToPublicKey (kids ! n)) = Some sk'" by auto
      with found [OF sub, of "kids ! n"] have "kids ! n = RawBoxKey pk" "sk' = sk"
        by (auto split: if_splits)
      moreover from this n have "RawBoxKey pk \<in> set kids" by (metis nth_mem)
      ultimately show ?thesis using Pair Some n ring by auto
    qed
  qed
  then show ?thesis by (simp add: ring_for_def pk)
qed

section \<open>Messages\<close>

lemma basic_keys_ok:
  assumes N: "nacl_laws N pair" and k: "keyring_inv k"
    and sender: "\<forall>s. sender = Some s \<longrightarrow> box_key pair s \<and> skPub s \<noteq> skPub eph" and eph: "box_key pair eph"
    and pks: "\<forall>pk\<in>set pks. length (RawBoxKey pk) = 32"
    and sk: "(pk, sk) \<in> set (encKeys k)" "pk \<in> set pks" "box_key pair sk"
    and only: "\<forall>pk'\<in>set pks. pk' \<in> fst ` set (encKeys k) \<longrightarrow> pk' = pk"
  shows "keys_ok (map_option (secret_key N) sender)
    (case map_option (secret_key N) sender of None \<Rightarrow> secret_key N eph | Some x \<Rightarrow> x)
    (secret_key N eph) (secret_key N sk) (Keyring.truncate (basic_keyring N order k)) (set (map public_key pks))"
proof -
  let ?ring = "Keyring.truncate (basic_keyring N order k)"
  have pk: "skPub sk = pk" using k sk(1) by (auto simp: keyring_inv_def)
  have len: "length (RawBoxKey (skPub s)) = 32" if "box_key pair s" for s
    using that nacl_lawsD(1) [OF N] by (simp add: box_key_def GetRawPublicKey_def)
  have lookup: "LookupBoxPublicKey ?ring (RawBoxKey (skPub s)) = Some (public_key (skPub s))"
      "ImportBoxEphemeralKey ?ring (RawBoxKey (skPub s)) = Some (public_key (skPub s))" if "box_key pair s" for s
    using kidToPublicKey_exact [OF len [OF that]] by (simp_all add: basic_keyring_def Keyring.truncate_def)
  have "map_of (encKeys k) pk = Some sk" using k sk(1) by (simp add: keyring_inv_def)
  moreover have "\<forall>pk'\<in>set pks. map_of (encKeys k) pk' \<noteq> None \<longrightarrow> pk' = pk"
    using only by (simp add: map_of_eq_None_iff)
  ultimately have ring: "ring_for (boxToKID ` public_key ` set pks) ?ring (secret_key N sk)"
    by (rule basic_ring_for [OF k _ pks])
  have nonempty: "RawBoxKey (skPub sk) \<noteq> []" using len [OF sk(3)] by auto
  note facts = N pk sk(2) nonempty ring basic_box_pair [OF N _ sk(3)] basic_box_lengths [OF N] lookup len
  show ?thesis
  proof (cases sender)
    case None
    with eph facts show ?thesis by (auto simp: keys_ok_def)
  next
    case (Some s)
    with sender have s: "box_key pair s" "skPub s \<noteq> skPub eph" by simp_all
    with len [OF s(1)] len [OF eph] have "RawBoxKey (skPub s) \<noteq> RawBoxKey (skPub eph)"
      using kidToPublicKey_exact by metis
    with s eph facts Some show ?thesis by (auto simp: keys_ok_def)
  qed
qed

text \<open>
  C37: the repository's keys and keyring implement the interfaces as the package needs them. Under
  the laws of NaCl, what \<open>Seal\<close> makes for receivers with basic keys, with an ephemeral key from
  \<open>CreateEphemeralKey\<close>, opens with any keyring built by the operations of \<open>Keyring\<close> that holds
  one of the receivers' secret keys, to the plaintext, and names the sender and the receiver.
\<close>

theorem basic_Open_Seal:
  assumes codec: "codec_ok E" and box: "secretbox_ok E" and N: "nacl_laws N pair"
    and v: "v = Version1 \<or> v = Version2" and valid: "versionValidator v = None" and grow: "\<forall>c. c < grow c"
    and pks: "pks \<noteq> []" "length pks \<le> maxReceiverCount" "distinct pks" "\<forall>pk\<in>set pks. length (RawBoxKey pk) = 32"
    and run: "shuffleEncryptReceivers (map public_key pks) rand = Ret (Inr rs) r1"
      "generateBoxKey N r1 = (Inr eph, r2)" "newRandomSymmetricKey r2 = (Inr key, r3)"
    and sender: "\<forall>s. sender = Some s \<longrightarrow> box_key pair s \<and> skPub s \<noteq> skPub eph"
    and k: "keyring_reachable N k" "(pk, sk) \<in> set (encKeys k)" "pk \<in> set pks" "box_key pair sk"
      "\<forall>pk'\<in>set pks. pk' \<in> fst ` set (encKeys k) \<longrightarrow> pk' = pk"
    and short: "length plaintext < 2 ^ 64 - 1"
  shows "\<exists>msg mki.
    Seal E (\<lambda>_. CreateEphemeralKey N) v plaintext (map_option (secret_key N) sender)
      (map public_key pks) rand = Ok msg \<and>
    Open E grow versionValidator msg (Keyring.truncate (basic_keyring N order k)) =
      Some (Ret (Inr plaintext) (Some mki)) \<and>
    info_for (map_option (secret_key N) sender)
      (case sender of None \<Rightarrow> secret_key N eph | Some s \<Rightarrow> secret_key N s) (secret_key N sk) mki"
proof -
  have create: "CreateEphemeralKey N r1 = (Inr (secret_key N eph), r2)"
    using run(2) by (simp add: CreateEphemeralKey_def)
  have "box_key pair eph"
    using run(2) nacl_lawsD(3) [OF N]
    by (auto simp: generateBoxKey_def NewSecretKey_def box_key_def GetRawPublicKey_def GetRawSecretKey_def
        split: prod.splits sum.splits)
  then have keys: "keys_ok (map_option (secret_key N) sender)
      (case map_option (secret_key N) sender of None \<Rightarrow> secret_key N eph | Some x \<Rightarrow> x)
      (secret_key N eph) (secret_key N sk) (Keyring.truncate (basic_keyring N order k)) (set (map public_key pks))"
    using k(2-5) by (intro basic_keys_ok [OF N keyring_reachable_inv [OF k(1) nacl_laws_arrays [OF N]] sender _ pks(4)])
  have "inj_on RawBoxKey (set pks)"
    using pks(4) by (intro inj_onI) (metis kidToPublicKey_exact)
  with pks have "checkEncryptReceivers (map public_key pks) = None"
    by (simp add: checkEncryptReceivers_None distinct_map comp_def)
  from sealed_opens [where create = "\<lambda>_. CreateEphemeralKey N" and receivers = "map public_key pks" and
      versionValidator = versionValidator, OF codec box v valid grow this run(1) create run(3) keys short]
  show ?thesis by (cases sender) simp_all
qed

abbreviation toy_pair :: "bytes \<Rightarrow> bytes \<Rightarrow> bool" where "toy_pair p s \<equiv> p = s \<and> length p = 32"

lemma toy_nacl_laws: "nacl_laws toy_nacl toy_pair"
  by (auto simp: nacl_laws_def toy_nacl_def polyOverhead_def add.commute)

theorem basic_Open_Seal_witness:
  "\<exists>msg mki.
     Seal toy_env (\<lambda>_. CreateEphemeralKey toy_nacl) Version2 [1, 2, 3]
       (map_option (secret_key toy_nacl) (Some (NewSecretKey (replicate 32 5) (replicate 32 5))))
       (map public_key [\<lparr>RawBoxKey = replicate 32 1\<rparr>, \<lparr>RawBoxKey = replicate 32 2\<rparr>])
       (bytes_input (replicate 36 1)) = Ok msg \<and>
     Open toy_env Suc CheckKnownMajorVersion msg (Keyring.truncate (basic_keyring toy_nacl id toy_keyring)) =
       Some (Ret (Inr [1, 2, 3]) (Some mki))"
proof -
  let ?pks = "[\<lparr>RawBoxKey = replicate 32 1\<rparr>, \<lparr>RawBoxKey = replicate 32 2\<rparr>]"
  have shuffle: "shuffleEncryptReceivers (map public_key ?pks) (bytes_input (replicate 36 1)) =
      Ret (Inr [public_key (?pks ! 1), public_key (?pks ! 0)]) (bytes_input (replicate 32 1))"
    by (simp add: toy_shuffle)
  have ephemeral: "generateBoxKey toy_nacl r = (Inr (NewSecretKey (replicate 32 9) (replicate 32 9)), r)" for r
    by (simp add: generateBoxKey_def toy_nacl_def)
  from basic_Open_Seal [where E = toy_env and versionValidator = CheckKnownMajorVersion and v = Version2 and
      grow = Suc and plaintext = "[1, 2, 3]" and k = toy_keyring and order = id and
      sender = "Some (NewSecretKey (replicate 32 5) (replicate 32 5))" and pk = "?pks ! 1" and
      sk = "NewSecretKey (replicate 32 2) (replicate 32 2)",
      OF toy_codec_ok toy_secretbox_ok toy_nacl_laws _ _ _ _ _ _ _ shuffle ephemeral toy_key _ toy_keyring_reachable]
  show ?thesis
    by (auto simp: CheckKnownMajorVersion_None maxReceiverCount_def NewSecretKey_def NewKeyring_def ImportBoxKey_def
        box_key_def GetRawPublicKey_def GetRawSecretKey_def)
qed

section \<open>Signatures\<close>

text \<open>What is signed with a basic signing key verifies with the repository's keyring.\<close>

lemma basic_Verify_Sign:
  assumes codec: "codec_ok E" and ed: "\<forall>msg. edVerify N (sgPub sk) msg (edSign N (sgSec sk) msg)"
    and size: "length (sgPub sk) = 32" and v: "v = Version1 \<or> v = Version2"
    and rand: "16 \<le> length (pending rand)" and grow: "\<forall>c. c < grow c" and accepts: "versionValidator v = None"
  shows "\<exists>msg rand'. Sign E v plaintext (Some (signing_secret_key N sk)) rand = (Ok msg, rand') \<and>
    Verify E grow versionValidator msg (LookupSigningPublicKey (basic_keyring N order k)) =
      Some (Ok (signing_public_key N (sgPub sk), plaintext))"
proof (rule verify_signed [where pk = "signing_public_key N (sgPub sk)" and versionValidator = versionValidator, OF codec _ v rand grow accepts])
  show "signs_for (signing_secret_key N sk) (signing_public_key N (sgPub sk))"
    using ed by (simp add: signs_for_def signing_secret_key_def signing_public_key_def SigningPublicKey_Verify_def)
  show "LookupSigningPublicKey (basic_keyring N order k) (sigToKID (signing_public_key N (sgPub sk))) =
      Some (signing_public_key N (sgPub sk))"
    using size by (simp add: basic_keyring_def signing_public_key_def kidToSigningPublicKey_def kid_array_exact)
qed

end
