(* ===== verification/Stream_Safety.thy ===== *)
theory Stream_Safety
  imports Encrypt_Props Sign_Verify Encoder_Sim
begin

text \<open>
  The sealing streams as state machines. A stream that its constructor made keeps its types through
  any calls of \<open>Write\<close>, failed ones included: its version, keys and hash do not change and \<open>Write\<close> does
  not panic. While no write has failed the buffer has its bound too, and \<open>Close\<close> does not panic. The
  theory also shows what the streams do when they are closed twice or used after a write failed.
\<close>

section \<open>Encryption\<close>

definition es_typed :: "'w encryptStream \<Rightarrow> bool" where
  "es_typed s \<longleftrightarrow> (esVersion s = Version1 \<or> esVersion s = Version2) \<and> length (esPayloadKey s) = 32 \<and>
     length (esHeaderHash s) = 64 \<and> (\<forall>k\<in>set (esMacKeys s). length k = 32) \<and>
     (esVersion s = Version2 \<longrightarrow> esNumBlocks s \<noteq> 0 \<longrightarrow> esBuffer s \<noteq> [])"

text \<open>What the constructor fixes.\<close>

definition es_fixed :: "'w encryptStream \<Rightarrow> version \<times> bytes \<times> bytes \<times> bytes list" where
  "es_fixed s = (esVersion s, esPayloadKey s, esHeaderHash s, esMacKeys s)"

text \<open>A call of \<open>Write\<close>, whatever it returns.\<close>

inductive es_step :: "env \<Rightarrow> 'w encoder \<Rightarrow> 'w encryptStream \<Rightarrow> 'w encryptStream \<Rightarrow> bool" for E enc where
  write_step: "encryptStream_Write E enc p s = Ret r s' \<Longrightarrow> es_step E enc s s'"

inductive_cases es_stepE: "es_step E enc s s'"

abbreviation es_reachable :: "env \<Rightarrow> 'w encoder \<Rightarrow> 'w encryptStream \<Rightarrow> 'w encryptStream \<Rightarrow> bool" where
  "es_reachable E enc \<equiv> (es_step E enc)\<^sup>*\<^sup>*"

lemma computeMACKeySingle_length: "computeMACKeySingle a p n = Ok k \<Longrightarrow> length k = 32"
  by (auto simp: computeMACKeySingle_def Let_def sliceToByte_def split: if_splits)

lemma computeMACKeySender_length: "computeMACKeySender v i s e p hh = Ok k \<Longrightarrow> length k = 32"
  by (auto simp: computeMACKeySender_def bind_out_eq_Ok computeMACKeySingle_length sum512Truncate256_def
      sliceToByte_def split: if_splits)

lemma computeMACKeysSender_length:
  "computeMACKeysSender v s e i rs hh = Ok ks \<Longrightarrow> \<forall>k\<in>set ks. length k = 32"
  by (induction rs arbitrary: i ks) (auto simp: bind_out_eq_Ok dest: computeMACKeySender_length)

lemma NewEncryptStream_typed:
  assumes "NewEncryptStream E enc create v w sender receivers rand = Ret (Inr s) rand'"
  shows "es_typed s \<and> esVersion s = v \<and> esErr s = None \<and> esBuffer s = []"
proof -
  from assms obtain r2 key r3 sk eph rs where v: "v = Version1 \<or> v = Version2"
    and key: "createSymmetricKey defaultEncryptRNG r2 = (Inr key, r3)"
    and start: "encrypt_start E enc v w sk eph key rs = Ok s"
    by (auto simp: NewEncryptStream_def newEncryptStream_def encryptStream_init_def checkKnownVersion_None
        split: sum.splits option.splits go.splits prod.splits outcome.splits)
  from start have "esVersion s = v" "esPayloadKey s = key" "length (esHeaderHash s) = 64" "esNumBlocks s = 0"
      "esErr s = None" "esBuffer s = []" "\<forall>k\<in>set (esMacKeys s). length k = 32"
    by (auto simp: encrypt_start_def split: outcome.splits sum.splits prod.splits option.splits
        dest: computeMACKeysSender_length)
  with v default_rng.key_length [OF key] show ?thesis by (simp add: es_typed_def)
qed

lemma encryptBlock_typed:
  assumes box: "secretbox_ok E" and s: "es_typed s" and long: "encryptionBlockSize < length (esBuffer s)"
  shows "\<exists>r s'. encryptBlock_err E enc False s = Ret r s' \<and> es_typed s' \<and>
    es_fixed s' = es_fixed s \<and> (r \<noteq> None \<longrightarrow> esErr s' \<noteq> None)"
proof -
  let ?c = "take encryptionBlockSize (esBuffer s)"
  have v: "esVersion s = Version1 \<or> esVersion s = Version2" using s by (simp add: es_typed_def)
  have "chunk_rule (esVersion s) (length ?c) (esNumBlocks s) False"
    using long by (simp add: chunk_rule_def)
  from encrypt_packet_Ok [OF box v refl this] v s long show ?thesis
    by (auto simp: encryptBlock_err_def encryptBlock_def Let_def checkEncryptBlockRead_def es_typed_def es_fixed_def
        split: option.splits prod.splits)
qed

text \<open>A stream no write of which has failed also has room in its buffer.\<close>

definition es_open :: "'w encryptStream \<Rightarrow> bool" where
  "es_open s \<longleftrightarrow> es_typed s \<and> (esErr s = None \<longrightarrow> length (esBuffer s) \<le> encryptionBlockSize)"

lemma encryptStream_Write_open:
  assumes box: "secretbox_ok E" and s: "es_typed s"
  shows "\<exists>r s'. encryptStream_Write E enc p s = Ret r s' \<and> es_open s' \<and> es_fixed s' = es_fixed s"
proof (cases "esErr s")
  case None
  let ?I = "\<lambda>t. es_typed t \<and> es_fixed t = es_fixed s"
  have step: "\<exists>r s'. encryptBlock_err E enc False t = Ret r s' \<and> ?I s' \<and> (r \<noteq> None \<longrightarrow> esErr s' \<noteq> None)"
    if "?I t" "encryptionBlockSize < length (esBuffer t)" for t
    using encryptBlock_typed [OF box, of t enc] that by auto
  have "?I (es_append p s)" using s by (simp add: es_typed_def es_fixed_def)
  from es.loop_safe [where I = ?I and F = "\<lambda>s. esErr s \<noteq> None" and E = E and enc = enc, OF step this]
  obtain r s' where "encryptStream_loop E enc (es_append p s) = Ret r s'" "?I s'"
      "if r = None then length (esBuffer s') \<le> encryptionBlockSize else esErr s' \<noteq> None" by blast
  with None show ?thesis by (cases r) (auto simp: encryptStream_Write_def es_open_def)
qed (use s in \<open>simp add: encryptStream_Write_def es_open_def\<close>)

lemma es_reachable_open:
  "es_reachable E enc s s' \<Longrightarrow> secretbox_ok E \<Longrightarrow> es_open s \<Longrightarrow> es_open s' \<and> es_fixed s' = es_fixed s"
proof (induction rule: rtranclp_induct)
  case (step s1 s2)
  from step.hyps(2) obtain p r where w: "encryptStream_Write E enc p s1 = Ret r s2" by (rule es_stepE)
  from step.IH [OF step.prems] have s1: "es_typed s1" "es_fixed s1 = es_fixed s" by (simp_all add: es_open_def)
  from encryptStream_Write_open [OF step.prems(1) s1(1), of enc p] w s1(2) show ?case by auto
qed simp

lemma encryptStream_Close_no_panic:
  assumes box: "secretbox_ok E" and s: "es_typed s" "length (esBuffer s) \<le> encryptionBlockSize"
  shows "encryptStream_Close E enc s \<noteq> Panic"
proof -
  have v: "esVersion s = Version1 \<or> esVersion s = Version2" using s by (simp add: es_typed_def)
  have block: "encryptBlock E enc f t \<noteq> Panic"
    if "esVersion t = esVersion s" "length (esBuffer t) \<le> encryptionBlockSize"
      "chunk_rule (esVersion s) (length (esBuffer t)) (esNumBlocks t) f"
      "esVersion s = Version1 \<Longrightarrow> f = (esBuffer t = [])" for f t
    using encrypt_packet_Ok [OF box v that(1), of "esBuffer t" f] that v
    by (auto simp: encryptBlock_def Let_def checkEncryptBlockRead_def split: option.splits prod.splits)
  from v show ?thesis
  proof
    assume v1: "esVersion s = Version1"
    have "encryptBlock E enc False s = Ret r s' \<Longrightarrow> esVersion s' = Version1 \<and> esBuffer s' = []" for r s'
      using v1 s(2) by (auto simp: encryptBlock_def Let_def split: outcome.splits option.splits prod.splits)
    then show ?thesis
      using v1 s(2) block [of s False] block [of _ True]
      by (auto simp: encryptStream_Close_def chunk_rule_def split: go.splits option.splits)
  next
    assume v2: "esVersion s = Version2"
    have "encryptBlock E enc True s = Ret r s' \<Longrightarrow> esBuffer s' = []" for r s'
      using s(2) by (auto dest: encryptBlock_buffer)
    then show ?thesis
      using v2 s block [of s True]
      by (auto simp: encryptStream_Close_def chunk_rule_def es_typed_def split: go.splits option.splits)
  qed
qed

text \<open>
  C38: the encrypting stream is type safe. A stream that \<open>NewEncryptStream\<close> returned, after any calls of
  \<open>Write\<close> with any results and over any destination, is of the version it was made with, a known
  one, with the payload key and the MAC keys, of 32 bytes, and the header hash, of 64, that it was
  made with, and the next \<open>Write\<close> does not panic. As long as no \<open>Write\<close> has failed, which is recorded, it
  keeps at most one block back and \<open>Close\<close> does not panic either.
\<close>

theorem encryptStream_type_safe:
  assumes "NewEncryptStream E enc create v w sender receivers rand = Ret (Inr s) rand'"
    and "es_reachable E enc s s'" and "secretbox_ok E"
  shows "es_typed s' \<and> esVersion s' = v \<and> esPayloadKey s' = esPayloadKey s \<and>
    esHeaderHash s' = esHeaderHash s \<and> esMacKeys s' = esMacKeys s \<and>
    encryptStream_Write E enc p s' \<noteq> Panic \<and>
    (esErr s' = None \<longrightarrow> length (esBuffer s') \<le> encryptionBlockSize \<and> encryptStream_Close E enc s' \<noteq> Panic)"
proof -
  have new: "es_open s" "esVersion s = v" using NewEncryptStream_typed [OF assms(1)] by (simp_all add: es_open_def)
  then have s': "es_open s'" "es_fixed s' = es_fixed s" using es_reachable_open [OF assms(2,3)] by simp_all
  then have "es_typed s'" by (simp add: es_open_def)
  from encryptStream_Write_open [OF assms(3) this, of enc p] encryptStream_Close_no_panic [OF assms(3) this, of enc] s' new(2)
  show ?thesis by (auto simp: es_open_def es_fixed_def)
qed

lemma NewEncryptStream_toy:
  "\<exists>s rand'. NewEncryptStream toy_env (newEncoder toy_env) (\<lambda>_ r. (Inr (toy_boxsk 9 False), r)) Version2 []
     None [toy_boxpk 1 False, toy_boxpk 2 True] (bytes_input (replicate 36 1)) = Ret (Inr s) rand'"
proof -
  have "checkKnownVersion Version2 = None" by (simp add: checkKnownVersion_None)
  moreover have "checkEncryptReceivers [toy_boxpk 1 False, toy_boxpk 2 True] = None"
    by (simp add: checkEncryptReceivers_None maxReceiverCount_def)
  ultimately show ?thesis
    by (simp add: NewEncryptStream_def newEncryptStream_def encryptStream_init_def receiversToEphemeralKeyCreator_def
        defaultEncryptRNG_def toy_shuffle toy_key encrypt_start_Ok toy_codec_ok toy_box_lengths Let_def)
qed

theorem encryptStream_type_safe_witness:
  "\<exists>s rand'. NewEncryptStream toy_env (newEncoder toy_env) (\<lambda>_ r. (Inr (toy_boxsk 9 False), r)) Version2 []
       None [toy_boxpk 1 False, toy_boxpk 2 True] (bytes_input (replicate 36 1)) = Ret (Inr s) rand' \<and>
     es_typed s \<and> encryptStream_Write toy_env (newEncoder toy_env) [1, 2, 3] s \<noteq> Panic"
proof -
  from NewEncryptStream_toy obtain s rand' where s: "NewEncryptStream toy_env (newEncoder toy_env)
      (\<lambda>_ r. (Inr (toy_boxsk 9 False), r)) Version2 [] None [toy_boxpk 1 False, toy_boxpk 2 True]
      (bytes_input (replicate 36 1)) = Ret (Inr s) rand'" by blast
  from encryptStream_type_safe [OF s rtranclp.rtrancl_refl toy_secretbox_ok] s show ?thesis by blast
qed

section \<open>Closing at the wrong time\<close>

lemma Close_overfull_panics:
  assumes "esVersion s = Version2" "encryptionBlockSize < length (esBuffer s)"
  shows "encryptStream_Close E enc s = Panic"
  using assms by (simp add: encryptStream_Close_def encryptBlock_def checkEncryptBlockRead_def Let_def)

text \<open>The encoder refuses every packet over this destination.\<close>

definition refuses :: "'w encoder \<Rightarrow> 'w \<Rightarrow> bool" where
  "refuses enc w \<longleftrightarrow> (\<forall>p. fst (enc p w) \<noteq> None)"

text \<open>
  C39: in version 2 \<open>Close\<close> panics when it should return an error. It looks neither at the recorded
  error nor at whether the stream is closed, so it panics after a \<open>Close\<close> that succeeded (unless that
  brought the block counter to its limit), and after any \<open>Write\<close>, with any encoder, that failed and
  left more than a block in the buffer. A \<open>Write\<close> that brings the buffer to more than two blocks is
  one when the destination refuses its first block.
\<close>

theorem encryptStream_Close_panics:
  assumes box: "secretbox_ok E" and s: "es_typed s" "esVersion s = Version2"
  shows "(\<forall>s'. encryptStream_Close E enc s = Ret None s' \<and> encryptionBlockNumber_check (esNumBlocks s') = None \<longrightarrow>
        encryptStream_Close E enc s' = Panic) \<and>
    (\<forall>p n e s1. encryptStream_Write E enc p s = Ret (n, Some e) s1 \<and> encryptionBlockSize < length (esBuffer s1) \<longrightarrow>
        encryptStream_Close E enc s1 = Panic) \<and>
    (\<forall>p. esErr s = None \<and> refuses enc (esEncoder s) \<and> encryptionBlockNumber_check (esNumBlocks s) = None \<and>
        2 * encryptionBlockSize < length (esBuffer s) + length p \<longrightarrow>
      (\<exists>e s1. encryptStream_Write E enc p s = Ret (0, Some e) s1 \<and> encryptionBlockSize < length (esBuffer s1) \<and>
         encryptStream_Close E enc s1 = Panic))"
proof (intro conjI allI impI)
  fix s' assume close: "encryptStream_Close E enc s = Ret None s' \<and> encryptionBlockNumber_check (esNumBlocks s') = None"
  with s(2) have block: "encryptBlock E enc True s = Ret None s'" "esBuffer s' = []"
    by (auto simp: encryptStream_Close_def split: go.splits option.splits if_splits)
  then have s': "esVersion s' = Version2" "esNumBlocks s' = esNumBlocks s + 1"
      "encryptionBlockNumber_check (esNumBlocks s) = None"
    using s(2) by (auto simp: encryptBlock_def Let_def split: outcome.splits option.splits prod.splits)
  have "esNumBlocks s' \<noteq> 0"
  proof
    assume "esNumBlocks s' = 0"
    with s'(2) have "esNumBlocks s = - 1" by (simp add: eq_neg_iff_add_eq_0)
    with s'(3) show False by (simp add: encryptionBlockNumber_check_def)
  qed
  then have "encrypt_packet E s' [] True = Panicked"
    using box s'(1) by (simp add: encrypt_packet_def assertEncodedChunkState_def checkChunkState_def
        secretbox_ok_def Let_def)
  with block(2) s' close show "encryptStream_Close E enc s' = Panic"
    by (simp add: encryptStream_Close_def encryptBlock_def checkEncryptBlockRead_def Let_def)
next
  fix p n e s1
  assume w: "encryptStream_Write E enc p s = Ret (n, Some e) s1 \<and> encryptionBlockSize < length (esBuffer s1)"
  with encryptStream_Write_open [OF box s(1), of enc p] s(2) have "esVersion s1 = Version2"
    by (auto simp: es_fixed_def)
  with w show "encryptStream_Close E enc s1 = Panic" by (intro Close_overfull_panics) simp_all
next
  fix p :: bytes
  assume fails: "esErr s = None \<and> refuses enc (esEncoder s) \<and> encryptionBlockNumber_check (esNumBlocks s) = None \<and>
    2 * encryptionBlockSize < length (esBuffer s) + length p"
  let ?s = "es_append p s" and ?c = "take encryptionBlockSize (esBuffer s @ p)"
  have "0 < length (esBuffer s) + length p" using fails by linarith
  then have "chunk_rule Version2 (length ?c) (esNumBlocks s) False" by (simp add: chunk_rule_def)
  from encrypt_packet_Ok [OF box _ s(2) this]
  obtain eBlock where packet: "encrypt_packet E s ?c False = Ok eBlock" by auto
  obtain e w where e: "enc eBlock (esEncoder s) = (Some e, w)"
    using fails unfolding refuses_def by (metis option.exhaust prod.collapse)
  let ?s1 = "s\<lparr>esBuffer := drop encryptionBlockSize (esBuffer s @ p), esEncoder := w, esErr := Some e\<rparr>"
  have long: "encryptionBlockSize < length (esBuffer ?s)" using fails by simp
  then have "length ?c = encryptionBlockSize" by (simp del: take_append)
  then have "checkEncryptBlockRead Version2 False encryptionBlockSize (length ?c)
      (length (drop encryptionBlockSize (esBuffer s @ p))) = Ok ()"
    by (simp add: checkEncryptBlockRead_def del: length_take take_append)
  moreover have "encryptionBlockNumber_check (esNumBlocks s) = None" using fails by blast
  ultimately have "encryptBlock_err E enc False ?s = Ret (Some e) ?s1"
    using s(2) packet e by (simp add: encryptBlock_err_def encryptBlock_def Let_def del: length_take length_drop take_append drop_append)
  then have "encryptStream_loop E enc ?s = Ret (Some e) ?s1"
    using long by (subst encryptStream_loop.simps) simp
  then have "encryptStream_Write E enc p s = Ret (0, Some e) ?s1"
    using fails by (simp add: encryptStream_Write_def)
  moreover have "encryptionBlockSize < length (esBuffer s) + length p - encryptionBlockSize" using fails by linarith
  then have over: "encryptionBlockSize < length (esBuffer ?s1)" by (simp del: drop_append)
  then have "encryptStream_Close E enc ?s1 = Panic"
    using s(2) by (intro Close_overfull_panics) simp_all
  ultimately show "\<exists>e s1. encryptStream_Write E enc p s = Ret (0, Some e) s1 \<and>
      encryptionBlockSize < length (esBuffer s1) \<and> encryptStream_Close E enc s1 = Panic"
    using over by blast
qed

abbreviation toy_es :: "unit encryptStream" where
  "toy_es \<equiv> \<lparr>esVersion = Version2, esEncoder = (), esPayloadKey = replicate 32 0, esBuffer = [],
     esHeaderHash = replicate 64 0, esMacKeys = [], esNumBlocks = 0, esErr = None\<rparr>"

theorem encryptStream_Close_panics_witness:
  "\<exists>e s1. encryptStream_Write toy_env (\<lambda>_ w. (Some ErrBadReceivers, w)) (replicate 2097153 7) toy_es = Ret (0, Some e) s1 \<and>
     encryptStream_Close toy_env (\<lambda>_ w. (Some ErrBadReceivers, w)) s1 = Panic"
proof -
  let ?enc = "\<lambda>_ w. (Some ErrBadReceivers, w :: unit)"
  have "es_typed toy_es" "esVersion toy_es = Version2" by (simp_all add: es_typed_def)
  note closes = encryptStream_Close_panics [OF toy_secretbox_ok this, of ?enc, THEN conjunct2, THEN conjunct2,
      THEN spec, of "replicate 2097153 7"]
  have "esErr toy_es = None \<and> refuses ?enc (esEncoder toy_es) \<and>
      encryptionBlockNumber_check (esNumBlocks toy_es) = None \<and>
      2 * encryptionBlockSize < length (esBuffer toy_es) + length (replicate 2097153 (7 :: byte))"
    unfolding length_replicate by (simp add: refuses_def encryptionBlockNumber_check_def encryptionBlockSize_def)
  from closes [THEN mp, OF this] show ?thesis by blast
qed

section \<open>Signing after a failed write\<close>

text \<open>
  An encoder over a buffer whose destination refuses the \<open>n\<close>-th value, once: it takes no byte of
  it, and the encoder goes on with the next value as if nothing had happened.
\<close>

definition failing_once :: "env \<Rightarrow> (nat \<times> bytes) encoder" where
  "failing_once E p d =
     (case d of (n, w) \<Rightarrow>
        if n = 1 then (Some (ErrForeign 0), (0, w))
        else (case newEncoder E p w of (e, w') \<Rightarrow> (e, (n - 1, w'))))"

interpretation failed: encoder_sim "newEncoder E" "failing_once E" "\<lambda>w d. d = (0, w)" for E
  by unfold_locales (auto simp: failing_once_def split: prod.split)

lemma sign_Close_overfull:
  assumes "sa_good enc s" "signatureBlockSize < length (saBuffer s)"
  shows "signAttachedStream_Close enc s = Panic"
proof -
  have "saVersion s = Version1 \<or> saVersion s = Version2" using assms(1) by (simp add: sa_good_def)
  then show ?thesis
  proof
    assume "saVersion s = Version1"
    then show ?thesis
      using assms(2) signBlock_emits_more [OF assms] by (auto simp: signAttachedStream_Close_def)
  next
    assume "saVersion s = Version2"
    then show ?thesis
      using assms(2) by (simp add: signAttachedStream_Close_def signBlock_def checkSignBlockRead_def Let_def)
  qed
qed

text \<open>
  C40: \<open>signAttachedStream\<close> does not remember that a \<open>Write\<close> failed. When the first \<open>Write\<close>, of more than
  one block, meets a destination that refuses the first block once, taking none of it, and an
  encoder that stays usable, it returns the error; if it was of at most two blocks, \<open>Close\<close> then succeeds, and what
  was written verifies, under the signer's key, as a complete message without the block that was
  lost; if it was of more, \<open>Close\<close> panics on what is left in the buffer.
\<close>

theorem sign_drops_failed_block:
  assumes codec: "codec_ok E" and key: "signs_for sk pk" and v: "v = Version1 \<or> v = Version2"
    and rand: "16 \<le> length (pending rand)" and grow: "\<forall>c. c < grow c"
    and accepts: "versionValidator v = None" and ring: "keyring (sigToKID pk) = Some pk"
    and size: "signatureBlockSize < length p"
  shows "\<exists>s rand' e s1.
    newSignAttachedStream E (failing_once E) v (2, []) (Some sk) rand = (Inr s, rand') \<and>
    signAttachedStream_Write (failing_once E) p s = Ret (0, Some e) s1 \<and>
    (if length p \<le> 2 * signatureBlockSize
     then \<exists>s2. signAttachedStream_Close (failing_once E) s1 = Ret None s2 \<and>
       Verify E grow versionValidator (snd (saEncoder s2)) keyring = Some (Ok (pk, drop signatureBlockSize p))
     else signAttachedStream_Close (failing_once E) s1 = Panic)"
proof -
  let ?hb = "enc1 E (PSignatureHeader (sig_header pk v MessageTypeAttachedSignature (take 16 (pending rand))))"
  let ?p = "drop signatureBlockSize p" and ?r = "rand\<lparr>pending := drop 16 (pending rand)\<rparr>"
  let ?s = "\<lambda>w b. \<lparr>saVersion = v, saHeaderHash = hashHeader ?hb, saEncoder = w, saBuffer = b, saSeqno = 0,
      saSecretKey = sk\<rparr>"
  let ?w = "enc1 E (PBytes ?hb)"
  have new: "newSignAttachedStream E (failing_once E) v (2, []) (Some sk) rand = (Inr (?s (Suc 0, ?w) []), ?r)"
    "newSignAttachedStream E (newEncoder E) v [] (Some sk) rand = (Inr (?s ?w []), ?r)"
    using key rand by (simp_all add: newSignAttachedStream_def newSignatureHeader_enough signs_for_def
        marshal_enc1 [OF codec] newEncoder_ok [OF codec] failing_once_def)
  have "known_major v" using v by auto
  then obtain i where "attachedSignatureInput v (hashHeader ?hb) (take signatureBlockSize p) 0 False = Ok i"
    using attachedSignatureInput_known by blast
  moreover obtain sig where "sigSign sk i = Inr sig" using key unfolding signs_for_def by blast
  ultimately have sig: "computeSig (?s (Suc 0, ?w) ?p) (take signatureBlockSize p) 0 False = Ok sig"
    by (simp add: computeSig_def)
  have chk: "checkSignBlockRead v False signatureBlockSize (length (take signatureBlockSize p)) (length ?p) = Ok ()"
      "assertEncodedChunkState v (take signatureBlockSize p) 0 0 False = Ok ()"
    using v size by (auto simp: checkSignBlockRead_def assertEncodedChunkState_Ok chunk_rule_def)
  obtain sBlock where "makeSignatureBlock v sig (take signatureBlockSize p) False = Ok sBlock"
    using v by (auto simp: makeSignatureBlock_def)
  then have "signBlock (failing_once E) False (?s (Suc 0, ?w) p) = Ret (Some (ErrForeign 0)) (?s (0, ?w) ?p)"
    using sig chk by (simp add: signBlock_def Let_def failing_once_def)
  then have failed: "signAttachedStream_Write (failing_once E) p (?s (Suc 0, ?w) []) =
      Ret (0, Some (ErrForeign 0)) (?s (0, ?w) ?p)"
    using size by (simp add: signAttachedStream_Write_def signAttachedStream_loop.simps)
  have sim: "sa_sim (\<lambda>w d. d = (0, w)) (?s ?w ?p) (?s (0, ?w) ?p)" by (simp add: sa_sim_def)
  show ?thesis
  proof (cases "length p \<le> 2 * signatureBlockSize")
    case True
    from verify_signed [where versionValidator = versionValidator and keyring = keyring and plaintext = ?p,
        OF codec key v rand grow accepts ring]
    obtain msg rand' where msg: "Sign E v ?p (Some sk) rand = (Ok msg, rand')"
        "Verify E grow versionValidator msg keyring = Some (Ok (pk, ?p))" by blast
    have "\<not> signatureBlockSize < length ?p" using True by simp
    then have "signAttachedStream_Write (newEncoder E) ?p (?s ?w []) = Ret (length ?p, None) (?s ?w ?p)"
      by (simp add: signAttachedStream_Write_def sa.loop_short del: length_drop)
    with msg(1) new(2) obtain s2 where s2: "signAttachedStream_Close (newEncoder E) (?s ?w ?p) = Ret None s2"
        "saEncoder s2 = msg"
      by (auto simp: Sign_def signToStream_def split: go.splits option.splits)
    from failed.signAttachedStream_Close_sim [OF sim, of E] s2
    obtain s3 where "signAttachedStream_Close (failing_once E) (?s (0, ?w) ?p) = Ret None s3"
        "snd (saEncoder s3) = msg"
      by (auto elim: sim_go_cases simp: sa_sim_def)
    with new(1) failed msg(2) True show ?thesis by auto
  next
    case False
    have "sa_good (newEncoder E) (?s ?w ?p)"
      using v key writes_all_newEncoder [OF codec] by (auto simp: sa_good_def signs_for_def)
    moreover have "signatureBlockSize < length ?p" using False by simp
    ultimately have "signAttachedStream_Close (newEncoder E) (?s ?w ?p) = Panic"
      by (intro sign_Close_overfull) simp_all
    with failed.signAttachedStream_Close_sim [OF sim, of E]
    have "signAttachedStream_Close (failing_once E) (?s (0, ?w) ?p) = Panic"
      by (auto elim: sim_go_cases)
    with new(1) failed False show ?thesis by auto
  qed
qed

theorem sign_drops_failed_block_witness:
  "\<exists>s rand' e s1 s2.
    newSignAttachedStream toy_env (failing_once toy_env) Version2 (2, []) (Some (toy_sigsk [7]))
      (bytes_input (replicate 16 0)) = (Inr s, rand') \<and>
    signAttachedStream_Write (failing_once toy_env) (replicate 1048579 5) s = Ret (0, Some e) s1 \<and>
    signAttachedStream_Close (failing_once toy_env) s1 = Ret None s2 \<and>
    Verify toy_env Suc CheckKnownMajorVersion (snd (saEncoder s2)) (toy_sigring [7]) =
      Some (Ok (toy_sigpk [7], drop signatureBlockSize (replicate 1048579 5)))"
proof -
  have size: "signatureBlockSize < length (replicate 1048579 (5 :: byte))"
    "length (replicate 1048579 (5 :: byte)) \<le> 2 * signatureBlockSize"
    by (simp_all only: length_replicate) (simp_all add: signatureBlockSize_def)
  have rand: "16 \<le> length (pending (bytes_input (replicate 16 0)))" by (simp add: bytes_input_def)
  have "CheckKnownMajorVersion Version2 = None" by (simp add: CheckKnownMajorVersion_None)
  from sign_drops_failed_block [where E = toy_env and sk = "toy_sigsk [7]" and pk = "toy_sigpk [7]" and
      v = Version2 and grow = Suc and versionValidator = CheckKnownMajorVersion and keyring = "toy_sigring [7]",
      OF _ _ _ rand _ this _ size(1)] size(2)
  show ?thesis by (simp del: length_replicate drop_replicate)
qed

section \<open>Signing with an unknown version\<close>

text \<open>
  \<open>NewSignStream\<close> does not check the version, as \<open>NewEncryptStream\<close> does: a message of an unknown
  version panics when its first block is made, where \<open>Seal\<close> returns an error.
\<close>

lemma Sign_unknown_version_panics:
  assumes codec: "codec_ok E" and key: "signs_for sk pk" and v: "v \<noteq> Version1" "v \<noteq> Version2"
    and rand: "16 \<le> length (pending rand)"
  shows "fst (Sign E v p (Some sk) rand) = Panicked"
proof -
  let ?hb = "enc1 E (PSignatureHeader (sig_header pk v MessageTypeAttachedSignature (take 16 (pending rand))))"
  have new: "newSignAttachedStream E (newEncoder E) v [] (Some sk) rand =
      (Inr \<lparr>saVersion = v, saHeaderHash = hashHeader ?hb, saEncoder = enc1 E (PBytes ?hb), saBuffer = [],
         saSeqno = 0, saSecretKey = sk\<rparr>, rand\<lparr>pending := drop 16 (pending rand)\<rparr>)"
    using key rand by (simp add: newSignAttachedStream_def newSignatureHeader_enough signs_for_def
        marshal_enc1 [OF codec] newEncoder_ok [OF codec])
  show ?thesis
    using v by (simp add: Sign_def signToStream_def new signAttachedStream_Write_def
        signAttachedStream_loop.simps signAttachedStream_Close_def signBlock_def checkSignBlockRead_def Let_def)
qed

lemma Seal_unknown_version_error:
  "v \<noteq> Version1 \<Longrightarrow> v \<noteq> Version2 \<Longrightarrow> receivers \<noteq> [] \<Longrightarrow>
     Seal E create v plaintext sender receivers rand = Err (ErrBadVersion v)"
  by (simp add: Seal_def receiversToEphemeralKeyCreator_def seal_def newEncryptStream_def encryptStream_init_def checkKnownVersion_def
      KnownVersions_def)

end
