(* ===== verification/Spec2Isabelle.thy ===== *)
theory Spec2Isabelle
  imports Nonce Rand Basex_Props Chunk_Reader Sign_Verify Decrypt_Props Signcrypt_Props Armor62_Messages
    Basex_Float Classify_Open Basic_Messages Stream_Safety
begin

text \<open>
  Saltpack, the message format of Keybase, as implemented in Go: messages are sequences of
  MessagePack packets, a header followed by blocks of at most one megabyte, and may be armored as
  text. This development translates the package (\<open>src/*.go\<close>), its base-x encoder
  (\<open>src/encoding/basex\<close>) and its example keyring (\<open>src/basic\<close>) and proves what each part promises.

  How the parts interact. A sender's stream (\<open>signAttachedStream\<close>, \<open>encryptStream\<close>,
  \<open>signcryptSealStream\<close>) draws nonces and keys, writes the header through the MessagePack encoder,
  cuts the plaintext into blocks and writes one packet per block. A reader's stream reads and checks the
  header against a keyring and then yields one checked chunk per packet to \<open>chunkReader\<close>. Armor is a
  stream below the sender's (base-62 characters in words and lines between two frames) and a reader
  below the reader's (punctuation, frames, filter, base-62 decoder). Classification peeks at the
  first bytes of a stream and picks the reader.

  Conventions. A function that may panic returns \<open>outcome\<close> (\<open>Ok\<close>, \<open>Err\<close>, \<open>Panicked\<close>) or, when
  it also changes state, \<open>go\<close> (\<open>Ret result state\<close> or \<open>Panic\<close>); an error is a value of \<open>err\<close>. An
  \<open>io.Reader\<close> that is only consumed is an \<open>input\<close> (the bytes it still holds and the error after
  them), and so is the system's randomness, a tape; where the code reads from an arbitrary reader or
  writes to an arbitrary writer, that is any state with a function. A \<open>bytes.Buffer\<close> is a byte list.
  Counters that wrap are 64-bit words. A loop that may not end is a \<open>partial_function (option)\<close>; that
  the whole-message functions return is then a theorem (\<open>Verify_total\<close>, \<open>SigncryptOpen_total\<close>,
  \<open>Armor62Open_total\<close>) and no fuel is used.

  Parameters. \<open>env\<close> is the MessagePack codec and NaCl's secret boxes, with the laws of
  \<open>Interfaces\<close>; \<open>nacl\<close> is NaCl under the example keys; \<open>grow\<close> and \<open>sz\<close> are the sizes of the reads of
  \<open>io.ReadAll\<close> and of the codec; \<open>sizes\<close> cuts the codec's output into calls of \<open>Write\<close>. The theorems
  hold for all of them (\<open>grow\<close> must grow). A plaintext is shorter than \<open>2^64 - 1\<close> bytes, so that the block
  counter of the sealing streams does not reach its limit; \<open>encryptBlock_overflow\<close> shows what happens there.

  Theories.
  \<^item> \<open>Prelude\<close>: outcomes, bytes, big-endian numbers, cutting lists into blocks. \<open>Io\<close>: writers and
    readers, the locales \<open>sink\<close> (accepts everything) and \<open>source\<close> (yields given bytes).
  \<^item> \<open>Types\<close> (\<open>const.go\<close>, \<open>packets.go\<close>, \<open>errors.go\<close>): versions, packets, errors, header checks.
  \<^item> \<open>Nonce\<close> (\<open>nonce.go\<close>), \<open>Rand\<close> (\<open>rand.go\<close>): nonces and when they coincide, unbiased numbers and the shuffle.
  \<^item> \<open>Sha512\<close>: the hash of Go's library, as a function. \<open>Interfaces\<close> (\<open>key.go\<close>, \<open>msgpack.go\<close>): keys, keyrings,
    the codec and secret boxes as parameters, and the laws about them that theorems assume.
  \<^item> \<open>Common\<close> (\<open>common.go\<close>): what is signed and authenticated, checks on blocks.
  \<^item> \<open>Chunk_Reader\<close> (\<open>chunk_reader.go\<close>): the locale \<open>chunk_source\<close> is the contract of a source of chunks;
    the decrypting and verifying streams interpret it. \<open>Block_Reader\<close>: what the three readers share.
  \<^item> \<open>Block_Stream\<close>, \<open>Blocks\<close>: the contract the signing and encrypting streams share (a
    buffer cut into blocks), as locales, and the well-formed sequences of blocks.
  \<^item> \<open>Sign\<close>, \<open>Sign_Correct\<close>, \<open>Verify\<close>, \<open>Sign_Verify\<close> (\<open>sign*.go\<close>, \<open>verify*.go\<close>): signatures.
  \<^item> \<open>Encrypt\<close>, \<open>Encrypt_Correct\<close>, \<open>Decrypt\<close>, \<open>Box_Laws\<close>, \<open>Encrypt_Decrypt\<close>, \<open>Encrypt_Props\<close>,
    \<open>Decrypt_Props\<close> (\<open>encrypt.go\<close>, \<open>decrypt.go\<close>): encryption.
  \<^item> \<open>Signcrypt_Seal\<close>, \<open>Signcrypt_Open\<close>, \<open>Signcrypt_Correct\<close>, \<open>Signcrypt_Roundtrip\<close>, \<open>Signcrypt_Props\<close>
    (\<open>signcrypt_seal.go\<close>, \<open>signcrypt_open.go\<close>): signcryption.
  \<^item> \<open>Stream_Safety\<close>: the encrypting stream as a state machine, what its writes keep and when it panics, and
    what the encrypting and signing streams do after a failed \<open>Write\<close>.
  \<^item> \<open>Basex\<close>, \<open>Basex_Correct\<close>, \<open>Basex_Props\<close> (\<open>encoding.go\<close>, \<open>bases.go\<close>), \<open>Basex_Stream\<close>,
    \<open>Basex_Stream_Correct\<close> (\<open>stream.go\<close>): the radix encoding, on buffers and as streams. \<open>Basex_Float\<close>: its lengths
    are the ceilings and floors of logarithms that the source computes in \<open>float64\<close> (whose rounding is not modelled).
  \<^item> \<open>Frame\<close> (\<open>frame.go\<close>), \<open>Armor\<close>, \<open>Armor_Correct\<close>, \<open>Dearmor\<close>, \<open>Dearmor_Correct\<close> (\<open>armor.go\<close>), \<open>Punctuated\<close>
    (\<open>punctuated_reader.go\<close>), \<open>Armor62\<close> (\<open>armor62.go\<close>): armor.
  \<^item> \<open>Encoder_Sim\<close>: the binary streams over two destinations that simulate each other.
    \<open>Armor62_Seal\<close>, \<open>Armor62_Open\<close>, \<open>Armor62_Messages\<close> (\<open>armor62_*.go\<close>): armored messages.
  \<^item> \<open>Classify\<close>, \<open>Classify_Props\<close> (\<open>classify_and_decrypt.go\<close>): recognising messages. \<open>Classify_Open\<close>:
    sealing, armor, classification and opening composed, under a law that joins the codec's encoder to the
    decoders of the first header fields, with a codec that satisfies it.
  \<^item> \<open>Basic_Keyring\<close>, \<open>Basic_Keyring_Props\<close>, \<open>Basic_Messages\<close> (\<open>basic/key.go\<close>): the example keys and keyring.
  \<^item> \<open>Instance\<close>: a codec and keys that satisfy the laws, for the witnesses.

  What the theorems show: round trips of every kind of message, binary and armored; that what opens or
  verifies was made by the sender, block by block, for this header; that readers end and where they
  panic; that streams do not depend on how they are fed; exactly when two nonces under one key coincide; that the shuffle
  reaches every order; that the radix encoder computes the digits it should; the frames and the
  classification of what was sealed, and that the decoder classification makes delivers the plaintext; the invariant of the keyring.

  Not modelled: the byte format of MessagePack, with the order of fields that version 2 blocks
  choose (\<open>CodecEncodeSelf\<close>, \<open>CodecDecodeSelf\<close>), and the cryptographic primitives other than
  SHA-512, which are third-party code and parameters with their documented laws; the text of error
  messages and \<open>String\<close> methods; constant-time comparison, which is equality here; tests.
\<close>

end
